(* ===== verification/Rust_Prelude.thy ===== *)
theory Rust_Prelude
  imports Main "HOL-Library.Word" "HOL-Library.Signed_Division"
begin

text \<open>
  What every theory of the development shares.

  \<^item> Results: a fallible Rust function returns \<open>failure + 'a\<close>.  \<open>Fail\<close> carries the
    program's own error value (a returned \<open>Err\<close>), \<open>Trap\<close> is a host trap: a missing
    authorisation, an arithmetic panic, a stored value of the wrong type.  The Rust
    operator \<open>?\<close> is \<open>and_then\<close>, a \<open>for\<close> loop whose body uses \<open>?\<close> is \<open>fold_res\<close>.
  \<^item> Machine integers: \<open>i128\<close> values are \<open>int\<close>, \<open>u32\<close>, \<open>u64\<close> and \<open>u128\<close> values are
    \<open>nat\<close>, and every checked, saturating or trapping operation of the source is a
    function that writes out the bounds of the width.
  \<^item> Maps: \<open>total_of\<close> adds up the values of a finite map, \<open>get_or\<close> is
    \<open>get(..).unwrap_or(..)\<close>.
\<close>

named_theorems res_simps \<open>inversion and evaluation of results\<close>
named_theorems range_simps \<open>bounds of the machine integers\<close>

section \<open>Results\<close>

datatype 'e failure = Fail 'e | Trap

type_synonym ('e, 'a) result = "'e failure + 'a"

definition and_then :: "('e, 'a) result \<Rightarrow> ('a \<Rightarrow> ('e, 'b) result) \<Rightarrow> ('e, 'b) result" where
  "and_then m k = (case m of Inl e \<Rightarrow> Inl e | Inr x \<Rightarrow> k x)"

definition ok_or :: "'a option \<Rightarrow> 'e \<Rightarrow> ('e, 'a) result" where
  "ok_or x e = (case x of None \<Rightarrow> Inl (Fail e) | Some v \<Rightarrow> Inr v)"

definition or_trap :: "'a option \<Rightarrow> ('e, 'a) result" where
  "or_trap x = (case x of None \<Rightarrow> Inl Trap | Some v \<Rightarrow> Inr v)"

definition ensure :: "bool \<Rightarrow> 'e \<Rightarrow> ('e, unit) result" where
  "ensure b e = (if b then Inr () else Inl (Fail e))"

fun fold_res :: "('x \<Rightarrow> 's \<Rightarrow> ('e, 's) result) \<Rightarrow> 'x list \<Rightarrow> 's \<Rightarrow> ('e, 's) result" where
  "fold_res f [] s = Inr s"
| "fold_res f (x # xs) s = and_then (f x s) (fold_res f xs)"

lemma and_then_simps [simp]:
  "and_then (Inl e) k = Inl e"
  "and_then (Inr x) k = k x"
  by (simp_all add: and_then_def)

lemma and_then_Inr [res_simps]:
  "and_then m k = Inr y \<longleftrightarrow> (\<exists>x. m = Inr x \<and> k x = Inr y)"
  by (cases m) simp_all

lemma and_then_assoc: "and_then (and_then m k) l = and_then m (\<lambda>x. and_then (k x) l)"
  by (cases m) simp_all

lemma and_then_cong [fundef_cong]:
  "m = m' \<Longrightarrow> (\<And>x. m' = Inr x \<Longrightarrow> k x = k' x) \<Longrightarrow> and_then m k = and_then m' k'"
  by (cases m') simp_all

lemma ok_or_simps [simp]:
  "ok_or None e = Inl (Fail e)"
  "ok_or (Some v) e = Inr v"
  by (simp_all add: ok_or_def)

lemma ok_or_Inr [res_simps]: "ok_or x e = Inr v \<longleftrightarrow> x = Some v"
  by (cases x) simp_all

lemma or_trap_simps [simp]:
  "or_trap None = Inl Trap"
  "or_trap (Some v) = Inr v"
  by (simp_all add: or_trap_def)

lemma or_trap_Inr [res_simps]: "or_trap x = Inr v \<longleftrightarrow> x = Some v"
  by (cases x) simp_all

lemma ensure_simps [simp]:
  "ensure True e = Inr ()"
  "ensure False e = Inl (Fail e)"
  by (simp_all add: ensure_def)

lemma ensure_Inr [res_simps]: "ensure b e = Inr u \<longleftrightarrow> b"
  by (cases b) simp_all

lemma if_Inl_Inr [res_simps]:
  "(if b then Inl e else m) = Inr y \<longleftrightarrow> \<not> b \<and> m = Inr y"
  "(if b then m else Inl e) = Inr y \<longleftrightarrow> b \<and> m = Inr y"
  by simp_all

lemma fold_res_append: "fold_res f (xs @ ys) s = and_then (fold_res f xs s) (fold_res f ys)"
proof (induction xs arbitrary: s)
  case Nil
  then show ?case by simp
next
  case (Cons x xs)
  have "fold_res f (xs @ ys) = (\<lambda>t. and_then (fold_res f xs t) (fold_res f ys))"
    using Cons.IH by (rule ext)
  then show ?case by (simp add: and_then_assoc)
qed

lemma fold_res_inv:
  assumes step: "\<And>x s s'. x \<in> set xs \<Longrightarrow> P s \<Longrightarrow> f x s = Inr s' \<Longrightarrow> P s'"
    and "P s" "fold_res f xs s = Inr s'"
  shows "P s'"
  using assms
proof (induction xs arbitrary: s)
  case Nil
  then show ?case by simp
next
  case (Cons x xs)
  from Cons.prems(3) obtain t where t: "f x s = Inr t" "fold_res f xs t = Inr s'"
    by (auto simp: res_simps)
  have "P t" using Cons.prems(1)[of x s t] Cons.prems(2) t(1) by simp
  moreover have "\<And>y u u'. y \<in> set xs \<Longrightarrow> P u \<Longrightarrow> f y u = Inr u' \<Longrightarrow> P u'"
    by (rule Cons.prems(1)) simp_all
  ultimately show ?case using Cons.IH[of t] t(2) by blast
qed

lemma fold_res_rel:
  assumes step: "\<And>x s s'. x \<in> set xs \<Longrightarrow> f x s = Inr s' \<Longrightarrow> R s s'"
    and refl: "\<And>s. R s s"
    and trans: "\<And>a b c. R a b \<Longrightarrow> R b c \<Longrightarrow> R a c"
    and run: "fold_res f xs s = Inr s'"
  shows "R s s'"
proof -
  have "P s'" if "P s" "\<And>t t'. P t \<Longrightarrow> R t t' \<Longrightarrow> P t'" for P
    by (rule fold_res_inv[where P = P and f = f and xs = xs, OF _ that(1) run])
       (blast intro: that(2) step)
  from this[of "R s"] show ?thesis using refl trans by blast
qed

text \<open>A loop that adds \<open>g x\<close> to a quantity at each step adds the sum of \<open>g\<close> over the list.\<close>

lemma fold_res_sum:
  fixes m :: "'s \<Rightarrow> int"
  assumes step: "\<And>x s s'. x \<in> set xs \<Longrightarrow> f x s = Inr s' \<Longrightarrow> m s' = m s + g x"
    and run: "fold_res f xs s = Inr s'"
  shows "m s' = m s + sum_list (map g xs)"
  using assms
proof (induction xs arbitrary: s)
  case Nil
  then show ?case by simp
next
  case (Cons x xs)
  from Cons.prems(2) obtain t where t: "f x s = Inr t" "fold_res f xs t = Inr s'"
    by (auto simp: res_simps)
  have "m s' = m t + sum_list (map g xs)"
    using Cons.IH[of t] Cons.prems(1) t(2) by simp
  moreover have "m t = m s + g x" using Cons.prems(1)[of x s t] t(1) by simp
  ultimately show ?case by simp
qed

section \<open>Machine integers\<close>

definition in_i128 :: "int \<Rightarrow> bool" where
  "in_i128 x \<longleftrightarrow> - (2 ^ 127) \<le> x \<and> x < 2 ^ 127"

definition u32_max :: nat where "u32_max = 2 ^ 32 - 1"
definition u64_max :: nat where "u64_max = 2 ^ 64 - 1"
definition u128_max :: nat where "u128_max = 2 ^ 128 - 1"

definition checked_add :: "int \<Rightarrow> int \<Rightarrow> int option" where
  "checked_add a b = (if in_i128 (a + b) then Some (a + b) else None)"

definition checked_sub :: "int \<Rightarrow> int \<Rightarrow> int option" where
  "checked_sub a b = (if in_i128 (a - b) then Some (a - b) else None)"

definition checked_mul :: "int \<Rightarrow> int \<Rightarrow> int option" where
  "checked_mul a b = (if in_i128 (a * b) then Some (a * b) else None)"

text \<open>\<open>i128::checked_div\<close>: \<open>None\<close> for a zero divisor and for \<open>MIN / -1\<close>, otherwise the
  quotient rounded towards zero (\<open>sdiv\<close>).\<close>

definition checked_div :: "int \<Rightarrow> int \<Rightarrow> int option" where
  "checked_div a b = (if b = 0 \<or> \<not> in_i128 (a sdiv b) then None else Some (a sdiv b))"

definition saturating_add :: "int \<Rightarrow> int \<Rightarrow> int" where
  "saturating_add a b = max (- (2 ^ 127)) (min (2 ^ 127 - 1) (a + b))"

definition saturating_sub :: "int \<Rightarrow> int \<Rightarrow> int" where
  "saturating_sub a b = max (- (2 ^ 127)) (min (2 ^ 127 - 1) (a - b))"

text \<open>Unsigned operations, for a width given by its largest value.\<close>

definition uchecked_add :: "nat \<Rightarrow> nat \<Rightarrow> nat \<Rightarrow> nat option" where
  "uchecked_add m a b = (if a + b \<le> m then Some (a + b) else None)"

definition uchecked_sub :: "nat \<Rightarrow> nat \<Rightarrow> nat option" where
  "uchecked_sub a b = (if b \<le> a then Some (a - b) else None)"

definition uchecked_mul :: "nat \<Rightarrow> nat \<Rightarrow> nat \<Rightarrow> nat option" where
  "uchecked_mul m a b = (if a * b \<le> m then Some (a * b) else None)"

definition usaturating_add :: "nat \<Rightarrow> nat \<Rightarrow> nat \<Rightarrow> nat" where
  "usaturating_add m a b = min m (a + b)"

definition usaturating_sub :: "nat \<Rightarrow> nat \<Rightarrow> nat" where
  "usaturating_sub a b = a - b"

definition usaturating_mul :: "nat \<Rightarrow> nat \<Rightarrow> nat \<Rightarrow> nat" where
  "usaturating_mul m a b = min m (a * b)"

definition abs_diff :: "nat \<Rightarrow> nat \<Rightarrow> nat" where
  "abs_diff a b = (if b \<le> a then a - b else b - a)"

lemma checked_add_Some [res_simps]:
  "checked_add a b = Some c \<longleftrightarrow> in_i128 (a + b) \<and> c = a + b"
  by (auto simp: checked_add_def)

lemma checked_sub_Some [res_simps]:
  "checked_sub a b = Some c \<longleftrightarrow> in_i128 (a - b) \<and> c = a - b"
  by (auto simp: checked_sub_def)

lemma checked_mul_Some [res_simps]:
  "checked_mul a b = Some c \<longleftrightarrow> in_i128 (a * b) \<and> c = a * b"
  by (auto simp: checked_mul_def)

lemma checked_div_Some [res_simps]:
  "checked_div a b = Some c \<longleftrightarrow> b \<noteq> 0 \<and> in_i128 (a sdiv b) \<and> c = a sdiv b"
  by (auto simp: checked_div_def)

lemma uchecked_Some [res_simps]:
  "uchecked_add m a b = Some c \<longleftrightarrow> a + b \<le> m \<and> c = a + b"
  "uchecked_sub a b = Some c \<longleftrightarrow> b \<le> a \<and> c = a - b"
  "uchecked_mul m a b = Some c \<longleftrightarrow> a * b \<le> m \<and> c = a * b"
  for a b c :: nat
  by (auto simp: uchecked_add_def uchecked_sub_def uchecked_mul_def)

lemma in_i128_0 [simp, range_simps]: "in_i128 0"
  by (simp add: in_i128_def)

lemma in_i128_between [range_simps]:
  "in_i128 a \<Longrightarrow> in_i128 c \<Longrightarrow> a \<le> b \<Longrightarrow> b \<le> c \<Longrightarrow> in_i128 b"
  by (simp add: in_i128_def)

lemma in_i128_diff_nonneg [range_simps]:
  "in_i128 a \<Longrightarrow> 0 \<le> a \<Longrightarrow> 0 \<le> b \<Longrightarrow> in_i128 b \<Longrightarrow> in_i128 (a - b)"
  by (simp add: in_i128_def)

lemma saturating_add_exact: "in_i128 (a + b) \<Longrightarrow> saturating_add a b = a + b"
  by (simp add: saturating_add_def in_i128_def)

lemma saturating_add_range [range_simps]: "in_i128 (saturating_add a b)"
  by (simp add: saturating_add_def in_i128_def)

text \<open>On non-negative operands the truncated quotient is the Euclidean one.\<close>

lemma sdiv_nonneg: "0 \<le> a \<Longrightarrow> 0 \<le> b \<Longrightarrow> a sdiv b = a div b"
  for a b :: int
  by (cases "a = 0"; cases "b = 0") (simp_all add: signed_divide_int_def sgn_if)

lemma smod_nonneg: "0 \<le> a \<Longrightarrow> 0 \<le> b \<Longrightarrow> a smod b = a mod b"
  for a b :: int
  by (simp add: smod_int_alt_def sgn_if)

lemma sdiv_nonneg_ge0: "0 \<le> a \<Longrightarrow> 0 \<le> b \<Longrightarrow> 0 \<le> a sdiv b"
  for a b :: int
  by (cases "b = 0") (simp_all add: sdiv_nonneg pos_imp_zdiv_nonneg_iff)

lemma in_i128_sdiv: "in_i128 m \<Longrightarrow> 0 < w \<Longrightarrow> in_i128 (m sdiv w)"
proof -
  assume m: "in_i128 m" and w: "0 < w"
  have "\<bar>m sdiv w\<bar> \<le> \<bar>m\<bar>"
  proof -
    have "\<bar>m\<bar> div w \<le> \<bar>m\<bar>" using zdiv_mono2[of "\<bar>m\<bar>" 1 w] w by simp
    moreover have "0 \<le> \<bar>m\<bar> div w" using w by (simp add: pos_imp_zdiv_nonneg_iff)
    ultimately show ?thesis using w by (simp add: signed_divide_int_def abs_mult)
  qed
  moreover have "m sdiv w \<le> 0" if "m \<le> 0"
    using that w by (simp add: signed_divide_int_def sgn_if pos_imp_zdiv_nonneg_iff)
  moreover have "0 \<le> m sdiv w" if "0 \<le> m" using that w by (simp add: sdiv_nonneg_ge0)
  ultimately show ?thesis using m by (cases "0 \<le> m") (auto simp: in_i128_def)
qed

lemma checked_div_pos: "in_i128 m \<Longrightarrow> 0 < w \<Longrightarrow> checked_div m w = Some (m sdiv w)"
  by (simp add: checked_div_def in_i128_sdiv)

lemma or_trap_Inl: "or_trap x = Inl e \<longleftrightarrow> x = None \<and> e = Trap"
  by (cases x) auto

text \<open>The checked operations are the two's-complement ones: they answer exactly when the
  128-bit word operation does not overflow, and then with its value.\<close>

lemma in_i128_sint: "in_i128 (sint (w :: 128 word))"
  using sint_range_size[of w] by (simp add: in_i128_def word_size)

lemma sint_word_of_int_i128: "in_i128 x \<Longrightarrow> sint (word_of_int x :: 128 word) = x"
  by (simp add: in_i128_def sint_sbintrunc' signed_take_bit_int_eq_self)

section \<open>Maps\<close>

definition get_or :: "('k \<rightharpoonup> 'v) \<Rightarrow> 'v \<Rightarrow> 'k \<Rightarrow> 'v" where
  "get_or m d k = (case m k of None \<Rightarrow> d | Some v \<Rightarrow> v)"

definition unwrap_or :: "'a option \<Rightarrow> 'a \<Rightarrow> 'a" where
  "unwrap_or x d = (case x of None \<Rightarrow> d | Some v \<Rightarrow> v)"

definition total_of :: "('k \<rightharpoonup> int) \<Rightarrow> int" where
  "total_of m = (\<Sum>k\<in>dom m. the (m k))"

lemma unwrap_or_simps [simp]:
  "unwrap_or None d = d"
  "unwrap_or (Some v) d = v"
  by (simp_all add: unwrap_or_def)

lemma get_or_upd [simp]: "get_or (m(k \<mapsto> v)) d k' = (if k' = k then v else get_or m d k')"
  by (simp add: get_or_def)

lemma get_or_del [simp]: "get_or (m(k := None)) d k' = (if k' = k then d else get_or m d k')"
  by (simp add: get_or_def)

lemma total_of_empty [simp]: "total_of Map.empty = 0"
  by (simp add: total_of_def)

lemma total_of_upd:
  assumes "finite (dom m)"
  shows "total_of (m(k \<mapsto> v)) = total_of m - get_or m 0 k + v"
proof -
  have "(\<Sum>x\<in>dom m - {k}. the ((m(k \<mapsto> v)) x)) = (\<Sum>x\<in>dom m - {k}. the (m x))"
    by (rule sum.cong) auto
  then have "total_of (m(k \<mapsto> v)) = v + (\<Sum>x\<in>dom m - {k}. the (m x))"
    using assms by (simp add: total_of_def sum.insert_remove)
  also have "(\<Sum>x\<in>dom m - {k}. the (m x)) = total_of m - get_or m 0 k"
    using assms by (cases "m k") (auto simp: total_of_def get_or_def sum_diff1)
  finally show ?thesis by linarith
qed

lemma total_of_del:
  assumes "finite (dom m)"
  shows "total_of (m(k := None)) = total_of m - get_or m 0 k"
proof -
  have "(\<Sum>x\<in>dom m - {k}. the ((m(k := None)) x)) = (\<Sum>x\<in>dom m - {k}. the (m x))"
    by (rule sum.cong) auto
  then have "total_of (m(k := None)) = (\<Sum>x\<in>dom m - {k}. the (m x))"
    by (simp add: total_of_def)
  also have "\<dots> = total_of m - get_or m 0 k"
    using assms by (cases "m k") (auto simp: total_of_def get_or_def sum_diff1)
  finally show ?thesis .
qed

lemma total_of_nonneg: "(\<And>k v. m k = Some v \<Longrightarrow> 0 \<le> v) \<Longrightarrow> 0 \<le> total_of m"
  unfolding total_of_def by (rule sum_nonneg) auto

section \<open>Floor division\<close>

lemma floor_shares_upper:
  fixes D W :: int
  assumes "0 < W" "sum_list ss = W"
  shows "sum_list (map (\<lambda>s. s * D div W) ss) \<le> D"
proof -
  have "sum_list (map (\<lambda>s. s * D div W) ss) * W = sum_list (map (\<lambda>s. s * D div W * W) ss)"
    by (simp add: sum_list_mult_const)
  also have "\<dots> \<le> sum_list (map (\<lambda>s. s * D) ss)"
    using assms(1) by (intro sum_list_mono) (simp add: minus_mod_eq_div_mult[symmetric])
  also have "\<dots> = D * W" using assms(2) by (simp add: sum_list_mult_const)
  finally show ?thesis using assms(1) by simp
qed

lemma floor_shares_lower:
  fixes D W :: int
  assumes "0 < W" "sum_list ss = W"
  shows "D < sum_list (map (\<lambda>s. s * D div W) ss) + int (length ss) \<or> ss = []"
proof (cases "ss = []")
  case False
  have "s * D < (s * D div W + 1) * W" for s
  proof -
    have "(s * D div W + 1) * W = W * (s * D div W) + W" by (simp add: algebra_simps)
    moreover have "s * D = W * (s * D div W) + s * D mod W" by simp
    ultimately show ?thesis using pos_mod_bound[OF assms(1), of "s * D"] by linarith
  qed
  then have "sum_list (map (\<lambda>s. s * D) ss) < sum_list (map (\<lambda>s. (s * D div W + 1) * W) ss)"
    using False by (intro sum_list_strict_mono) auto
  also have "\<dots> = (sum_list (map (\<lambda>s. s * D div W) ss) + int (length ss)) * W"
    by (simp add: sum_list_mult_const sum_list_addf sum_list_triv)
  also have "sum_list (map (\<lambda>s. s * D) ss) = D * W"
    using assms(2) by (simp add: sum_list_mult_const)
  finally show ?thesis using assms(1) by simp
qed simp

lemma share_le:
  fixes a m :: int
  assumes "0 \<le> a" "0 \<le> m" "m \<le> 10000"
  shows "0 \<le> a * m div 10000" "a * m div 10000 \<le> a"
proof -
  show "0 \<le> a * m div 10000" using assms by (simp add: pos_imp_zdiv_nonneg_iff)
  have "a * m \<le> a * 10000" using assms by (intro mult_left_mono) auto
  then have "a * m div 10000 \<le> a * 10000 div 10000" by (rule zdiv_mono1) simp
  then show "a * m div 10000 \<le> a" by simp
qed


lemma sum_list_update0: "xs \<noteq> [] \<Longrightarrow> sum_list (xs[0 := xs ! 0 + r]) = sum_list xs + (r :: int)"
  by (cases xs) simp_all

lemma and_then_Inl [res_simps]:
  "and_then m k = Inl e \<longleftrightarrow> m = Inl e \<or> (\<exists>x. m = Inr x \<and> k x = Inl e)"
  by (cases m) simp_all

lemma ok_or_not_Trap [simp]: "ok_or x e \<noteq> Inl Trap"
  by (cases x) simp_all


end
