(* ===== verification/Contract_Types.thy ===== *)
theory Contract_Types
  imports Rust_Prelude
begin

text \<open>
  The data of the contract: the error codes of \<open>errors.rs\<close>, the enums and structs of
  \<open>types.rs\<close> that the modelled operations use, and the protocol constants of
  \<open>common.rs\<close>.  A Rust enum is a datatype with the source's constructors, a struct a
  record whose fields carry a short prefix, because two structs of the source share field
  names.  Addresses are natural numbers: the code only compares them.  Byte strings are
  lists of 8-bit words.
\<close>

section \<open>Errors\<close>

datatype (plugins only: code) contract_error =
    AlreadyInitialized
  | AdminNotSet
  | OracleNotSet
  | InvalidBetAmount
  | NoActiveRound
  | RoundEnded
  | InsufficientBalance
  | AlreadyBet
  | Overflow
  | InvalidPrice
  | InvalidDuration
  | InvalidMode
  | WrongModeForPrediction
  | RoundNotEnded
  | StaleOracleData
  | InvalidOracleRound
  | RoundAlreadyActive
  | ContractPaused
  | WindowOutOfRange
  | FutureOracleData
  | PayoutOverflow
  | RoundNotCancellable
  | StakeExceedsMax
  | ExposureCapExceeded
  | PendingWinningsCapExceeded
  | InvalidStartPrice
  | OracleNonceReused
  | InvalidMinParticipants
  | InvalidPrecisionCap
  | PrecisionCapExceeded
  | OracleDeviationExceeded
  | UnsupportedSchemaVersion
  | MigrationActiveRound
  | CommitmentNotFound
  | AlreadyRevealed
  | InvalidRevealWindow
  | HashMismatch
  | OracleNetworkMismatch
  | InvalidProtocolFeeBps
  | MintLimitExceeded
  | NoPendingRotation
  | RotationDelayNotElapsed
  | InvalidArchiveRetention
  | InvalidCommitment
  | InvalidSalt
  | NoRoundTemplate
  | OracleTimestampOutsideWindow
  | PendingWinningsNotExpired
  | EpochBudgetExceeded
  | OracleNotLive
  | InvalidPayoutPolicy
  | BelowMinBet
  | InsufficientOracleQuorum
  | TooFewObservations
  | OracleOutlierRejected
  | DuplicateOracleSource
  | InvalidObservationOrder
  | UnsupportedDataKeyForTtlTouch
  | PendingWinningsNotFound
  | ExpiryNotConfigured
  | AccessDenied
  | ProposalNotFound
  | ProposalExpired
  | GovInvalidState
  | GovUnauthorized
  | IllegalPhaseTransition
  | OracleHeartbeatUnhealthy
  | ClaimBatchTooLarge
  | DuplicateClaimAddress
  | EarlyCashoutDisabled
  | PositionNotFound
  | InvalidPhaseForCashout
  | WrongModeForCashout
  | InsuranceInvalidSplit
  | InsuranceInsufficientFund
  | InvalidAmount
  | DisputeWindowExpired
  | ClaimLocked
  | RoundStartLedgerReused
  | PageSizeExceeded

text \<open>The \<open>u32\<close> discriminants a client sees.\<close>

primrec error_code :: "contract_error \<Rightarrow> nat" where
  "error_code AlreadyInitialized = 1"
| "error_code AdminNotSet = 2"
| "error_code OracleNotSet = 3"
| "error_code InvalidBetAmount = 6"
| "error_code NoActiveRound = 7"
| "error_code RoundEnded = 8"
| "error_code InsufficientBalance = 9"
| "error_code AlreadyBet = 10"
| "error_code Overflow = 11"
| "error_code InvalidPrice = 12"
| "error_code InvalidDuration = 13"
| "error_code InvalidMode = 14"
| "error_code WrongModeForPrediction = 15"
| "error_code RoundNotEnded = 16"
| "error_code StaleOracleData = 18"
| "error_code InvalidOracleRound = 19"
| "error_code RoundAlreadyActive = 20"
| "error_code ContractPaused = 22"
| "error_code WindowOutOfRange = 23"
| "error_code FutureOracleData = 24"
| "error_code PayoutOverflow = 25"
| "error_code RoundNotCancellable = 27"
| "error_code StakeExceedsMax = 28"
| "error_code ExposureCapExceeded = 29"
| "error_code PendingWinningsCapExceeded = 30"
| "error_code InvalidStartPrice = 31"
| "error_code OracleNonceReused = 33"
| "error_code InvalidMinParticipants = 35"
| "error_code InvalidPrecisionCap = 38"
| "error_code PrecisionCapExceeded = 39"
| "error_code OracleDeviationExceeded = 41"
| "error_code UnsupportedSchemaVersion = 42"
| "error_code MigrationActiveRound = 44"
| "error_code CommitmentNotFound = 45"
| "error_code AlreadyRevealed = 46"
| "error_code InvalidRevealWindow = 47"
| "error_code HashMismatch = 48"
| "error_code OracleNetworkMismatch = 49"
| "error_code InvalidProtocolFeeBps = 51"
| "error_code MintLimitExceeded = 53"
| "error_code NoPendingRotation = 54"
| "error_code RotationDelayNotElapsed = 55"
| "error_code InvalidArchiveRetention = 62"
| "error_code InvalidCommitment = 63"
| "error_code InvalidSalt = 64"
| "error_code NoRoundTemplate = 65"
| "error_code OracleTimestampOutsideWindow = 66"
| "error_code PendingWinningsNotExpired = 86"
| "error_code EpochBudgetExceeded = 67"
| "error_code OracleNotLive = 68"
| "error_code InvalidPayoutPolicy = 69"
| "error_code BelowMinBet = 70"
| "error_code InsufficientOracleQuorum = 71"
| "error_code TooFewObservations = 72"
| "error_code OracleOutlierRejected = 73"
| "error_code DuplicateOracleSource = 74"
| "error_code InvalidObservationOrder = 75"
| "error_code UnsupportedDataKeyForTtlTouch = 76"
| "error_code PendingWinningsNotFound = 77"
| "error_code ExpiryNotConfigured = 78"
| "error_code AccessDenied = 79"
| "error_code ProposalNotFound = 80"
| "error_code ProposalExpired = 81"
| "error_code GovInvalidState = 82"
| "error_code GovUnauthorized = 83"
| "error_code IllegalPhaseTransition = 84"
| "error_code OracleHeartbeatUnhealthy = 85"
| "error_code ClaimBatchTooLarge = 87"
| "error_code DuplicateClaimAddress = 88"
| "error_code EarlyCashoutDisabled = 95"
| "error_code PositionNotFound = 96"
| "error_code InvalidPhaseForCashout = 97"
| "error_code WrongModeForCashout = 98"
| "error_code InsuranceInvalidSplit = 99"
| "error_code InsuranceInsufficientFund = 100"
| "error_code InvalidAmount = 101"
| "error_code DisputeWindowExpired = 91"
| "error_code ClaimLocked = 92"
| "error_code RoundStartLedgerReused = 93"
| "error_code PageSizeExceeded = 94"

type_synonym 'a res = "(contract_error, 'a) result"

section \<open>Enums and structs\<close>

type_synonym address = nat
type_synonym bytes = "8 word list"

datatype round_mode = UpDown | Precision

fun mode_code :: "round_mode \<Rightarrow> nat" where
  "mode_code UpDown = 0"
| "mode_code Precision = 1"

datatype runtime_mode = Normal | ClaimsOnly | FullyPaused

datatype policy_action = RoundMutation | Claim | AdminConfig | Settlement

datatype round_phase = Betting | Running | Resolvable

datatype fee_model = FeeOnPot | FeeOnWinnings

datatype payout_policy = Equal | StakeWeighted

datatype one_sided_policy = RefundPolicy | VoidPolicy | CarryForward

datatype bet_side = Up | Down

fun side_code :: "bet_side \<Rightarrow> nat" where
  "side_code Up = 0"
| "side_code Down = 1"

record user_position =
  pos_amount :: int
  pos_side :: bet_side

record user_stats =
  st_total_wins :: nat
  st_total_losses :: nat
  st_current_streak :: nat
  st_best_streak :: nat

record precision_prediction =
  pp_user :: address
  pp_price :: nat
  pp_amount :: int

record precision_commitment =
  pc_hash :: bytes
  pc_amount :: int
  pc_revealed :: bool

record oracle_payload =
  op_price :: nat
  op_timestamp :: nat
  op_round_id :: nat
  op_nonce :: nat
  op_network_id :: bytes
  op_contract_addr :: address
  op_confidence :: "nat option"
  op_attestation :: "bytes option"

record multi_feed_payload =
  mf_prices :: "nat list"
  mf_sources :: "nat list"
  mf_round_id :: nat
  mf_nonce :: nat
  mf_network_id :: bytes
  mf_contract_addr :: address
  mf_timestamp :: nat

record quorum_config =
  q_min_observations :: nat
  q_threshold :: nat
  q_outlier_bps :: nat

record heartbeat =
  hb_timestamp :: nat
  hb_status :: nat

record hb_gate_config =
  hg_strict_mode :: bool
  hg_override_armed :: bool
  hg_grace_seconds :: nat

datatype deviation_reference = StartPrice | Twap

record deviation_config =
  dv_reference_mode :: deviation_reference
  dv_window_samples :: nat

record price_sample =
  ps_price :: nat
  ps_timestamp :: nat

record round =
  r_id :: nat
  r_price_start :: nat
  r_start_ledger :: nat
  r_start_timestamp :: nat
  r_bet_end_ledger :: nat
  r_end_ledger :: nat
  r_pool_up :: int
  r_pool_down :: int
  r_mode :: round_mode

record round_template =
  rt_start_price :: nat
  rt_mode :: "nat option"

datatype archive_status = Resolved | Cancelled | FallbackRefund | Voided

record archived_round =
  ar_round_id :: nat
  ar_price_start :: nat
  ar_price_final :: nat
  ar_mode :: round_mode
  ar_status :: archive_status
  ar_pool_up :: int
  ar_pool_down :: int
  ar_participant_count :: nat
  ar_settled_at :: nat

datatype outcome_type = Win | Loss | Refund | Cancel | Void

record user_round_outcome =
  uo_user :: address
  uo_round_mode :: nat
  uo_prediction_side :: nat
  uo_predicted_price :: nat
  uo_stake :: int
  uo_payout :: int
  uo_outcome :: outcome_type

record pending_dispute =
  pd_round :: round
  pd_final_price :: nat
  pd_confidence :: "nat option"
  pd_resolved_at :: nat
  pd_deadline :: nat

section \<open>Protocol constants\<close>

definition MAX_DISPUTE_LEDGERS :: nat where "MAX_DISPUTE_LEDGERS = 120960"
definition DEFAULT_MAX_PRECISION_PARTICIPANTS :: nat where "DEFAULT_MAX_PRECISION_PARTICIPANTS = 1000"
definition MAX_CLAIM_BATCH_SIZE :: nat where "MAX_CLAIM_BATCH_SIZE = 50"
definition LEADERBOARD_LIMIT :: nat where "LEADERBOARD_LIMIT = 100"
definition DEFAULT_ORACLE_STALE_THRESHOLD :: nat where "DEFAULT_ORACLE_STALE_THRESHOLD = 3600"
definition DEFAULT_BET_WINDOW_LEDGERS :: nat where "DEFAULT_BET_WINDOW_LEDGERS = 6"
definition DEFAULT_RUN_WINDOW_LEDGERS :: nat where "DEFAULT_RUN_WINDOW_LEDGERS = 12"
definition SECONDS_PER_LEDGER :: nat where "SECONDS_PER_LEDGER = 5"
definition DEFAULT_ORACLE_TIMESTAMP_SKEW :: nat where "DEFAULT_ORACLE_TIMESTAMP_SKEW = 300"
definition MAX_PROTOCOL_FEE_BPS :: nat where "MAX_PROTOCOL_FEE_BPS = 1000"
definition BPS_DENOMINATOR :: int where "BPS_DENOMINATOR = 10000"
definition CURRENT_SCHEMA_VERSION :: nat where "CURRENT_SCHEMA_VERSION = 3"
definition MIN_START_PRICE :: nat where "MIN_START_PRICE = 1"
definition MAX_START_PRICE :: nat where "MAX_START_PRICE = 1000000000000000000"
definition DEFAULT_ARCHIVE_RETENTION :: nat where "DEFAULT_ARCHIVE_RETENTION = 128"
definition EPOCH_LEDGERS :: nat where "EPOCH_LEDGERS = 1440"
definition MAX_ORACLE_OBSERVATIONS :: nat where "MAX_ORACLE_OBSERVATIONS = 32"
definition MIN_TWAP_WINDOW_SAMPLES :: nat where "MIN_TWAP_WINDOW_SAMPLES = 2"
definition MAX_TWAP_WINDOW_SAMPLES :: nat where "MAX_TWAP_WINDOW_SAMPLES = 64"

lemmas protocol_constants =
  MAX_DISPUTE_LEDGERS_def DEFAULT_MAX_PRECISION_PARTICIPANTS_def MAX_CLAIM_BATCH_SIZE_def
  LEADERBOARD_LIMIT_def DEFAULT_ORACLE_STALE_THRESHOLD_def DEFAULT_BET_WINDOW_LEDGERS_def
  DEFAULT_RUN_WINDOW_LEDGERS_def SECONDS_PER_LEDGER_def DEFAULT_ORACLE_TIMESTAMP_SKEW_def
  MAX_PROTOCOL_FEE_BPS_def BPS_DENOMINATOR_def CURRENT_SCHEMA_VERSION_def MIN_START_PRICE_def
  MAX_START_PRICE_def DEFAULT_ARCHIVE_RETENTION_def EPOCH_LEDGERS_def
  MAX_ORACLE_OBSERVATIONS_def MIN_TWAP_WINDOW_SAMPLES_def MAX_TWAP_WINDOW_SAMPLES_def
  u32_max_def u64_max_def u128_max_def

text \<open>\<open>payout_add\<close> and \<open>payout_mul\<close> of \<open>math_common.rs\<close>.\<close>

definition payout_add :: "int \<Rightarrow> int \<Rightarrow> int res" where
  "payout_add a b = ok_or (checked_add a b) PayoutOverflow"

definition payout_mul :: "int \<Rightarrow> int \<Rightarrow> int res" where
  "payout_mul a b = ok_or (checked_mul a b) PayoutOverflow"

lemma payout_add_Inr [res_simps]: "payout_add a b = Inr c \<longleftrightarrow> in_i128 (a + b) \<and> c = a + b"
  by (simp add: payout_add_def res_simps)

lemma payout_mul_Inr [res_simps]: "payout_mul a b = Inr c \<longleftrightarrow> in_i128 (a * b) \<and> c = a * b"
  by (simp add: payout_mul_def res_simps)

definition derive_round_phase :: "nat \<Rightarrow> round \<Rightarrow> round_phase" where
  "derive_round_phase ledger r =
     (if ledger < r_bet_end_ledger r then Betting
      else if ledger < r_end_ledger r then Running
      else Resolvable)"

section \<open>Slices and vectors\<close>

text \<open>\<open>slice[i]\<close>: out of range is a trap.\<close>

definition index_or_trap :: "'a list \<Rightarrow> nat \<Rightarrow> 'a res" where
  "index_or_trap xs i = (if i < length xs then Inr (xs ! i) else Inl Trap)"

fun map_res :: "('a \<Rightarrow> 'b res) \<Rightarrow> 'a list \<Rightarrow> 'b list res" where
  "map_res f [] = Inr []"
| "map_res f (x # xs) = and_then (f x) (\<lambda>y. and_then (map_res f xs) (\<lambda>ys. Inr (y # ys)))"

fun position_of :: "'a \<Rightarrow> 'a list \<Rightarrow> nat option" where
  "position_of a [] = None"
| "position_of a (x # xs) = (if x = a then Some 0 else map_option Suc (position_of a xs))"

lemma map_res_Inr: "map_res f xs = Inr ys \<longleftrightarrow> length ys = length xs \<and> (\<forall>i<length xs. f (xs ! i) = Inr (ys ! i))"
proof (induction xs arbitrary: ys)
  case (Cons x xs)
  show ?case
  proof (cases ys)
    case (Cons y ys')
    then show ?thesis using Cons.IH by (auto simp: res_simps nth_Cons All_less_Suc2 split: nat.splits)
  qed (simp add: res_simps)
qed auto

lemma position_of_nth: "distinct xs \<Longrightarrow> i < length xs \<Longrightarrow> position_of (xs ! i) xs = Some i"
  by (induction xs arbitrary: i) (auto simp: nth_Cons split: nat.splits)

lemma position_of_None: "position_of a xs = None \<longleftrightarrow> a \<notin> set xs"
  by (induction xs) auto

lemma position_of_Some: "position_of a xs = Some i \<Longrightarrow> i < length xs \<and> xs ! i = a"
  by (induction xs arbitrary: i) (auto split: if_splits)

lemma map_res_Inl: "map_res f xs = Inl e \<Longrightarrow> \<exists>x\<in>set xs. f x = Inl e"
  by (induction xs) (auto simp: res_simps)

end
