(* ===== verification/Store.thy ===== *)
theory Store
  imports Contract_Types
begin

text \<open>
  The contract's storage and host environment, and the helpers of \<open>common.rs\<close> and
  \<open>storage.rs\<close>.  Each storage key of \<open>types.rs\<close> is a field: a key without parameters an
  option (absent or a value), a scoped key a map.  The fields are grouped into records by
  what they are about: the admin's configuration, the oracle's, the money, the book of
  open positions, the history, the leaderboards, access control, governance.  An
  operation takes the environment of the call and the store and returns an error or the
  new store.  A returned error and a trap both discard every write and event of the
  call, as the host does.  Time-to-live extension is not modelled: an entry does not
  expire.
\<close>

section \<open>The environment of a call\<close>

text \<open>The ledger, the addresses that signed the call, and the host functions whose code is
  the SDK's: the XDR encodings, SHA-256 and ed25519 verification.\<close>

record env =
  e_ledger :: nat
  e_time :: nat
  e_network :: bytes
  e_contract :: address
  e_auth :: "address \<Rightarrow> bool"
  e_xdr_u32 :: "nat \<Rightarrow> bytes"
  e_xdr_u64 :: "nat \<Rightarrow> bytes"
  e_xdr_u128 :: "nat \<Rightarrow> bytes"
  e_xdr_address :: "address \<Rightarrow> bytes"
  e_xdr_bytes :: "bytes \<Rightarrow> bytes"
  e_sha256 :: "bytes \<Rightarrow> bytes"
  e_ed25519 :: "bytes \<Rightarrow> bytes \<Rightarrow> bytes \<Rightarrow> bool"

definition require_auth :: "env \<Rightarrow> address \<Rightarrow> unit res" where
  "require_auth e a = (if e_auth e a then Inr () else Inl Trap)"

section \<open>Storage\<close>

datatype config_kind =
    KWindows | KMaxStake | KMaxUserRoundExposure | KMaxPendingWinnings | KOracleStaleThreshold
  | KOracleMaxDeviationBps | KProtocolFeeBps | KMinParticipants | KMaxPrecisionParticipants
  | KMintLimit | KArchiveRetention | KCloseBufferLedgers | KOracleTimestampSkew
  | KEpochMintBudget | KPendingWinningsExpiry | KPrecisionPayoutPolicy | KMinBet
  | KDisputeLedgers | KFeeModel | KEarlyCashoutBps

datatype config_payload =
    PWindows nat nat
  | PMaxStake "int option"
  | PMaxUserRoundExposure "int option"
  | PMaxPendingWinnings "int option"
  | POracleStaleThreshold nat
  | POracleMaxDeviationBps "nat option"
  | PProtocolFeeBps "nat option"
  | PMinParticipants "nat option"
  | PMaxPrecisionParticipants nat
  | PMintLimit nat
  | PArchiveRetention nat
  | PCloseBufferLedgers nat
  | POracleTimestampSkew nat
  | PEpochMintBudget int
  | PPendingWinningsExpiry nat
  | PPrecisionPayoutPolicy nat
  | PMinBet "int option"
  | PDisputeLedgers nat
  | PFeeModel fee_model
  | PEarlyCashoutBps "nat option"

record pending_config_change =
  pcc_payload :: config_payload
  pcc_activation_ledger :: nat
  pcc_scheduled_at_ledger :: nat

record config =
  c_bet_window :: "nat option"
  c_run_window :: "nat option"
  c_close_buffer :: "nat option"
  c_max_stake :: "int option"
  c_min_bet :: "int option"
  c_max_exposure :: "int option"
  c_max_pending :: "int option"
  c_min_participants :: "nat option"
  c_max_precision_participants :: "nat option"
  c_payout_policy :: "nat option"
  c_fee_bps :: "nat option"
  c_fee_model :: "fee_model option"
  c_early_cashout_bps :: "nat option"
  c_mint_limit :: "nat option"
  c_epoch_budget :: "int option"
  c_archive_retention :: "nat option"
  c_dispute_ledgers :: "nat option"
  c_pending_expiry :: "nat option"
  c_template :: "round_template option"
  c_scheduled :: "config_kind \<rightharpoonup> pending_config_change"

record rotation_proposal =
  ro_new_oracle :: address
  ro_proposed_at :: nat
  ro_expires_at :: nat

record oracle_store =
  o_stale_threshold :: "nat option"
  o_max_deviation_bps :: "nat option"
  o_deviation_override :: "bool option"
  o_timestamp_skew :: "nat option"
  o_min_confidence_bps :: "nat option"
  o_strict_mode :: "bool option"
  o_quorum :: "quorum_config option"
  o_deviation :: "deviation_config option"
  o_attestation :: "bytes option option"
  o_hb_gate :: "hb_gate_config option"
  o_heartbeat :: "heartbeat option"
  o_twap :: "price_sample list option"
  o_nonces :: "(nat \<times> nat) \<rightharpoonup> bool"
  o_rotation :: "rotation_proposal option"

text \<open>The slot \<open>ProtocolFeeTreasury\<close> is read as an \<open>i128\<close> everywhere, but one governance
  action writes an address into it.\<close>

datatype treasury_slot = TAmount int | TAddress address

record money =
  k_balance :: "address \<rightharpoonup> int"
  k_pending :: "address \<rightharpoonup> int"
  k_pending_at :: "address \<rightharpoonup> nat"
  k_treasury :: "treasury_slot option"
  k_fund :: "int option"

record insurance =
  i_split_bps :: "nat option"
  i_coverage_bps :: "nat option"
  i_events :: "nat list option"

text \<open>Rounds and the positions in them.  Positions are keyed by round and user.\<close>

record book =
  b_active :: "round option"
  b_last_id :: "nat option"
  b_start_ledgers :: "nat \<rightharpoonup> nat"
  b_positions :: "(nat \<times> address) \<rightharpoonup> user_position"
  b_predictions :: "(nat \<times> address) \<rightharpoonup> precision_prediction"
  b_commitments :: "(nat \<times> address) \<rightharpoonup> precision_commitment"
  b_participants :: "nat \<rightharpoonup> address list"
  b_disputes :: "nat \<rightharpoonup> pending_dispute"

record history =
  h_outcomes :: "(nat \<times> address) \<rightharpoonup> user_round_outcome"
  h_archived :: "nat \<rightharpoonup> archived_round"
  h_recent :: "nat list option"
  h_cancelled :: "nat \<rightharpoonup> bool"
  h_user_rounds :: "address \<rightharpoonup> nat list"

record season_entry =
  se_user :: address
  se_wins :: nat
  se_best_streak :: nat

record season_archive =
  sa_season_id :: nat
  sa_ended_at_ledger :: nat
  sa_wins :: "season_entry list"
  sa_streak :: "season_entry list"
  sa_participant_count :: nat

record board =
  l_stats :: "address \<rightharpoonup> user_stats"
  l_wins :: "address list option"
  l_streak :: "address list option"
  l_season_id :: "nat option"
  l_season_stats :: "(nat \<times> address) \<rightharpoonup> user_stats"
  l_season_wins :: "address list option"
  l_season_streak :: "address list option"
  l_season_archive :: "nat \<rightharpoonup> season_archive"

record access =
  a_enabled :: "bool option"
  a_allowed :: "address \<rightharpoonup> bool"
  a_denied :: "address \<rightharpoonup> bool"

record mint =
  m_counter :: "nat \<rightharpoonup> nat"
  m_consumed :: "int option"
  m_epoch :: "nat option"

text \<open>Governance proposals and amendments.  An amendment's value is an opaque host value,
  its parameter a symbol.\<close>

datatype gov_action =
    PauseProtocol
  | UnpauseProtocol
  | SetProtocolFeeBps "nat option"
  | WithdrawProtocolFee address int
  | SetTreasuryAddress address
  | SetAdmin address
  | SetOracle address
  | WithdrawInsuranceFund address int
  | SetInsuranceSplitBps nat
  | SetInsuranceCoverageBps nat

datatype proposal_status = PsPending | PsApproved | PsExecuted | PsCancelled | PsExpired

record gov_proposal =
  gp_id :: nat
  gp_proposer :: address
  gp_approver :: "address option"
  gp_action :: gov_action
  gp_created_at :: nat
  gp_expires_at :: nat
  gp_status :: proposal_status

datatype amendment_status = AmPending | AmVetoed | AmActivationReady | AmActivated | AmExpired

record amendment =
  am_id :: nat
  am_proposer :: address
  am_parameter :: string
  am_value :: nat
  am_created_at :: nat
  am_veto_deadline :: nat
  am_activation_deadline :: nat
  am_status :: amendment_status

record constitution =
  cn_veto_window :: nat
  cn_timelock :: nat
  cn_dual_approval :: bool
  cn_established_at :: nat

record gov =
  g_approver :: "address option"
  g_ttl :: "nat option"
  g_next_id :: "nat option"
  g_proposals :: "nat \<rightharpoonup> gov_proposal"
  g_constitution :: "constitution option"
  g_next_amendment :: "nat option"
  g_amendments :: "nat \<rightharpoonup> amendment"

text \<open>An event is its two topics and its data.\<close>

datatype ev_value = VNat nat | VInt int | VAddr address | VBool bool | VBytes bytes | VNone

record event =
  ev_topic :: "string \<times> string"
  ev_data :: "ev_value list"

record store =
  s_admin :: "address option"
  s_oracle :: "address option"
  s_mode :: "runtime_mode option"
  s_schema :: "nat option"
  s_migrated_v3 :: "bool option"
  s_next_schema :: "nat option"
  s_config :: config
  s_orc :: oracle_store
  s_money :: money
  s_ins :: insurance
  s_book :: book
  s_history :: history
  s_board :: board
  s_access :: access
  s_mint :: mint
  s_gov :: gov
  s_events :: "event list"

definition emit :: "string \<times> string \<Rightarrow> ev_value list \<Rightarrow> store \<Rightarrow> store" where
  "emit topic data s = s\<lparr>s_events := s_events s @ [\<lparr>ev_topic = topic, ev_data = data\<rparr>]\<rparr>"

lemma emit_fields [simp]:
  "s_admin (emit t d s) = s_admin s" "s_oracle (emit t d s) = s_oracle s"
  "s_mode (emit t d s) = s_mode s" "s_schema (emit t d s) = s_schema s"
  "s_migrated_v3 (emit t d s) = s_migrated_v3 s" "s_next_schema (emit t d s) = s_next_schema s"
  "s_config (emit t d s) = s_config s" "s_orc (emit t d s) = s_orc s"
  "s_money (emit t d s) = s_money s" "s_ins (emit t d s) = s_ins s"
  "s_book (emit t d s) = s_book s" "s_history (emit t d s) = s_history s"
  "s_board (emit t d s) = s_board s" "s_access (emit t d s) = s_access s"
  "s_mint (emit t d s) = s_mint s" "s_gov (emit t d s) = s_gov s"
  by (simp_all add: emit_def)

text \<open>The storage of a contract that has just been deployed, and an environment for examples:
  its encodings are injective on small values and its hash is the identity.\<close>

definition empty_store :: store where
  "empty_store =
     \<lparr>s_admin = None, s_oracle = None, s_mode = None, s_schema = None, s_migrated_v3 = None,
      s_next_schema = None,
      s_config = \<lparr>c_bet_window = None, c_run_window = None, c_close_buffer = None, c_max_stake = None,
                  c_min_bet = None, c_max_exposure = None, c_max_pending = None, c_min_participants = None,
                  c_max_precision_participants = None, c_payout_policy = None, c_fee_bps = None,
                  c_fee_model = None, c_early_cashout_bps = None, c_mint_limit = None,
                  c_epoch_budget = None, c_archive_retention = None, c_dispute_ledgers = None,
                  c_pending_expiry = None, c_template = None, c_scheduled = Map.empty\<rparr>,
      s_orc = \<lparr>o_stale_threshold = None, o_max_deviation_bps = None, o_deviation_override = None,
               o_timestamp_skew = None, o_min_confidence_bps = None, o_strict_mode = None,
               o_quorum = None, o_deviation = None, o_attestation = None, o_hb_gate = None,
               o_heartbeat = None, o_twap = None, o_nonces = Map.empty, o_rotation = None\<rparr>,
      s_money = \<lparr>k_balance = Map.empty, k_pending = Map.empty, k_pending_at = Map.empty,
                 k_treasury = None, k_fund = None\<rparr>,
      s_ins = \<lparr>i_split_bps = None, i_coverage_bps = None, i_events = None\<rparr>,
      s_book = \<lparr>b_active = None, b_last_id = None, b_start_ledgers = Map.empty,
                b_positions = Map.empty, b_predictions = Map.empty, b_commitments = Map.empty,
                b_participants = Map.empty, b_disputes = Map.empty\<rparr>,
      s_history = \<lparr>h_outcomes = Map.empty, h_archived = Map.empty, h_recent = None,
                   h_cancelled = Map.empty, h_user_rounds = Map.empty\<rparr>,
      s_board = \<lparr>l_stats = Map.empty, l_wins = None, l_streak = None, l_season_id = None,
                 l_season_stats = Map.empty, l_season_wins = None, l_season_streak = None,
                 l_season_archive = Map.empty\<rparr>,
      s_access = \<lparr>a_enabled = None, a_allowed = Map.empty, a_denied = Map.empty\<rparr>,
      s_mint = \<lparr>m_counter = Map.empty, m_consumed = None, m_epoch = None\<rparr>,
      s_gov = \<lparr>g_approver = None, g_ttl = None, g_next_id = None, g_proposals = Map.empty,
               g_constitution = None, g_next_amendment = None, g_amendments = Map.empty\<rparr>,
      s_events = []\<rparr>"

definition sample_env :: "nat \<Rightarrow> nat \<Rightarrow> address list \<Rightarrow> env" where
  "sample_env ledger time signers =
     \<lparr>e_ledger = ledger, e_time = time, e_network = [1], e_contract = 99,
      e_auth = (\<lambda>a. a \<in> set signers),
      e_xdr_u32 = (\<lambda>n. [of_nat n]),
      e_xdr_u64 = (\<lambda>n. [of_nat n]), e_xdr_u128 = (\<lambda>n. [of_nat n]),
      e_xdr_address = (\<lambda>a. [of_nat a]), e_xdr_bytes = (\<lambda>b. b),
      e_sha256 = (\<lambda>b. b), e_ed25519 = (\<lambda>key message signature. signature = message)\<rparr>"

section \<open>Helpers of \<open>common.rs\<close> and \<open>storage.rs\<close>\<close>

definition EPOCH_OF :: "env \<Rightarrow> nat" where
  "EPOCH_OF e = e_ledger e div EPOCH_LEDGERS"

definition balance :: "store \<Rightarrow> address \<Rightarrow> int" where
  "balance s u = get_or (k_balance (s_money s)) 0 u"

definition set_balance :: "address \<Rightarrow> int \<Rightarrow> store \<Rightarrow> store" where
  "set_balance u v s = s\<lparr>s_money := (s_money s)\<lparr>k_balance := (k_balance (s_money s))(u \<mapsto> v)\<rparr>\<rparr>"

definition pending_of :: "store \<Rightarrow> address \<Rightarrow> int" where
  "pending_of s u = get_or (k_pending (s_money s)) 0 u"

definition accumulate_pending :: "env \<Rightarrow> address \<Rightarrow> int \<Rightarrow> store \<Rightarrow> store res" where
  "accumulate_pending e user amount s =
     and_then (payout_add (pending_of s user) amount) (\<lambda>new_pending.
     and_then (case c_max_pending (s_config s) of
                 None \<Rightarrow> Inr ()
               | Some cap \<Rightarrow> if new_pending > cap then Inl (Fail PendingWinningsCapExceeded) else Inr ()) (\<lambda>_.
     Inr (s\<lparr>s_money := (s_money s)\<lparr>
              k_pending := (k_pending (s_money s))(user \<mapsto> new_pending),
              k_pending_at := (k_pending_at (s_money s))(user \<mapsto> e_ledger e)\<rparr>\<rparr>)))"

definition enforce_min_bet :: "store \<Rightarrow> int \<Rightarrow> unit res" where
  "enforce_min_bet s amount =
     (case c_min_bet (s_config s) of
        None \<Rightarrow> Inr ()
      | Some min_bet \<Rightarrow> if amount < min_bet then Inl (Fail BelowMinBet) else Inr ())"

definition assert_no_active_round :: "store \<Rightarrow> unit res" where
  "assert_no_active_round s = ensure (b_active (s_book s) = None) RoundAlreadyActive"

definition sort_addresses :: "address list \<Rightarrow> address list" where
  "sort_addresses addresses = (if length addresses \<le> 1 then addresses else sort addresses)"

definition participants_of :: "store \<Rightarrow> nat \<Rightarrow> address list" where
  "participants_of s rid = get_or (b_participants (s_book s)) [] rid"

definition clear_user_positions :: "nat \<Rightarrow> address \<Rightarrow> store \<Rightarrow> store" where
  "clear_user_positions rid user s =
     s\<lparr>s_book := (s_book s)\<lparr>
         b_positions := (b_positions (s_book s))((rid, user) := None),
         b_predictions := (b_predictions (s_book s))((rid, user) := None),
         b_commitments := (b_commitments (s_book s))((rid, user) := None)\<rparr>\<rparr>"

definition remove_participants :: "nat \<Rightarrow> store \<Rightarrow> store" where
  "remove_participants rid s =
     s\<lparr>s_book := (s_book s)\<lparr>b_participants := (b_participants (s_book s))(rid := None)\<rparr>\<rparr>"

definition remove_active_round :: "store \<Rightarrow> store" where
  "remove_active_round s = s\<lparr>s_book := (s_book s)\<lparr>b_active := None\<rparr>\<rparr>"

definition clear_round_storage :: "nat \<Rightarrow> address list \<Rightarrow> store \<Rightarrow> store" where
  "clear_round_storage rid participants s =
     remove_active_round (remove_participants rid (fold (clear_user_positions rid) participants s))"

text \<open>\<open>_persist_user_outcome\<close> of \<open>settlement.rs\<close>: the first record of a user in a round stays.\<close>

definition outcome_code :: "outcome_type \<Rightarrow> nat" where
  "outcome_code t = (case t of Win \<Rightarrow> 0 | Loss \<Rightarrow> 1 | Refund \<Rightarrow> 2 | Cancel \<Rightarrow> 3 | Void \<Rightarrow> 4)"

definition persist_user_outcome ::
  "nat \<Rightarrow> nat \<Rightarrow> address \<Rightarrow> nat \<Rightarrow> nat \<Rightarrow> int \<Rightarrow> int \<Rightarrow> outcome_type \<Rightarrow> store \<Rightarrow> store" where
  "persist_user_outcome rid mode user side price stake payout outcome s =
     (if h_outcomes (s_history s) (rid, user) \<noteq> None then s
      else
        emit (''payout'', ''outcome'') [VNat rid, VNat mode, VAddr user, VInt payout, VNat (outcome_code outcome)]
          (s\<lparr>s_history := (s_history s)\<lparr>h_outcomes := (h_outcomes (s_history s))((rid, user) \<mapsto>
               \<lparr>uo_user = user, uo_round_mode = mode, uo_prediction_side = side, uo_predicted_price = price,
                uo_stake = stake, uo_payout = payout, uo_outcome = outcome\<rparr>)\<rparr>\<rparr>))"

section \<open>What the contract holds\<close>

text \<open>Everything the contract owes: balances, pending winnings, the fee treasury, the
  insurance fund, and the stakes of the positions in the book.  A precision participant's
  stake is read from the prediction, or from the commitment when nothing is revealed, as
  every settlement path of the code does.\<close>

definition treasury_value :: "treasury_slot option \<Rightarrow> int" where
  "treasury_value t = (case t of Some (TAmount v) \<Rightarrow> v | _ \<Rightarrow> 0)"

definition held :: "store \<Rightarrow> int" where
  "held s = total_of (k_balance (s_money s)) + total_of (k_pending (s_money s))
            + treasury_value (k_treasury (s_money s)) + unwrap_or (k_fund (s_money s)) 0"

definition precision_stake :: "book \<Rightarrow> nat \<times> address \<Rightarrow> int option" where
  "precision_stake b k = (case b_predictions b k of
                            Some p \<Rightarrow> Some (pp_amount p)
                          | None \<Rightarrow> map_option pc_amount (b_commitments b k))"

definition position_stake :: "book \<Rightarrow> nat \<times> address \<Rightarrow> int option" where
  "position_stake b k = map_option pos_amount (b_positions b k)"

definition at_stake :: "store \<Rightarrow> int" where
  "at_stake s = total_of (position_stake (s_book s)) + total_of (precision_stake (s_book s))"

definition wealth :: "store \<Rightarrow> int" where
  "wealth s = held s + at_stake s"

definition money_ok :: "money \<Rightarrow> bool" where
  "money_ok m \<longleftrightarrow> finite (dom (k_balance m)) \<and> finite (dom (k_pending m)) \<and>
     (\<forall>u. 0 \<le> get_or (k_balance m) 0 u) \<and> (\<forall>u. 0 \<le> get_or (k_pending m) 0 u) \<and>
     0 \<le> treasury_value (k_treasury m) \<and> 0 \<le> unwrap_or (k_fund m) 0"

definition book_finite :: "book \<Rightarrow> bool" where
  "book_finite b \<longleftrightarrow> finite (dom (b_positions b)) \<and> finite (dom (b_predictions b)) \<and>
     finite (dom (b_commitments b))"

section \<open>Effects of the helpers\<close>

named_theorems frame_simps \<open>fields an operation leaves alone\<close>

lemma set_balance_fields [simp]:
  "s_admin (set_balance u v s) = s_admin s" "s_oracle (set_balance u v s) = s_oracle s"
  "s_mode (set_balance u v s) = s_mode s" "s_schema (set_balance u v s) = s_schema s"
  "s_config (set_balance u v s) = s_config s" "s_orc (set_balance u v s) = s_orc s"
  "s_ins (set_balance u v s) = s_ins s" "s_book (set_balance u v s) = s_book s"
  "s_history (set_balance u v s) = s_history s" "s_board (set_balance u v s) = s_board s"
  "s_access (set_balance u v s) = s_access s" "s_mint (set_balance u v s) = s_mint s"
  "s_gov (set_balance u v s) = s_gov s" "s_events (set_balance u v s) = s_events s"
  "k_balance (s_money (set_balance u v s)) = (k_balance (s_money s))(u \<mapsto> v)"
  "k_pending (s_money (set_balance u v s)) = k_pending (s_money s)"
  "k_pending_at (s_money (set_balance u v s)) = k_pending_at (s_money s)"
  "k_treasury (s_money (set_balance u v s)) = k_treasury (s_money s)"
  "k_fund (s_money (set_balance u v s)) = k_fund (s_money s)"
  by (simp_all add: set_balance_def)

lemma balance_set_balance [simp]: "balance (set_balance u v s) u' = (if u' = u then v else balance s u')"
  by (simp add: balance_def)

lemma persist_outcome_fields [simp]:
  "s_admin (persist_user_outcome r m u d p x y t s) = s_admin s"
  "s_oracle (persist_user_outcome r m u d p x y t s) = s_oracle s"
  "s_mode (persist_user_outcome r m u d p x y t s) = s_mode s"
  "s_schema (persist_user_outcome r m u d p x y t s) = s_schema s"
  "s_config (persist_user_outcome r m u d p x y t s) = s_config s"
  "s_orc (persist_user_outcome r m u d p x y t s) = s_orc s"
  "s_money (persist_user_outcome r m u d p x y t s) = s_money s"
  "s_ins (persist_user_outcome r m u d p x y t s) = s_ins s"
  "s_book (persist_user_outcome r m u d p x y t s) = s_book s"
  "s_board (persist_user_outcome r m u d p x y t s) = s_board s"
  "s_access (persist_user_outcome r m u d p x y t s) = s_access s"
  "s_mint (persist_user_outcome r m u d p x y t s) = s_mint s"
  "s_gov (persist_user_outcome r m u d p x y t s) = s_gov s"
  by (simp_all add: persist_user_outcome_def)

lemma accumulate_pending_Inr:
  "accumulate_pending e u x s = Inr s' \<longleftrightarrow>
     in_i128 (pending_of s u + x) \<and> pred_option (\<lambda>cap. pending_of s u + x \<le> cap) (c_max_pending (s_config s)) \<and>
     s' = s\<lparr>s_money := (s_money s)\<lparr>
              k_pending := (k_pending (s_money s))(u \<mapsto> pending_of s u + x),
              k_pending_at := (k_pending_at (s_money s))(u \<mapsto> e_ledger e)\<rparr>\<rparr>"
  by (cases "c_max_pending (s_config s)") (auto simp: accumulate_pending_def res_simps)

definition clear_keys :: "nat \<Rightarrow> address list \<Rightarrow> (nat \<times> address \<rightharpoonup> 'v) \<Rightarrow> (nat \<times> address \<rightharpoonup> 'v)" where
  "clear_keys rid us m = (\<lambda>k. if fst k = rid \<and> snd k \<in> set us then None else m k)"

lemma clear_keys_simps [simp]:
  "clear_keys rid [] m = m"
  "clear_keys rid (u # us) m = clear_keys rid us (m((rid, u) := None))"
  by (auto simp: clear_keys_def fun_eq_iff)

lemma fold_clear_positions:
  "fold (clear_user_positions rid) us s =
     s\<lparr>s_book := (s_book s)\<lparr>
         b_positions := clear_keys rid us (b_positions (s_book s)),
         b_predictions := clear_keys rid us (b_predictions (s_book s)),
         b_commitments := clear_keys rid us (b_commitments (s_book s))\<rparr>\<rparr>"
proof (induction us arbitrary: s)
  case (Cons u us)
  have "fold (clear_user_positions rid) (u # us) s
      = fold (clear_user_positions rid) us (clear_user_positions rid u s)" by simp
  also note Cons.IH
  also have "(clear_user_positions rid u s)\<lparr>s_book := (s_book (clear_user_positions rid u s))\<lparr>
         b_positions := clear_keys rid us (b_positions (s_book (clear_user_positions rid u s))),
         b_predictions := clear_keys rid us (b_predictions (s_book (clear_user_positions rid u s))),
         b_commitments := clear_keys rid us (b_commitments (s_book (clear_user_positions rid u s)))\<rparr>\<rparr>
      = s\<lparr>s_book := (s_book s)\<lparr>
         b_positions := clear_keys rid (u # us) (b_positions (s_book s)),
         b_predictions := clear_keys rid (u # us) (b_predictions (s_book s)),
         b_commitments := clear_keys rid (u # us) (b_commitments (s_book s))\<rparr>\<rparr>"
    by (simp add: clear_user_positions_def)
  finally show ?case .
qed simp

definition user_stake :: "book \<Rightarrow> nat \<Rightarrow> address \<Rightarrow> int" where
  "user_stake b rid u = get_or (position_stake b) 0 (rid, u) + get_or (precision_stake b) 0 (rid, u)"

lemma total_of_clear:
  assumes "finite (dom m)" "distinct us"
  shows "total_of (clear_keys rid us m) = total_of m - sum_list (map (\<lambda>u. get_or m 0 (rid, u)) us)"
  using assms
proof (induction us arbitrary: m)
  case (Cons u us)
  let ?m = "m((rid, u) := None)"
  have "sum_list (map (\<lambda>u. get_or ?m 0 (rid, u)) us) = sum_list (map (\<lambda>u. get_or m 0 (rid, u)) us)"
    using Cons.prems(2) by (intro arg_cong[where f = sum_list] map_cong) auto
  moreover have "total_of ?m = total_of m - get_or m 0 (rid, u)"
    by (rule total_of_del[OF Cons.prems(1)])
  ultimately show ?case using Cons.IH[of ?m] Cons.prems by (simp del: fun_upd_apply get_or_del)
qed simp

lemma stakes_finite:
  assumes "book_finite b"
  shows "finite (dom (position_stake b))" "finite (dom (precision_stake b))"
proof -
  have "dom (position_stake b) = dom (b_positions b)" by (auto simp: position_stake_def dom_def)
  moreover have "dom (precision_stake b) \<subseteq> dom (b_predictions b) \<union> dom (b_commitments b)"
    by (auto simp: precision_stake_def dom_def split: option.splits)
  ultimately show "finite (dom (position_stake b))" "finite (dom (precision_stake b))"
    using assms by (auto simp: book_finite_def intro: finite_subset)
qed

text \<open>Clearing the positions of a round's participants takes exactly their stakes out.\<close>

lemma at_stake_clear:
  assumes "book_finite (s_book s)" "distinct us"
  shows "at_stake (fold (clear_user_positions rid) us s) =
           at_stake s - sum_list (map (user_stake (s_book s) rid) us)"
proof -
  let ?b = "s_book (fold (clear_user_positions rid) us s)" and ?a = "s_book s"
  have "position_stake ?b = clear_keys rid us (position_stake ?a)"
    "precision_stake ?b = clear_keys rid us (precision_stake ?a)"
    by (auto simp: fold_clear_positions clear_keys_def position_stake_def precision_stake_def fun_eq_iff
        cong: option.case_cong)
  then show ?thesis
    using total_of_clear[OF stakes_finite(1)[OF assms(1)] assms(2), of rid]
      total_of_clear[OF stakes_finite(2)[OF assms(1)] assms(2), of rid]
    by (simp add: at_stake_def user_stake_def[abs_def] sum_list_addf)
qed

lemma at_stake_cong: "s_book s' = s_book s \<Longrightarrow> at_stake s' = at_stake s"
  by (simp add: at_stake_def)

lemma held_cong: "s_money s' = s_money s \<Longrightarrow> held s' = held s"
  by (simp add: held_def)

lemma at_stake_other [simp]:
  "at_stake (emit t d s) = at_stake s"
  "at_stake (set_balance u v s) = at_stake s"
  "at_stake (remove_participants rid s) = at_stake s"
  "at_stake (remove_active_round s) = at_stake s"
  "at_stake (persist_user_outcome r m u' d' p x y o' s) = at_stake s"
  by (simp_all add: at_stake_def position_stake_def[abs_def] precision_stake_def[abs_def]
      remove_participants_def remove_active_round_def cong: option.case_cong)

lemma held_other [simp]:
  "held (emit t d s) = held s"
  "held (remove_participants rid s) = held s"
  "held (remove_active_round s) = held s"
  "held (clear_user_positions rid u' s) = held s"
  "held (persist_user_outcome r m u d' p x y o' s) = held s"
  by (simp_all add: held_def remove_participants_def remove_active_round_def clear_user_positions_def)

lemma held_fold_clear [simp]: "held (fold (clear_user_positions rid) us s) = held s"
  by (simp add: fold_clear_positions held_def)

lemma held_set_balance:
  "money_ok (s_money s) \<Longrightarrow> held (set_balance u v s) = held s - balance s u + v"
  by (simp add: held_def balance_def money_ok_def total_of_upd)

lemma pending_nonneg: "money_ok (s_money s) \<Longrightarrow> 0 \<le> pending_of s u"
  by (simp add: money_ok_def pending_of_def)

lemma balance_nonneg: "money_ok (s_money s) \<Longrightarrow> 0 \<le> balance s u"
  by (simp add: money_ok_def balance_def)

lemma money_ok_set_balance:
  "money_ok (s_money s) \<Longrightarrow> 0 \<le> v \<Longrightarrow> money_ok (s_money (set_balance u v s))"
  by (simp add: money_ok_def)

section \<open>Loops that pay\<close>

text \<open>A settlement, refund or coverage loop visits the participants; each step may credit
  its participant, may write outcomes, statistics and events, and leaves the book alone.
  The contract of such a step, and what a whole loop of them does.\<close>

locale paying_step =
  fixes step :: "'a \<Rightarrow> store \<Rightarrow> store res"
    and pays :: "book \<Rightarrow> 'a \<Rightarrow> int"
  assumes pays_exactly:
    "\<lbrakk>step x s = Inr s'; money_ok (s_money s); 0 \<le> pays (s_book s) x\<rbrakk>
     \<Longrightarrow> held s' = held s + pays (s_book s) x \<and> money_ok (s_money s')"
  and keeps_book: "step x s = Inr s' \<Longrightarrow> s_book s' = s_book s"
begin

lemma loop_keeps_book: "fold_res step xs s = Inr s' \<Longrightarrow> s_book s' = s_book s"
  by (rule fold_res_rel[where R = "\<lambda>s s'. s_book s' = s_book s"]) (auto dest: keeps_book)

lemma loop_pays:
  assumes "fold_res step xs s = Inr s'" "money_ok (s_money s)" "\<forall>x\<in>set xs. 0 \<le> pays (s_book s) x"
  shows "held s' = held s + sum_list (map (pays (s_book s)) xs) \<and> money_ok (s_money s')"
  using assms
proof (induction xs arbitrary: s)
  case Nil
  then show ?case by simp
next
  case (Cons x xs)
  from Cons.prems(1) obtain t where t: "step x s = Inr t" "fold_res step xs t = Inr s'"
    by (auto simp: res_simps)
  have b: "s_book t = s_book s" by (rule keeps_book[OF t(1)])
  have h: "held t = held s + pays (s_book s) x \<and> money_ok (s_money t)"
    by (rule pays_exactly[OF t(1) Cons.prems(2)]) (use Cons.prems(3) in simp)
  then show ?case using Cons.IH[OF t(2)] Cons.prems(3) b by simp
qed

end

lemma accumulate_pending_pays:
  assumes "accumulate_pending e u x s = Inr s'" "money_ok (s_money s)" "0 \<le> x"
  shows "held s' = held s + x" "money_ok (s_money s')" "s_book s' = s_book s"
    "pending_of s' u = pending_of s u + x" "u' \<noteq> u \<Longrightarrow> pending_of s' u' = pending_of s u'"
    "k_balance (s_money s') = k_balance (s_money s)"
proof -
  have nn: "0 \<le> pending_of s u" by (rule pending_nonneg[OF assms(2)])
  show "held s' = held s + x"
    using assms by (auto simp: accumulate_pending_Inr held_def money_ok_def total_of_upd pending_of_def)
  show "money_ok (s_money s')"
    using assms nn by (auto simp: accumulate_pending_Inr money_ok_def)
  show "s_book s' = s_book s" "pending_of s' u = pending_of s u + x"
    "u' \<noteq> u \<Longrightarrow> pending_of s' u' = pending_of s u'" "k_balance (s_money s') = k_balance (s_money s)"
    using assms(1) by (auto simp: accumulate_pending_Inr pending_of_def)
qed

interpretation credits: paying_step "\<lambda>(u, x). accumulate_pending e u x" "\<lambda>b (u, x). x" for e
  by unfold_locales (auto dest: accumulate_pending_pays simp: accumulate_pending_Inr)

end
