(* ===== verification/Administration.thy ===== *)
theory Administration
  imports Store
begin

text \<open>
  \<open>contracts/src/admin.rs\<close> and the oracle rotation of \<open>contract.rs\<close>: initialisation,
  schema versions and migrations, the runtime mode and the policy gate every mutating
  entry point passes, the oracle's configuration and heartbeat, and the reclaim of expired
  pending winnings.  The lemmas give the mode matrix of the policy gate, show who can
  change what, and that a reclaim moves value without creating any.
\<close>

section \<open>Schema, mode, policy gate\<close>

definition schema_version :: "store \<Rightarrow> nat" where
  "schema_version s = unwrap_or (s_schema s) 1"

definition require_supported_schema :: "store \<Rightarrow> nat res" where
  "require_supported_schema s =
     (let v = schema_version s in
      if v = 0 \<or> v > CURRENT_SCHEMA_VERSION then Inl (Fail UnsupportedSchemaVersion) else Inr v)"

definition current_mode :: "store \<Rightarrow> runtime_mode" where
  "current_mode s = unwrap_or (s_mode s) Normal"

definition policy_gate :: "store \<Rightarrow> policy_action \<Rightarrow> unit res" where
  "policy_gate s action =
     (let mode = current_mode s;
          blocked = (case action of
                       RoundMutation \<Rightarrow> mode \<noteq> Normal
                     | Claim \<Rightarrow> mode = FullyPaused
                     | AdminConfig \<Rightarrow> mode = FullyPaused
                     | Settlement \<Rightarrow> mode = FullyPaused)
      in if blocked then Inl (Fail ContractPaused) else Inr ())"

definition ensure_not_paused :: "store \<Rightarrow> unit res" where
  "ensure_not_paused s = policy_gate s AdminConfig"

definition ensure_normal_mode :: "store \<Rightarrow> unit res" where
  "ensure_normal_mode s = policy_gate s RoundMutation"

fun runtime_mode_code :: "runtime_mode \<Rightarrow> nat" where
  "runtime_mode_code Normal = 0"
| "runtime_mode_code ClaimsOnly = 1"
| "runtime_mode_code FullyPaused = 2"

definition set_mode :: "runtime_mode \<Rightarrow> store \<Rightarrow> store" where
  "set_mode new_mode s =
     (let old_mode = current_mode s in
      if old_mode \<noteq> new_mode
      then emit (''mode'', ''transition'')
             [VNat (runtime_mode_code old_mode), VNat (runtime_mode_code new_mode)] (s\<lparr>s_mode := Some new_mode\<rparr>)
      else s)"

text \<open>The opening every admin entry point has: the stored admin, and its signature.  Most of
  them first check the schema and then the runtime mode.\<close>

definition admin_auth :: "env \<Rightarrow> store \<Rightarrow> address res" where
  "admin_auth e s =
     and_then (ok_or (s_admin s) AdminNotSet) (\<lambda>admin.
     and_then (require_auth e admin) (\<lambda>_. Inr admin))"

definition admin_unpaused :: "env \<Rightarrow> store \<Rightarrow> address res" where
  "admin_unpaused e s =
     and_then (admin_auth e s) (\<lambda>admin. and_then (ensure_not_paused s) (\<lambda>_. Inr admin))"

definition admin_gate :: "env \<Rightarrow> store \<Rightarrow> address res" where
  "admin_gate e s = and_then (require_supported_schema s) (\<lambda>_. admin_unpaused e s)"

definition is_gov_approver_set :: "store \<Rightarrow> bool" where
  "is_gov_approver_set s \<longleftrightarrow> g_approver (s_gov s) \<noteq> None"

section \<open>Initialisation and schema\<close>

definition initialize :: "env \<Rightarrow> address \<Rightarrow> address \<Rightarrow> store \<Rightarrow> store res" where
  "initialize e admin oracle s =
     and_then (require_auth e admin) (\<lambda>_.
     if admin = oracle then Inl (Fail OracleNetworkMismatch)
     else if s_admin s \<noteq> None then Inl (Fail AlreadyInitialized)
     else Inr (s\<lparr>s_admin := Some admin, s_oracle := Some oracle, s_mode := Some Normal,
                 s_schema := Some CURRENT_SCHEMA_VERSION,
                 s_config := (s_config s)\<lparr>c_bet_window := Some DEFAULT_BET_WINDOW_LEDGERS,
                                          c_run_window := Some DEFAULT_RUN_WINDOW_LEDGERS\<rparr>\<rparr>))"

definition migrate_schema_v1_to_v2 :: "env \<Rightarrow> bool \<Rightarrow> store \<Rightarrow> store res" where
  "migrate_schema_v1_to_v2 e dry_run s =
     and_then (admin_unpaused e s) (\<lambda>_.
     if b_active (s_book s) \<noteq> None then Inl (Fail MigrationActiveRound)
     else let from = schema_version s in
       if from \<noteq> 1 then Inl (Fail UnsupportedSchemaVersion)
       else if dry_run then Inr s
       else Inr (emit (''schema'', ''migrated'') [VNat from, VNat 2] (s\<lparr>s_schema := Some 2\<rparr>)))"

definition migrate_schema_v2_to_v3 :: "env \<Rightarrow> bool \<Rightarrow> store \<Rightarrow> store res" where
  "migrate_schema_v2_to_v3 e dry_run s =
     and_then (admin_unpaused e s) (\<lambda>_.
     if b_active (s_book s) \<noteq> None then Inl (Fail MigrationActiveRound)
     else let from = schema_version s in
       if from \<noteq> 2 then Inl (Fail UnsupportedSchemaVersion)
       else if dry_run then Inr s
       else Inr (emit (''schema'', ''migrated'') [VNat from, VNat 3]
              (s\<lparr>s_schema := Some 3, s_migrated_v3 := Some True\<rparr>)))"

definition announce_next_schema :: "env \<Rightarrow> nat \<Rightarrow> store \<Rightarrow> store res" where
  "announce_next_schema e target_version s =
     and_then (require_supported_schema s) (\<lambda>_.
     and_then (admin_auth e s) (\<lambda>_.
     if target_version = 0 \<or> target_version \<le> CURRENT_SCHEMA_VERSION
     then Inl (Fail UnsupportedSchemaVersion)
     else Inr (emit (''schema'', ''next_ann'') [VNat CURRENT_SCHEMA_VERSION, VNat target_version]
            (s\<lparr>s_next_schema := Some target_version\<rparr>))))"

definition clear_next_schema :: "env \<Rightarrow> store \<Rightarrow> store res" where
  "clear_next_schema e s =
     and_then (require_supported_schema s) (\<lambda>_.
     and_then (admin_auth e s) (\<lambda>_.
     case s_next_schema s of
       None \<Rightarrow> Inl (Fail UnsupportedSchemaVersion)
     | Some previous \<Rightarrow> Inr (emit (''schema'', ''next_clr'') [VNat previous] (s\<lparr>s_next_schema := None\<rparr>))))"

section \<open>Runtime mode\<close>

definition is_paused :: "store \<Rightarrow> bool" where
  "is_paused s \<longleftrightarrow> current_mode s = FullyPaused"

definition pause_contract :: "env \<Rightarrow> store \<Rightarrow> store res" where
  "pause_contract e s =
     and_then (require_supported_schema s) (\<lambda>_.
     and_then (admin_auth e s) (\<lambda>_.
     if is_gov_approver_set s then Inl (Fail GovUnauthorized)
     else Inr (set_mode FullyPaused s)))"

definition unpause_contract :: "env \<Rightarrow> store \<Rightarrow> store res" where
  "unpause_contract e s =
     and_then (require_supported_schema s) (\<lambda>_.
     and_then (admin_auth e s) (\<lambda>_.
     if is_gov_approver_set s then Inl (Fail GovUnauthorized)
     else Inr (set_mode Normal s)))"

definition set_runtime_mode :: "env \<Rightarrow> nat \<Rightarrow> store \<Rightarrow> store res" where
  "set_runtime_mode e mode s =
     and_then (require_supported_schema s) (\<lambda>_.
     and_then (admin_auth e s) (\<lambda>_.
     if mode = 0 then Inr (set_mode Normal s)
     else if mode = 1 then Inr (set_mode ClaimsOnly s)
     else if mode = 2 then Inr (set_mode FullyPaused s)
     else Inl (Fail InvalidMode)))"

section \<open>Oracle configuration\<close>

definition arm_oracle_deviation_override :: "env \<Rightarrow> store \<Rightarrow> store res" where
  "arm_oracle_deviation_override e s =
     and_then (admin_unpaused e s) (\<lambda>_.
     Inr (s\<lparr>s_orc := (s_orc s)\<lparr>o_deviation_override := Some True\<rparr>\<rparr>))"

definition load_deviation_config :: "store \<Rightarrow> deviation_config" where
  "load_deviation_config s =
     unwrap_or (o_deviation (s_orc s))
       \<lparr>dv_reference_mode = StartPrice, dv_window_samples = MIN_TWAP_WINDOW_SAMPLES\<rparr>"

fun deviation_mode_code :: "deviation_reference \<Rightarrow> nat" where
  "deviation_mode_code StartPrice = 0"
| "deviation_mode_code Twap = 1"

definition set_deviation_ref_mode :: "env \<Rightarrow> deviation_reference \<Rightarrow> nat \<Rightarrow> store \<Rightarrow> store res" where
  "set_deviation_ref_mode e mode window_samples s =
     and_then (admin_gate e s) (\<lambda>_.
     if mode = Twap \<and> \<not> (MIN_TWAP_WINDOW_SAMPLES \<le> window_samples \<and> window_samples \<le> MAX_TWAP_WINDOW_SAMPLES)
     then Inl (Fail WindowOutOfRange)
     else Inr (emit (''oracle'', ''devref'') [VNat (deviation_mode_code mode), VNat window_samples]
            (s\<lparr>s_orc := (s_orc s)\<lparr>o_deviation :=
                Some \<lparr>dv_reference_mode = mode, dv_window_samples = window_samples\<rparr>\<rparr>\<rparr>)))"

definition load_attestation_key :: "store \<Rightarrow> bytes option" where
  "load_attestation_key s = unwrap_or (o_attestation (s_orc s)) None"

definition set_attestation_key :: "env \<Rightarrow> bytes option \<Rightarrow> store \<Rightarrow> store res" where
  "set_attestation_key e key s =
     and_then (admin_gate e s) (\<lambda>_.
     Inr (emit (''oracle'', ''attkey'') [VBool (key \<noteq> None)]
            (s\<lparr>s_orc := (s_orc s)\<lparr>o_attestation := Some key\<rparr>\<rparr>)))"

definition set_oracle_min_confidence_bps :: "env \<Rightarrow> nat option \<Rightarrow> store \<Rightarrow> store res" where
  "set_oracle_min_confidence_bps e min_bps s =
     and_then (admin_gate e s) (\<lambda>_.
     and_then (case min_bps of
                 None \<Rightarrow> Inr ()
               | Some bps \<Rightarrow> if bps > 10000 then Inl (Fail WindowOutOfRange) else Inr ()) (\<lambda>_.
     Inr (s\<lparr>s_orc := (s_orc s)\<lparr>o_min_confidence_bps := min_bps\<rparr>\<rparr>)))"

definition set_oracle_strict_mode :: "env \<Rightarrow> bool \<Rightarrow> store \<Rightarrow> store res" where
  "set_oracle_strict_mode e enabled s =
     and_then (admin_gate e s) (\<lambda>_.
     Inr (s\<lparr>s_orc := (s_orc s)\<lparr>o_strict_mode := Some enabled\<rparr>\<rparr>))"

definition validate_quorum_config :: "quorum_config \<Rightarrow> unit res" where
  "validate_quorum_config cfg =
     (if q_min_observations cfg < 3 \<or> q_min_observations cfg > MAX_ORACLE_OBSERVATIONS
      then Inl (Fail TooFewObservations)
      else if q_threshold cfg < 3 \<or> q_threshold cfg > q_min_observations cfg
      then Inl (Fail InsufficientOracleQuorum)
      else if q_outlier_bps cfg = 0 \<or> q_outlier_bps cfg > 10000 then Inl (Fail WindowOutOfRange)
      else Inr ())"

definition set_oracle_quorum_config :: "env \<Rightarrow> quorum_config option \<Rightarrow> store \<Rightarrow> store res" where
  "set_oracle_quorum_config e cfg s =
     and_then (admin_gate e s) (\<lambda>_.
     case cfg of
       Some q \<Rightarrow>
         and_then (validate_quorum_config q) (\<lambda>_.
         Inr (emit (''oracle'', ''quorum'')
                [VNat (q_min_observations q), VNat (q_threshold q), VNat (q_outlier_bps q)]
                (s\<lparr>s_orc := (s_orc s)\<lparr>o_quorum := Some q\<rparr>\<rparr>)))
     | None \<Rightarrow>
         Inr (emit (''oracle'', ''quorum'') [VNat 0, VNat 0, VNat 0]
                (s\<lparr>s_orc := (s_orc s)\<lparr>o_quorum := None\<rparr>\<rparr>)))"

section \<open>Heartbeat\<close>

definition load_hb_config :: "store \<Rightarrow> hb_gate_config" where
  "load_hb_config s =
     unwrap_or (o_hb_gate (s_orc s))
       \<lparr>hg_strict_mode = False, hg_override_armed = False, hg_grace_seconds = 0\<rparr>"

definition save_hb_config :: "hb_gate_config \<Rightarrow> store \<Rightarrow> store" where
  "save_hb_config cfg s = s\<lparr>s_orc := (s_orc s)\<lparr>o_hb_gate := Some cfg\<rparr>\<rparr>"

definition set_hb_strict_mode :: "env \<Rightarrow> bool \<Rightarrow> store \<Rightarrow> store res" where
  "set_hb_strict_mode e enabled s =
     and_then (admin_gate e s) (\<lambda>_.
     Inr (save_hb_config ((load_hb_config s)\<lparr>hg_strict_mode := enabled\<rparr>) s))"

definition arm_hb_override :: "env \<Rightarrow> store \<Rightarrow> store res" where
  "arm_hb_override e s =
     and_then (admin_unpaused e s) (\<lambda>_.
     Inr (save_hb_config ((load_hb_config s)\<lparr>hg_override_armed := True\<rparr>) s))"

definition set_hb_grace_seconds :: "env \<Rightarrow> nat \<Rightarrow> store \<Rightarrow> store res" where
  "set_hb_grace_seconds e seconds s =
     and_then (admin_gate e s) (\<lambda>_.
     Inr (save_hb_config ((load_hb_config s)\<lparr>hg_grace_seconds := seconds\<rparr>) s))"

definition consume_hb_override :: "store \<Rightarrow> bool \<times> store" where
  "consume_hb_override s =
     (if hg_override_armed (load_hb_config s)
      then (True, save_hb_config ((load_hb_config s)\<lparr>hg_override_armed := False\<rparr>) s)
      else (False, s))"

definition update_oracle_heartbeat :: "env \<Rightarrow> nat \<Rightarrow> store \<Rightarrow> store res" where
  "update_oracle_heartbeat e status s =
     and_then (require_supported_schema s) (\<lambda>_.
     if status > 2 then Inl (Fail InvalidMode)
     else
       and_then (ok_or (s_oracle s) OracleNotSet) (\<lambda>oracle.
       and_then (require_auth e oracle) (\<lambda>_.
       Inr (emit (''oracle'', ''hbeat'') [VNat (e_time e), VNat status]
              (s\<lparr>s_orc := (s_orc s)\<lparr>o_heartbeat := Some \<lparr>hb_timestamp = e_time e, hb_status = status\<rparr>\<rparr>\<rparr>)))))"

definition stale_threshold :: "store \<Rightarrow> nat" where
  "stale_threshold s = unwrap_or (o_stale_threshold (s_orc s)) DEFAULT_ORACLE_STALE_THRESHOLD"

definition is_oracle_live :: "env \<Rightarrow> store \<Rightarrow> bool" where
  "is_oracle_live e s =
     (case o_heartbeat (s_orc s) of
        None \<Rightarrow> False
      | Some r \<Rightarrow>
          if hb_status r = 2 then False
          else e_time e \<le> usaturating_add u64_max (hb_timestamp r) (stale_threshold s))"

record health =
  ph_paused :: bool
  ph_oracle_live :: bool
  ph_oracle_status :: nat
  ph_has_active_round :: bool
  ph_active_round_phase :: nat
  ph_schema_version :: nat
  ph_status_code :: nat

fun phase_code :: "round_phase \<Rightarrow> nat" where
  "phase_code Betting = 1"
| "phase_code Running = 2"
| "phase_code Resolvable = 3"

definition get_protocol_health :: "env \<Rightarrow> store \<Rightarrow> health" where
  "get_protocol_health e s =
     (let paused = is_paused s;
          (oracle_live, oracle_status) =
            (case o_heartbeat (s_orc s) of
               None \<Rightarrow> (False, 3)
             | Some r \<Rightarrow>
                 if hb_status r = 2 then (False, hb_status r)
                 else (e_time e \<le> usaturating_add u64_max (hb_timestamp r) (stale_threshold s), hb_status r));
          (has_active_round, phase) =
            (case b_active (s_book s) of
               None \<Rightarrow> (False, 0)
             | Some r \<Rightarrow> (True, phase_code (derive_round_phase (e_ledger e) r)));
          issues = (if paused then 1 else 0) + (if \<not> oracle_live then 1 else 0)
                   + (if has_active_round \<and> phase = 3 then 1 else (0 :: nat));
          code = (if paused then 1
                  else if issues > 1 then 5
                  else if current_mode s = ClaimsOnly then 6
                  else if \<not> oracle_live then 2
                  else if has_active_round \<and> phase = 3 then 3
                  else if \<not> has_active_round then 4
                  else 0)
      in \<lparr>ph_paused = paused, ph_oracle_live = oracle_live, ph_oracle_status = oracle_status,
          ph_has_active_round = has_active_round, ph_active_round_phase = phase,
          ph_schema_version = schema_version s, ph_status_code = code\<rparr>)"

section \<open>Reclaiming expired winnings\<close>

definition remove_pending :: "address \<Rightarrow> store \<Rightarrow> store" where
  "remove_pending user s =
     s\<lparr>s_money := (s_money s)\<lparr>k_pending := (k_pending (s_money s))(user := None),
                              k_pending_at := (k_pending_at (s_money s))(user := None)\<rparr>\<rparr>"

definition reclaim_expired_pending_winnings :: "env \<Rightarrow> address \<Rightarrow> store \<Rightarrow> (int \<times> store) res" where
  "reclaim_expired_pending_winnings e user s =
     and_then (admin_gate e s) (\<lambda>admin.
     let expiry_ledgers = unwrap_or (c_pending_expiry (s_config s)) 0 in
     if expiry_ledgers = 0 then Inl (Fail ExpiryNotConfigured)
     else let pending = pending_of s user in
       if pending = 0 then Inl (Fail PendingWinningsNotFound)
       else
         and_then (ok_or (k_pending_at (s_money s) user) PendingWinningsNotFound) (\<lambda>updated_at.
         let age = usaturating_sub (e_ledger e) updated_at in
         if age < expiry_ledgers then Inl (Fail PendingWinningsNotExpired)
         else
           let s1 = remove_pending user s in
           and_then (payout_add (balance s1 admin) pending) (\<lambda>new_admin_bal.
           Inr (pending,
                emit (''claim'', ''expired'') [VAddr user, VInt pending, VAddr admin]
                  (set_balance admin new_admin_bal s1)))))"

section \<open>Oracle rotation\<close>

definition MIN_ROTATION_DELAY_SECONDS :: nat where "MIN_ROTATION_DELAY_SECONDS = 3600"

definition propose_oracle_rotation :: "env \<Rightarrow> address \<Rightarrow> nat \<Rightarrow> store \<Rightarrow> store res" where
  "propose_oracle_rotation e new_oracle expires_in s =
     and_then (admin_gate e s) (\<lambda>_.
     if expires_in < MIN_ROTATION_DELAY_SECONDS then Inl (Fail InvalidDuration)
     else
       and_then (ok_or (uchecked_add u64_max (e_time e) expires_in) Overflow) (\<lambda>expires_at.
       Inr (emit (''oracle'', ''propose'') [VAddr new_oracle, VNat expires_at]
              (s\<lparr>s_orc := (s_orc s)\<lparr>o_rotation :=
                  Some \<lparr>ro_new_oracle = new_oracle, ro_proposed_at = e_time e, ro_expires_at = expires_at\<rparr>\<rparr>\<rparr>))))"

definition accept_oracle_rotation :: "env \<Rightarrow> store \<Rightarrow> store res" where
  "accept_oracle_rotation e s =
     and_then (require_supported_schema s) (\<lambda>_.
     and_then (ensure_not_paused s) (\<lambda>_.
     and_then (ok_or (o_rotation (s_orc s)) NoPendingRotation) (\<lambda>p.
     and_then (ok_or (uchecked_add u64_max (ro_proposed_at p) MIN_ROTATION_DELAY_SECONDS) Overflow) (\<lambda>earliest.
     if e_time e < earliest then Inl (Fail RotationDelayNotElapsed)
     else if e_time e > ro_expires_at p then Inl (Fail NoPendingRotation)
     else
       and_then (ok_or (s_oracle s) OracleNotSet) (\<lambda>previous.
       Inr (emit (''oracle'', ''accept'') [VAddr previous, VAddr (ro_new_oracle p)]
              (s\<lparr>s_oracle := Some (ro_new_oracle p),
                 s_orc := (s_orc s)\<lparr>o_rotation := None\<rparr>\<rparr>)))))))"

definition cancel_oracle_rotation :: "env \<Rightarrow> store \<Rightarrow> store res" where
  "cancel_oracle_rotation e s =
     and_then (admin_gate e s) (\<lambda>_.
     and_then (ok_or (o_rotation (s_orc s)) NoPendingRotation) (\<lambda>p.
     Inr (emit (''oracle'', ''cancel'') [VAddr (ro_new_oracle p)]
            (s\<lparr>s_orc := (s_orc s)\<lparr>o_rotation := None\<rparr>\<rparr>))))"

section \<open>Lemmas\<close>

lemma ensure_not_paused_Inr [res_simps]: "ensure_not_paused s = Inr u \<longleftrightarrow> current_mode s \<noteq> FullyPaused"
  by (simp add: ensure_not_paused_def policy_gate_def)

lemma ensure_normal_mode_Inr [res_simps]: "ensure_normal_mode s = Inr u \<longleftrightarrow> current_mode s = Normal"
  by (simp add: ensure_normal_mode_def policy_gate_def)

lemma require_auth_Inr [res_simps]: "require_auth e a = Inr u \<longleftrightarrow> e_auth e a"
  by (simp add: require_auth_def)

lemma schema_Inr [res_simps]:
  "require_supported_schema s = Inr v \<longleftrightarrow>
     v = schema_version s \<and> 0 < schema_version s \<and> schema_version s \<le> CURRENT_SCHEMA_VERSION"
  by (auto simp: require_supported_schema_def Let_def)

lemma admin_auth_Inr [res_simps]:
  "admin_auth e s = Inr a \<longleftrightarrow> s_admin s = Some a \<and> e_auth e a"
  by (auto simp: admin_auth_def res_simps)

lemma admin_unpaused_Inr [res_simps]:
  "admin_unpaused e s = Inr a \<longleftrightarrow> s_admin s = Some a \<and> e_auth e a \<and> current_mode s \<noteq> FullyPaused"
  by (auto simp: admin_unpaused_def res_simps)

lemma admin_gate_Inr [res_simps]:
  "admin_gate e s = Inr a \<longleftrightarrow>
     0 < schema_version s \<and> schema_version s \<le> CURRENT_SCHEMA_VERSION \<and>
     s_admin s = Some a \<and> e_auth e a \<and> current_mode s \<noteq> FullyPaused"
  by (auto simp: admin_gate_def res_simps)

lemma set_mode_fields [simp]:
  "current_mode (set_mode m s) = m"
  "s_money (set_mode m s) = s_money s" "s_book (set_mode m s) = s_book s"
  "s_admin (set_mode m s) = s_admin s" "s_oracle (set_mode m s) = s_oracle s"
  "s_config (set_mode m s) = s_config s" "s_schema (set_mode m s) = s_schema s"
  "s_gov (set_mode m s) = s_gov s" "s_orc (set_mode m s) = s_orc s"
  by (auto simp: set_mode_def current_mode_def emit_def Let_def)

lemma held_remove_pending:
  "money_ok (s_money s) \<Longrightarrow> held (remove_pending u s) = held s - pending_of s u"
  by (simp add: held_def remove_pending_def pending_of_def money_ok_def total_of_del)

lemma money_ok_remove_pending: "money_ok (s_money s) \<Longrightarrow> money_ok (s_money (remove_pending u s))"
  by (auto simp: remove_pending_def money_ok_def)

lemma remove_pending_fields [simp]:
  "s_book (remove_pending u s) = s_book s" "balance (remove_pending u s) v = balance s v"
  "pending_of (remove_pending u s) v = (if v = u then 0 else pending_of s v)"
  "s_config (remove_pending u s) = s_config s"
  by (simp_all add: remove_pending_def balance_def pending_of_def)

section \<open>Properties\<close>

text \<open>The policy gate implements the mode matrix of its documentation: normal mode admits every
  action, claims-only everything but round mutations, full pause nothing.\<close>

theorem policy_matrix:
  "policy_gate s a = (if current_mode s = Normal \<or> current_mode s = ClaimsOnly \<and> a \<noteq> RoundMutation
                      then Inr () else Inl (Fail ContractPaused))"
  by (cases a; cases "current_mode s") (simp_all add: policy_gate_def)

lemma reclaim_effect:
  assumes "money_ok (s_money s)" "reclaim_expired_pending_winnings e user s = Inr (x, s')"
  shows "x = pending_of s user \<and> 0 < x \<and> held s' = held s \<and> money_ok (s_money s') \<and> s_book s' = s_book s \<and>
         pending_of s' user = 0 \<and>
         (\<exists>admin t. s_admin s = Some admin \<and> e_auth e admin \<and> balance s' admin = balance s admin + x \<and>
            k_pending_at (s_money s) user = Some t \<and> 0 < unwrap_or (c_pending_expiry (s_config s)) 0 \<and>
            t + unwrap_or (c_pending_expiry (s_config s)) 0 \<le> e_ledger e \<and>
            (\<forall>u. u \<noteq> user \<longrightarrow> pending_of s' u = pending_of s u) \<and>
            (\<forall>u. u \<noteq> admin \<longrightarrow> balance s' u = balance s u))"
proof -
  from assms(2) obtain admin t where
    a: "s_admin s = Some admin" "e_auth e admin" and
    p: "x = pending_of s user" "pending_of s user \<noteq> 0" and
    t: "k_pending_at (s_money s) user = Some t" "0 < unwrap_or (c_pending_expiry (s_config s)) 0"
       "unwrap_or (c_pending_expiry (s_config s)) 0 \<le> e_ledger e - t" and
    s': "s' = emit (''claim'', ''expired'') [VAddr user, VInt x, VAddr admin]
                (set_balance admin (balance s admin + x) (remove_pending user s))"
    by (auto simp: reclaim_expired_pending_winnings_def res_simps Let_def usaturating_sub_def
        split: if_splits)
  have x: "0 < x" using pending_nonneg[OF assms(1), of user] p by simp
  have ok: "money_ok (s_money (remove_pending user s))" by (rule money_ok_remove_pending[OF assms(1)])
  have "held s' = held s"
    unfolding s' using held_remove_pending[OF assms(1)] held_set_balance[OF ok] p(1) by simp
  moreover have "money_ok (s_money s')"
    unfolding s' using money_ok_set_balance[OF ok] balance_nonneg[OF assms(1), of admin] x by simp
  moreover have "pending_of s' u = (if u = user then 0 else pending_of s u)"
    "balance s' u = (if u = admin then balance s admin + x else balance s u)" for u
    unfolding s' by (simp_all add: pending_of_def balance_def set_balance_def remove_pending_def emit_def)
  ultimately show ?thesis using a p x t s' by auto
qed

text \<open>Reclaiming is a transfer: it succeeds only for the admin, with expiry enabled and the
  entry at least as old as the expiry, empties exactly that pending entry, credits exactly
  its amount to the admin's balance, and leaves the total of what the contract holds unchanged.\<close>

theorem reclaim_is_transfer:
  assumes "money_ok (s_money s)" "reclaim_expired_pending_winnings e user s = Inr (x, s')"
  shows "x = pending_of s user \<and> 0 < x \<and> held s' = held s \<and> money_ok (s_money s') \<and> s_book s' = s_book s \<and>
         pending_of s' user = 0 \<and>
         (\<exists>admin t. s_admin s = Some admin \<and> e_auth e admin \<and> balance s' admin = balance s admin + x \<and>
            k_pending_at (s_money s) user = Some t \<and> 0 < unwrap_or (c_pending_expiry (s_config s)) 0 \<and>
            t + unwrap_or (c_pending_expiry (s_config s)) 0 \<le> e_ledger e \<and>
            (\<forall>u. u \<noteq> user \<longrightarrow> pending_of s' u = pending_of s u) \<and>
            (\<forall>u. u \<noteq> admin \<longrightarrow> balance s' u = balance s u))"
  by (rule reclaim_effect[OF assms])

theorem reclaim_is_transfer_witness:
  "let s = empty_store\<lparr>s_admin := Some 1, s_schema := Some 3,
             s_config := (s_config empty_store)\<lparr>c_pending_expiry := Some 200\<rparr>,
             s_money := (s_money empty_store)\<lparr>k_pending := [7 \<mapsto> 50], k_pending_at := [7 \<mapsto> 10]\<rparr>\<rparr>
   in \<exists>s'. reclaim_expired_pending_winnings (sample_env 210 0 [1]) 7 s = Inr (50, s') \<and>
           held s' = 50 \<and> balance s' 1 = 50"
proof -
  let ?s = "empty_store\<lparr>s_admin := Some 1, s_schema := Some 3,
             s_config := (s_config empty_store)\<lparr>c_pending_expiry := Some 200\<rparr>,
             s_money := (s_money empty_store)\<lparr>k_pending := [7 \<mapsto> 50], k_pending_at := [7 \<mapsto> 10]\<rparr>\<rparr>"
  have ok: "money_ok (s_money ?s)" and h: "held ?s = 50" and b: "balance ?s 1 = 0"
    by (simp_all add: money_ok_def held_def empty_store_def treasury_value_def get_or_def total_of_def balance_def)
  obtain s' where run: "reclaim_expired_pending_winnings (sample_env 210 0 [1]) 7 ?s = Inr (50, s')"
    by (simp add: reclaim_expired_pending_winnings_def admin_gate_def admin_unpaused_def admin_auth_def
        require_auth_def require_supported_schema_def schema_version_def ensure_not_paused_def
        policy_gate_def current_mode_def empty_store_def sample_env_def protocol_constants
        pending_of_def balance_def remove_pending_def get_or_def payout_add_def checked_add_def
        in_i128_def usaturating_sub_def)
  from reclaim_is_transfer[OF ok run] h b have "held s' = 50" "balance s' 1 = 50"
    by (auto simp: empty_store_def)
  with run show ?thesis by (auto simp: Let_def)
qed

text \<open>The oracle can be rotated only inside its window: an acceptance succeeds at the earliest
  one hour after the proposal and at the latest at its expiry, installs the proposed oracle
  and consumes the proposal, so it cannot be replayed.\<close>

theorem rotation_window:
  assumes "accept_oracle_rotation e s = Inr s'"
  shows "\<exists>p. o_rotation (s_orc s) = Some p \<and> ro_proposed_at p + 3600 \<le> e_time e \<and>
             e_time e \<le> ro_expires_at p \<and> s_oracle s' = Some (ro_new_oracle p) \<and>
             accept_oracle_rotation e' s' \<noteq> Inr s''"
proof -
  from assms obtain p where
    "o_rotation (s_orc s) = Some p" "ro_proposed_at p + 3600 \<le> e_time e" "e_time e \<le> ro_expires_at p"
    "s_oracle s' = Some (ro_new_oracle p)" "o_rotation (s_orc s') = None"
    by (auto simp: accept_oracle_rotation_def res_simps MIN_ROTATION_DELAY_SECONDS_def split: if_splits)
  then show ?thesis by (auto simp: accept_oracle_rotation_def res_simps)
qed

theorem rotation_window_witness:
  "let s = empty_store\<lparr>s_schema := Some 3, s_oracle := Some 2, s_orc := (s_orc empty_store)\<lparr>o_rotation :=
             Some \<lparr>ro_new_oracle = 5, ro_proposed_at = 1000, ro_expires_at = 9000\<rparr>\<rparr>\<rparr>
   in \<exists>s'. accept_oracle_rotation (sample_env 1 4600 []) s = Inr s' \<and> s_oracle s' = Some 5"
proof -
  let ?s = "empty_store\<lparr>s_schema := Some 3, s_oracle := Some 2, s_orc := (s_orc empty_store)\<lparr>o_rotation :=
             Some \<lparr>ro_new_oracle = 5, ro_proposed_at = 1000, ro_expires_at = 9000\<rparr>\<rparr>\<rparr>"
  obtain s' where run: "accept_oracle_rotation (sample_env 1 4600 []) ?s = Inr s'"
    by (simp add: accept_oracle_rotation_def require_supported_schema_def schema_version_def
        ensure_not_paused_def policy_gate_def current_mode_def empty_store_def sample_env_def
        protocol_constants uchecked_add_def MIN_ROTATION_DELAY_SECONDS_def)
  from rotation_window[OF run] run show ?thesis by (auto simp: Let_def)
qed

text \<open>C38 Dual control over the pause can be bypassed.  With a governance approver configured
  \<open>pause_contract\<close> and \<open>unpause_contract\<close> refuse the admin, but \<open>set_runtime_mode\<close> with the
  same signature makes the same transition.\<close>

theorem pause_bypasses_dual_control:
  assumes "require_supported_schema s = Inr v" "s_admin s = Some admin" "e_auth e admin"
    and "is_gov_approver_set s"
  shows "pause_contract e s = Inl (Fail GovUnauthorized) \<and>
         unpause_contract e s = Inl (Fail GovUnauthorized) \<and>
         set_runtime_mode e 2 s = Inr (set_mode FullyPaused s) \<and>
         set_runtime_mode e 0 s = Inr (set_mode Normal s)"
  using assms
  by (simp add: pause_contract_def unpause_contract_def set_runtime_mode_def admin_auth_def require_auth_def)

theorem pause_bypasses_dual_control_witness:
  "let s = empty_store\<lparr>s_admin := Some 1, s_schema := Some 3,
             s_gov := (s_gov empty_store)\<lparr>g_approver := Some 2\<rparr>\<rparr>
   in pause_contract (sample_env 5 5 [1]) s = Inl (Fail GovUnauthorized) \<and>
      set_runtime_mode (sample_env 5 5 [1]) 2 s = Inr (set_mode FullyPaused s)"
  unfolding Let_def
  using pause_bypasses_dual_control[of
      "empty_store\<lparr>s_admin := Some 1, s_schema := Some 3,
         s_gov := (s_gov empty_store)\<lparr>g_approver := Some 2\<rparr>\<rparr>" 3 1 "sample_env 5 5 [1]"]
  by (simp add: require_supported_schema_def schema_version_def empty_store_def sample_env_def
      CURRENT_SCHEMA_VERSION_def is_gov_approver_set_def)

end
