(* ===== verification/Insurance.thy ===== *)
theory Insurance
  imports Administration
begin

text \<open>
  \<open>contracts/src/insurance.rs\<close>: the segregated insurance fund.  Its configuration, the split
  of a protocol fee, the coverage of an eligible cancellation, top-up and withdrawal.  The
  lemmas show solvency: no operation takes the fund below zero, and what leaves the fund
  or a fee arrives elsewhere, except the coverage dust that \<open>cancel_round\<close> leaves behind.
\<close>

definition MAX_INSURANCE_SPLIT_BPS :: nat where "MAX_INSURANCE_SPLIT_BPS = 5000"
definition MAX_INSURANCE_COVERAGE_BPS :: nat where "MAX_INSURANCE_COVERAGE_BPS = 10000"

definition get_insurance_split_bps :: "store \<Rightarrow> nat" where
  "get_insurance_split_bps s = unwrap_or (i_split_bps (s_ins s)) 0"

definition get_insurance_coverage_bps :: "store \<Rightarrow> nat" where
  "get_insurance_coverage_bps s = unwrap_or (i_coverage_bps (s_ins s)) 0"

definition get_insurance_eligible_events :: "store \<Rightarrow> nat list" where
  "get_insurance_eligible_events s = unwrap_or (i_events (s_ins s)) []"

definition get_insurance_fund_balance :: "store \<Rightarrow> int" where
  "get_insurance_fund_balance s = unwrap_or (k_fund (s_money s)) 0"

definition set_fund :: "int \<Rightarrow> store \<Rightarrow> store" where
  "set_fund v s = s\<lparr>s_money := (s_money s)\<lparr>k_fund := Some v\<rparr>\<rparr>"

definition set_insurance_split_bps :: "env \<Rightarrow> nat \<Rightarrow> store \<Rightarrow> store res" where
  "set_insurance_split_bps e bps s =
     and_then (admin_unpaused e s) (\<lambda>_.
     if bps > MAX_INSURANCE_SPLIT_BPS then Inl (Fail InsuranceInvalidSplit)
     else Inr (emit (''ins'', ''split'') [VNat (get_insurance_split_bps s), VNat bps]
            (s\<lparr>s_ins := (s_ins s)\<lparr>i_split_bps := Some bps\<rparr>\<rparr>)))"

definition set_insurance_coverage_bps :: "env \<Rightarrow> nat \<Rightarrow> store \<Rightarrow> store res" where
  "set_insurance_coverage_bps e bps s =
     and_then (admin_unpaused e s) (\<lambda>_.
     if bps > MAX_INSURANCE_COVERAGE_BPS then Inl (Fail InsuranceInvalidSplit)
     else Inr (emit (''ins'', ''covcfg'') [VNat (get_insurance_coverage_bps s), VNat bps]
            (s\<lparr>s_ins := (s_ins s)\<lparr>i_coverage_bps := Some bps\<rparr>\<rparr>)))"

definition set_insurance_eligible_events :: "env \<Rightarrow> nat list \<Rightarrow> store \<Rightarrow> store res" where
  "set_insurance_eligible_events e events s =
     and_then (admin_unpaused e s) (\<lambda>_.
     Inr (emit (''ins'', ''evlist'') [VNat (length events)]
            (s\<lparr>s_ins := (s_ins s)\<lparr>i_events := Some events\<rparr>\<rparr>)))"

section \<open>Fee split and coverage\<close>

definition collect_insurance_fee :: "nat \<Rightarrow> int \<Rightarrow> store \<Rightarrow> (int \<times> store) res" where
  "collect_insurance_fee rid fee_amount s =
     (let split_bps = get_insurance_split_bps s in
      if split_bps = 0 \<or> fee_amount \<le> 0 then Inr (0, s)
      else
        and_then (ok_or (checked_mul fee_amount (int split_bps)) Overflow) (\<lambda>m.
        and_then (ok_or (checked_div m BPS_DENOMINATOR) Overflow) (\<lambda>insurance_amount.
        if insurance_amount \<le> 0 then Inr (0, s)
        else
          let capped_amount = min insurance_amount fee_amount in
          and_then (ok_or (checked_add (get_insurance_fund_balance s) capped_amount) Overflow) (\<lambda>new_balance.
          Inr (capped_amount,
               emit (''ins'', ''fee_coll'') [VNat rid, VInt capped_amount, VInt new_balance]
                 (set_fund new_balance s))))))"

definition is_eligible_event :: "store \<Rightarrow> nat \<Rightarrow> bool" where
  "is_eligible_event s cancel_reason =
     (if cancel_reason = 1 then 0 \<in> set (get_insurance_eligible_events s)
      else if cancel_reason = 2 then 1 \<in> set (get_insurance_eligible_events s)
      else if cancel_reason = 3 then 2 \<in> set (get_insurance_eligible_events s)
      else False)"

definition is_coverage_eligible :: "store \<Rightarrow> nat \<Rightarrow> bool" where
  "is_coverage_eligible s cancel_reason \<longleftrightarrow>
     is_eligible_event s cancel_reason \<and> get_insurance_coverage_bps s > 0"

definition calculate_coverage_amount :: "store \<Rightarrow> int \<Rightarrow> int res" where
  "calculate_coverage_amount s stake =
     (let coverage_bps = get_insurance_coverage_bps s in
      if coverage_bps = 0 \<or> stake \<le> 0 then Inr 0
      else
        and_then (ok_or (checked_mul stake (int coverage_bps)) Overflow) (\<lambda>m.
        ok_or (checked_div m BPS_DENOMINATOR) Overflow))"

definition deduct_insurance_coverage :: "nat \<Rightarrow> int \<Rightarrow> store \<Rightarrow> (int \<times> store) res" where
  "deduct_insurance_coverage rid requested s =
     (if requested \<le> 0 then Inr (0, s)
      else
        let current_fund = get_insurance_fund_balance s in
        if current_fund \<le> 0 then Inr (0, s)
        else
          let distributed = min requested current_fund in
          and_then (ok_or (checked_sub current_fund distributed) Overflow) (\<lambda>new_balance.
          Inr (distributed,
               emit (''ins'', ''coverage'') [VNat rid, VInt distributed, VInt new_balance]
                 (set_fund new_balance s))))"

section \<open>Top-up and withdrawal\<close>

definition top_up_insurance_fund :: "env \<Rightarrow> int \<Rightarrow> store \<Rightarrow> store res" where
  "top_up_insurance_fund e amount s =
     and_then (admin_unpaused e s) (\<lambda>admin.
     if amount \<le> 0 then Inl (Fail InvalidBetAmount)
     else if balance s admin < amount then Inl (Fail InsufficientBalance)
     else
       and_then (ok_or (checked_sub (balance s admin) amount) InsufficientBalance) (\<lambda>new_balance.
       let s1 = set_balance admin new_balance s in
       and_then (ok_or (checked_add (get_insurance_fund_balance s1) amount) Overflow) (\<lambda>new_fund.
       Inr (emit (''ins'', ''topup'') [VAddr admin, VInt amount, VInt new_fund] (set_fund new_fund s1)))))"

definition execute_withdraw_insurance_fund :: "address \<Rightarrow> int \<Rightarrow> store \<Rightarrow> (int \<times> store) res" where
  "execute_withdraw_insurance_fund recipient amount s =
     (if amount \<le> 0 then Inl (Fail InvalidBetAmount)
      else
        let current_fund = get_insurance_fund_balance s in
        if amount > current_fund then Inl (Fail InsuranceInsufficientFund)
        else
          and_then (ok_or (checked_sub current_fund amount) InsufficientBalance) (\<lambda>new_fund.
          let s1 = set_fund new_fund s in
          and_then (payout_add (balance s1 recipient) amount) (\<lambda>new_bal.
          Inr (amount,
               emit (''ins'', ''withdraw'') [VAddr recipient, VInt amount, VInt new_fund]
                 (set_balance recipient new_bal s1)))))"

definition withdraw_insurance_fund :: "env \<Rightarrow> address \<Rightarrow> int \<Rightarrow> store \<Rightarrow> (int \<times> store) res" where
  "withdraw_insurance_fund e recipient amount s =
     and_then (admin_auth e s) (\<lambda>_.
     if is_gov_approver_set s then Inl (Fail GovUnauthorized)
     else
       and_then (ensure_not_paused s) (\<lambda>_.
       if amount \<le> 0 then Inl (Fail InvalidBetAmount)
       else
         let current_fund = get_insurance_fund_balance s in
         if amount > current_fund then Inl (Fail InsuranceInsufficientFund)
         else
           and_then (ok_or (checked_sub current_fund amount) InsufficientBalance) (\<lambda>new_fund.
           let s1 = set_fund new_fund s in
           and_then (payout_add (balance s1 recipient) amount) (\<lambda>new_bal.
           Inr (amount,
                emit (''ins'', ''withdraw'') [VAddr recipient, VInt amount, VInt new_fund]
                  (set_balance recipient new_bal s1))))))"

section \<open>Lemmas\<close>

lemma set_fund_fields [simp]:
  "k_balance (s_money (set_fund v s)) = k_balance (s_money s)"
  "k_pending (s_money (set_fund v s)) = k_pending (s_money s)"
  "k_pending_at (s_money (set_fund v s)) = k_pending_at (s_money s)"
  "k_treasury (s_money (set_fund v s)) = k_treasury (s_money s)"
  "k_fund (s_money (set_fund v s)) = Some v"
  "s_book (set_fund v s) = s_book s" "s_config (set_fund v s) = s_config s"
  "s_ins (set_fund v s) = s_ins s" "s_orc (set_fund v s) = s_orc s"
  "s_gov (set_fund v s) = s_gov s" "s_admin (set_fund v s) = s_admin s"
  "s_history (set_fund v s) = s_history s" "s_board (set_fund v s) = s_board s"
  "balance (set_fund v s) u = balance s u" "pending_of (set_fund v s) u = pending_of s u"
  by (simp_all add: set_fund_def balance_def pending_of_def)

lemma held_set_fund: "held (set_fund v s) = held s - get_insurance_fund_balance s + v"
  by (simp add: held_def get_insurance_fund_balance_def)

lemma money_ok_set_fund: "money_ok (s_money s) \<Longrightarrow> 0 \<le> v \<Longrightarrow> money_ok (s_money (set_fund v s))"
  by (simp add: money_ok_def)

lemma fund_nonneg: "money_ok (s_money s) \<Longrightarrow> 0 \<le> get_insurance_fund_balance s"
  by (simp add: money_ok_def get_insurance_fund_balance_def)

lemma collect_insurance_fee_Inr:
  assumes "collect_insurance_fee rid fee s = Inr (x, s')" "money_ok (s_money s)"
  shows "0 \<le> x" "0 \<le> fee \<Longrightarrow> x \<le> fee" "held s' = held s + x" "money_ok (s_money s')"
    "s_book s' = s_book s" "k_treasury (s_money s') = k_treasury (s_money s)"
    "k_balance (s_money s') = k_balance (s_money s)" "k_pending (s_money s') = k_pending (s_money s)"
    "s_config s' = s_config s" "get_insurance_fund_balance s' = get_insurance_fund_balance s + x"
proof -
  have f: "0 \<le> get_insurance_fund_balance s" by (rule fund_nonneg[OF assms(2)])
  consider "x = 0" "s' = s" | "0 < x" "x \<le> fee"
    "s' = emit (''ins'', ''fee_coll'') [VNat rid, VInt x, VInt (get_insurance_fund_balance s + x)]
            (set_fund (get_insurance_fund_balance s + x) s)"
    using assms(1)
    by (auto simp: collect_insurance_fee_def Let_def res_simps split: if_splits)
  note cases = this
  have "0 \<le> x \<and> (0 \<le> fee \<longrightarrow> x \<le> fee) \<and> held s' = held s + x \<and> money_ok (s_money s') \<and>
    s_book s' = s_book s \<and> k_treasury (s_money s') = k_treasury (s_money s) \<and>
    k_balance (s_money s') = k_balance (s_money s) \<and> k_pending (s_money s') = k_pending (s_money s) \<and>
    s_config s' = s_config s \<and> get_insurance_fund_balance s' = get_insurance_fund_balance s + x"
    by (rule cases)
       (use assms(2) f in \<open>simp_all add: held_set_fund money_ok_set_fund get_insurance_fund_balance_def\<close>)
  then show "0 \<le> x" "0 \<le> fee \<Longrightarrow> x \<le> fee" "held s' = held s + x" "money_ok (s_money s')"
    "s_book s' = s_book s" "k_treasury (s_money s') = k_treasury (s_money s)"
    "k_balance (s_money s') = k_balance (s_money s)" "k_pending (s_money s') = k_pending (s_money s)"
    "s_config s' = s_config s" "get_insurance_fund_balance s' = get_insurance_fund_balance s + x"
    by blast+
qed

lemma deduct_coverage_Inr:
  assumes "deduct_insurance_coverage rid req s = Inr (x, s')" "money_ok (s_money s)"
  shows "x = (if req \<le> 0 then 0 else min req (get_insurance_fund_balance s))"
    "0 \<le> x" "held s' = held s - x" "money_ok (s_money s')" "s_book s' = s_book s"
    "s_config s' = s_config s" "s_ins s' = s_ins s" "s_history s' = s_history s"
    "k_pending (s_money s') = k_pending (s_money s)"
    "get_insurance_fund_balance s' = get_insurance_fund_balance s - x"
proof -
  have f: "0 \<le> get_insurance_fund_balance s" by (rule fund_nonneg[OF assms(2)])
  consider "x = 0" "s' = s" "req \<le> 0 \<or> get_insurance_fund_balance s = 0" |
    "0 < req" "x = min req (get_insurance_fund_balance s)"
    "s' = emit (''ins'', ''coverage'') [VNat rid, VInt x, VInt (get_insurance_fund_balance s - x)]
            (set_fund (get_insurance_fund_balance s - x) s)"
    using assms(1) f
    by (fastforce simp: deduct_insurance_coverage_def Let_def res_simps split: if_splits)
  note cases = this
  have "x = (if req \<le> 0 then 0 else min req (get_insurance_fund_balance s)) \<and> 0 \<le> x \<and>
    held s' = held s - x \<and> money_ok (s_money s') \<and> s_book s' = s_book s \<and>
    s_config s' = s_config s \<and> s_ins s' = s_ins s \<and> s_history s' = s_history s \<and>
    k_pending (s_money s') = k_pending (s_money s) \<and>
    get_insurance_fund_balance s' = get_insurance_fund_balance s - x"
    by (rule cases)
       (use assms(2) f in \<open>auto simp: held_set_fund money_ok_set_fund get_insurance_fund_balance_def\<close>)
  then show "x = (if req \<le> 0 then 0 else min req (get_insurance_fund_balance s))" "0 \<le> x"
    "held s' = held s - x" "money_ok (s_money s')" "s_book s' = s_book s"
    "s_config s' = s_config s" "s_ins s' = s_ins s" "s_history s' = s_history s"
    "k_pending (s_money s') = k_pending (s_money s)"
    "get_insurance_fund_balance s' = get_insurance_fund_balance s - x"
    by blast+
qed

lemma withdraw_insurance_Inr:
  assumes "execute_withdraw_insurance_fund r x s = Inr (y, s')" "money_ok (s_money s)"
  shows "y = x \<and> 0 < x \<and> x \<le> get_insurance_fund_balance s \<and> held s' = held s \<and> money_ok (s_money s') \<and>
    s_book s' = s_book s \<and> balance s' r = balance s r + x \<and>
    get_insurance_fund_balance s' = get_insurance_fund_balance s - x"
proof -
  from assms(1) have r: "y = x" "0 < x" "x \<le> get_insurance_fund_balance s"
    "s' = emit (''ins'', ''withdraw'') [VAddr r, VInt x, VInt (get_insurance_fund_balance s - x)]
            (set_balance r (balance s r + x) (set_fund (get_insurance_fund_balance s - x) s))"
    by (auto simp: execute_withdraw_insurance_fund_def Let_def res_simps split: if_splits)
  have ok: "money_ok (s_money (set_fund (get_insurance_fund_balance s - x) s))"
    using money_ok_set_fund[OF assms(2)] r(3) by simp
  have "held s' = held s"
    unfolding r(4) using held_set_balance[OF ok] by (simp add: held_set_fund)
  moreover have "money_ok (s_money s')"
    unfolding r(4) using money_ok_set_balance[OF ok] balance_nonneg[OF assms(2), of r] r(2) by simp
  ultimately show ?thesis
    unfolding r(4) using r(1-3)
    by (simp add: balance_def get_insurance_fund_balance_def set_balance_def set_fund_def emit_def)
qed

lemma withdraw_is_execute:
  "withdraw_insurance_fund e r x s =
     and_then (admin_auth e s) (\<lambda>_. if is_gov_approver_set s then Inl (Fail GovUnauthorized)
       else and_then (ensure_not_paused s) (\<lambda>_. execute_withdraw_insurance_fund r x s))"
  by (simp add: withdraw_insurance_fund_def execute_withdraw_insurance_fund_def)

section \<open>Properties\<close>

text \<open>The insurance fund stays solvent and segregated: a coverage deduction takes at most the
  request and at most the fund, a withdrawal at most the fund and puts the amount into the
  recipient's balance, a fee split at most the fee; none of them touches positions, and the
  fund never turns negative.\<close>

theorem insurance_solvency:
  assumes "money_ok (s_money s)"
  shows "(deduct_insurance_coverage rid req s = Inr (x, s1) \<longrightarrow>
            0 \<le> get_insurance_fund_balance s1 \<and> x \<le> max 0 req \<and>
            get_insurance_fund_balance s1 + x = get_insurance_fund_balance s \<and> s_book s1 = s_book s) \<and>
         (withdraw_insurance_fund e r amount s = Inr (y, s2) \<longrightarrow>
            0 \<le> get_insurance_fund_balance s2 \<and> y = amount \<and> held s2 = held s \<and>
            balance s2 r = balance s r + amount \<and> \<not> is_gov_approver_set s) \<and>
         (0 \<le> fee \<longrightarrow> collect_insurance_fee rid fee s = Inr (z, s3) \<longrightarrow>
            0 \<le> z \<and> z \<le> fee \<and> get_insurance_fund_balance s3 = get_insurance_fund_balance s + z)"
proof (intro conjI impI)
  have f: "0 \<le> get_insurance_fund_balance s" by (rule fund_nonneg[OF assms])
  assume "deduct_insurance_coverage rid req s = Inr (x, s1)"
  note d = deduct_coverage_Inr[OF this assms]
  show "0 \<le> get_insurance_fund_balance s1" "x \<le> max 0 req"
    "get_insurance_fund_balance s1 + x = get_insurance_fund_balance s" "s_book s1 = s_book s"
    using d(1,5,10) f by auto
next
  assume run: "withdraw_insurance_fund e r amount s = Inr (y, s2)"
  then have "execute_withdraw_insurance_fund r amount s = Inr (y, s2)" and g: "\<not> is_gov_approver_set s"
    by (auto simp: withdraw_is_execute res_simps)
  note w = withdraw_insurance_Inr[OF this(1) assms]
  show "0 \<le> get_insurance_fund_balance s2" "y = amount" "held s2 = held s"
    "balance s2 r = balance s r + amount" "\<not> is_gov_approver_set s"
    using w g by auto
next
  assume fee: "0 \<le> fee" and "collect_insurance_fee rid fee s = Inr (z, s3)"
  note c = collect_insurance_fee_Inr[OF this(2) assms]
  show "0 \<le> z" "z \<le> fee" "get_insurance_fund_balance s3 = get_insurance_fund_balance s + z"
    using c(1,10) c(2)[OF fee] by auto
qed

theorem insurance_solvency_witness:
  "let s = empty_store\<lparr>s_money := (s_money empty_store)\<lparr>k_fund := Some 30\<rparr>\<rparr>
   in \<exists>s1. deduct_insurance_coverage 1 50 s = Inr (30, s1) \<and> get_insurance_fund_balance s1 = 0"
proof -
  let ?s = "empty_store\<lparr>s_money := (s_money empty_store)\<lparr>k_fund := Some 30\<rparr>\<rparr>"
  have ok: "money_ok (s_money ?s)" and f: "get_insurance_fund_balance ?s = 30"
    by (simp_all add: money_ok_def empty_store_def treasury_value_def get_or_def get_insurance_fund_balance_def)
  obtain s1 where run: "deduct_insurance_coverage 1 50 ?s = Inr (30, s1)"
    unfolding deduct_insurance_coverage_def Let_def f by (simp add: checked_sub_def)
  have "get_insurance_fund_balance s1 + 30 = get_insurance_fund_balance ?s"
    by (rule insurance_solvency[OF ok, THEN conjunct1, rule_format, OF run, THEN conjunct2, THEN conjunct2, THEN conjunct1])
  then have "get_insurance_fund_balance s1 = 0" unfolding f by simp
  with run show ?thesis unfolding Let_def by blast
qed

end
