(* ===== verification/Settlement_Math.thy ===== *)
theory Settlement_Math
  imports Contract_Types "HOL-Library.Multiset"
begin

text \<open>
  \<open>contracts/src/settlement_math.rs\<close>: the pure engine of settlement.  Fees, UpDown payouts,
  the winners of a Precision round, the two ways to split a pot, the oracle deviation in
  basis points, and the insertion sort and median of the multi-feed path.  The lemmas show
  that no arithmetic step creates value: a fee and the pools after it add up to the pools
  before it, a Precision split pays out the pot to the last unit, an UpDown split leaves
  less than one unit per winner, and that the sort and the winner scan are what their
  names say.
\<close>

section \<open>Price direction and one-sided pools\<close>

datatype price_direction = PriceUp | PriceDown | Unchanged

definition classify_price_direction :: "nat \<Rightarrow> nat \<Rightarrow> price_direction" where
  "classify_price_direction start_price final_price =
     (if final_price > start_price then PriceUp
      else if final_price < start_price then PriceDown
      else Unchanged)"

definition is_one_sided_pool :: "int \<Rightarrow> int \<Rightarrow> bool" where
  "is_one_sided_pool pool_up pool_down \<longleftrightarrow> (pool_up = 0) \<noteq> (pool_down = 0)"

section \<open>Fees\<close>

definition compute_updown_fee :: "int \<Rightarrow> int \<Rightarrow> nat option \<Rightarrow> (int \<times> int \<times> int) res" where
  "compute_updown_fee winning_pool losing_pool fee_bps =
     (case fee_bps of
        None \<Rightarrow> Inr (winning_pool, losing_pool, 0)
      | Some bps \<Rightarrow>
          and_then (payout_add winning_pool losing_pool) (\<lambda>total_pot.
          and_then (ok_or (checked_mul total_pot (int bps)) Overflow) (\<lambda>m.
          let fee_amount = m sdiv BPS_DENOMINATOR in
          if fee_amount = 0 then Inr (winning_pool, losing_pool, 0)
          else
            let fee_from_losing = min fee_amount losing_pool in
            and_then (ok_or (checked_sub fee_amount fee_from_losing) Overflow) (\<lambda>fee_from_winning.
            and_then (ok_or (checked_sub winning_pool fee_from_winning) Overflow) (\<lambda>dist_winning.
            and_then (ok_or (checked_sub losing_pool fee_from_losing) Overflow) (\<lambda>dist_losing.
            Inr (dist_winning, dist_losing, fee_amount)))))))"

definition compute_precision_fee :: "int \<Rightarrow> nat option \<Rightarrow> (int \<times> int) res" where
  "compute_precision_fee total_pot fee_bps =
     (case fee_bps of
        None \<Rightarrow> Inr (total_pot, 0)
      | Some bps \<Rightarrow>
          if total_pot \<le> 0 then Inr (total_pot, 0)
          else
            and_then (ok_or (checked_mul total_pot (int bps)) PayoutOverflow) (\<lambda>m.
            let fee_amount = m sdiv BPS_DENOMINATOR in
            and_then (ok_or (checked_sub total_pot fee_amount) PayoutOverflow) (\<lambda>distributable.
            Inr (distributable, fee_amount))))"

definition compute_updown_winner_payout :: "int \<Rightarrow> int \<Rightarrow> int \<Rightarrow> int res" where
  "compute_updown_winner_payout stake winning_pool total_distributable =
     (if winning_pool = 0 then Inr 0
      else and_then (payout_mul stake total_distributable) (\<lambda>m. or_trap (checked_div m winning_pool)))"

section \<open>Winners of a Precision round\<close>

datatype scoring_mode = AbsoluteDistance | RelativeDistance

record scoring_policy =
  sp_mode :: scoring_mode
  sp_band :: "nat option"

record precision_entry =
  pe_index :: nat
  pe_price :: nat
  pe_amount :: int
  pe_revealed :: bool

record precision_winners =
  pw_winners :: "nat list"
  pw_total_pot :: int
  pw_losers :: "nat list"

definition default_scoring :: scoring_policy where
  "default_scoring = \<lparr>sp_mode = AbsoluteDistance, sp_band = None\<rparr>"

definition entry_score :: "scoring_mode \<Rightarrow> nat \<Rightarrow> precision_entry \<Rightarrow> nat" where
  "entry_score mode final_price e =
     (let d = abs_diff (pe_price e) final_price in
      case mode of
        AbsoluteDistance \<Rightarrow> d
      | RelativeDistance \<Rightarrow>
          if final_price > 0 then usaturating_mul u128_max d 10000 div final_price else d)"

text \<open>The scan over the entries: the pot, the scores in entry order, the least score so far.\<close>

fun winner_scan :: "scoring_mode \<Rightarrow> nat \<Rightarrow> precision_entry list \<Rightarrow>
    int \<times> (nat \<times> nat) list \<times> nat option \<Rightarrow> int \<times> (nat \<times> nat) list \<times> nat option" where
  "winner_scan mode fp [] acc = acc"
| "winner_scan mode fp (e # es) (pot, scores, min_score) =
     (let pot' = saturating_add pot (pe_amount e) in
      if \<not> pe_revealed e then winner_scan mode fp es (pot', scores, min_score)
      else
        let score = entry_score mode fp e;
            min' = (case min_score of
                      None \<Rightarrow> Some score
                    | Some cur_min \<Rightarrow> if score < cur_min then Some score else Some cur_min)
        in winner_scan mode fp es (pot', scores @ [(pe_index e, score)], min'))"

definition wins_with :: "nat option \<Rightarrow> nat \<Rightarrow> nat \<Rightarrow> bool" where
  "wins_with band best score \<longleftrightarrow>
     (case band of
        None \<Rightarrow> score = best
      | Some b \<Rightarrow> score \<le> b \<or> score \<le> usaturating_add u128_max best b)"

definition find_precision_winners_with_policy ::
  "precision_entry list \<Rightarrow> nat \<Rightarrow> scoring_policy \<Rightarrow> precision_winners" where
  "find_precision_winners_with_policy entries final_price policy =
     (let (total_pot, scores, min_score) = winner_scan (sp_mode policy) final_price entries (0, [], None);
          winners = (case min_score of
                       None \<Rightarrow> []
                     | Some best \<Rightarrow> map fst (filter (\<lambda>(i, score). wins_with (sp_band policy) best score) scores));
          losers = filter (\<lambda>i. i \<notin> set winners) (map pe_index entries)
      in \<lparr>pw_winners = winners, pw_total_pot = total_pot, pw_losers = losers\<rparr>)"

definition find_precision_winners :: "precision_entry list \<Rightarrow> nat \<Rightarrow> precision_winners" where
  "find_precision_winners entries final_price =
     find_precision_winners_with_policy entries final_price default_scoring"

section \<open>Splitting a pot\<close>

definition split_pot_among_winners :: "int \<Rightarrow> nat \<Rightarrow> int list res" where
  "split_pot_among_winners distributable winner_count =
     (if winner_count = 0 \<or> distributable \<le> 0 then Inr []
      else
        let per_winner = distributable sdiv int winner_count;
            remainder = distributable smod int winner_count
        in and_then (ok_or (checked_add per_winner remainder) PayoutOverflow) (\<lambda>first.
           Inr (first # replicate (winner_count - 1) per_winner)))"

fun sum_stakes :: "int list \<Rightarrow> int \<Rightarrow> int res" where
  "sum_stakes [] acc = Inr acc"
| "sum_stakes (s # ss) acc =
     and_then (ok_or (checked_add acc s) PayoutOverflow) (\<lambda>acc'. sum_stakes ss acc')"

fun weighted_payouts :: "int \<Rightarrow> int \<Rightarrow> int list \<Rightarrow> int \<Rightarrow> (int list \<times> int) res" where
  "weighted_payouts distributable total_stake [] allocated = Inr ([], allocated)"
| "weighted_payouts distributable total_stake (s # ss) allocated =
     and_then (payout_mul s distributable) (\<lambda>m.
     and_then (or_trap (checked_div m total_stake)) (\<lambda>payout.
     and_then (ok_or (checked_add allocated payout) PayoutOverflow) (\<lambda>allocated'.
     and_then (weighted_payouts distributable total_stake ss allocated') (\<lambda>(ps, fin).
     Inr (payout # ps, fin)))))"

definition split_pot_stake_weighted :: "int \<Rightarrow> int list \<Rightarrow> int list res" where
  "split_pot_stake_weighted distributable winner_stakes =
     (if winner_stakes = [] \<or> distributable \<le> 0 then Inr []
      else
        and_then (sum_stakes winner_stakes 0) (\<lambda>total_winner_stake.
        if total_winner_stake = 0 then split_pot_among_winners distributable (length winner_stakes)
        else
          and_then (weighted_payouts distributable total_winner_stake winner_stakes 0) (\<lambda>(payouts, total_allocated).
          and_then (ok_or (checked_sub distributable total_allocated) PayoutOverflow) (\<lambda>remainder.
          if remainder > 0 \<and> payouts \<noteq> [] then
            and_then (ok_or (checked_add (payouts ! 0) remainder) PayoutOverflow) (\<lambda>first.
            Inr (payouts[0 := first]))
          else Inr payouts))))"

section \<open>Payout vectors\<close>

record updown_position =
  up_index :: nat
  up_amount :: int
  up_side_up :: bool

record updown_payout =
  ux_index :: nat
  ux_stake :: int
  ux_payout :: int
  ux_is_winner :: bool
  ux_is_refund :: bool

definition updown_refund :: "updown_position \<Rightarrow> updown_payout" where
  "updown_refund p = \<lparr>ux_index = up_index p, ux_stake = up_amount p, ux_payout = up_amount p,
                      ux_is_winner = False, ux_is_refund = True\<rparr>"

fun updown_competitive :: "bool \<Rightarrow> int \<Rightarrow> int \<Rightarrow> updown_position list \<Rightarrow> updown_payout list res" where
  "updown_competitive side winning_pool total_distributable [] = Inr []"
| "updown_competitive side winning_pool total_distributable (p # ps) =
     (let is_winner = (up_side_up p = side) in
      and_then (if is_winner
                then compute_updown_winner_payout (up_amount p) winning_pool total_distributable
                else Inr 0) (\<lambda>payout.
      and_then (updown_competitive side winning_pool total_distributable ps) (\<lambda>rest.
      Inr (\<lparr>ux_index = up_index p, ux_stake = up_amount p, ux_payout = payout,
            ux_is_winner = is_winner, ux_is_refund = False\<rparr> # rest))))"

definition compute_updown_payouts ::
  "updown_position list \<Rightarrow> nat \<Rightarrow> nat \<Rightarrow> int \<Rightarrow> int \<Rightarrow> nat option \<Rightarrow> updown_payout list res" where
  "compute_updown_payouts positions start_price final_price pool_up pool_down fee_bps =
     (let direction = classify_price_direction start_price final_price in
      if direction = Unchanged \<or> is_one_sided_pool pool_up pool_down
      then Inr (map updown_refund positions)
      else
        let (side, winning_pool, losing_pool) =
              (if direction = PriceUp then (True, pool_up, pool_down) else (False, pool_down, pool_up))
        in if winning_pool = 0 then Inr (map updown_refund positions)
           else
             and_then (compute_updown_fee winning_pool losing_pool fee_bps) (\<lambda>(dist_winning, dist_losing, _).
             and_then (payout_add dist_winning dist_losing) (\<lambda>total_distributable.
             updown_competitive side winning_pool total_distributable positions)))"

record precision_payout =
  px_index :: nat
  px_stake :: int
  px_price :: nat
  px_payout :: int
  px_is_winner :: bool
  px_is_refund :: bool

definition precision_entry_payout :: "precision_entry \<Rightarrow> int \<Rightarrow> bool \<Rightarrow> bool \<Rightarrow> precision_payout" where
  "precision_entry_payout e payout is_winner is_refund =
     \<lparr>px_index = pe_index e, px_stake = pe_amount e, px_price = pe_price e, px_payout = payout,
      px_is_winner = is_winner, px_is_refund = is_refund\<rparr>"

definition compute_precision_payouts_with_policy ::
  "precision_entry list \<Rightarrow> nat \<Rightarrow> nat option \<Rightarrow> scoring_policy \<Rightarrow> payout_policy \<Rightarrow> precision_payout list res" where
  "compute_precision_payouts_with_policy entries final_price fee_bps scoring payout_pol =
     (let result = find_precision_winners_with_policy entries final_price scoring in
      if pw_winners result = [] \<and> pw_total_pot result > 0
      then Inr (map (\<lambda>e. precision_entry_payout e (pe_amount e) False True) entries)
      else if pw_total_pot result \<le> 0 \<or> pw_winners result = []
      then Inr (map (\<lambda>e. precision_entry_payout e 0 False False) entries)
      else
        and_then (compute_precision_fee (pw_total_pot result) fee_bps) (\<lambda>(distributable, _).
        and_then (case payout_pol of
                    Equal \<Rightarrow> split_pot_among_winners distributable (length (pw_winners result))
                  | StakeWeighted \<Rightarrow>
                      and_then (map_res (\<lambda>i. and_then (index_or_trap entries i) (\<lambda>e. Inr (pe_amount e)))
                                        (pw_winners result)) (\<lambda>winner_stakes.
                      split_pot_stake_weighted distributable winner_stakes)) (\<lambda>winner_payouts.
        map_res (\<lambda>e. case position_of (pe_index e) (pw_winners result) of
                        Some p \<Rightarrow> and_then (index_or_trap winner_payouts p) (\<lambda>payout.
                                    Inr (precision_entry_payout e payout True False))
                      | None \<Rightarrow> Inr (precision_entry_payout e 0 False False)) entries)))"

definition compute_precision_payouts ::
  "precision_entry list \<Rightarrow> nat \<Rightarrow> nat option \<Rightarrow> precision_payout list res" where
  "compute_precision_payouts entries final_price fee_bps =
     compute_precision_payouts_with_policy entries final_price fee_bps default_scoring Equal"

section \<open>Deviation, sorting, median, totals\<close>

definition compute_deviation_bps :: "nat \<Rightarrow> nat \<Rightarrow> nat res" where
  "compute_deviation_bps price reference =
     (if reference = 0 then Inl (Fail InvalidPrice)
      else
        and_then (ok_or (if price \<ge> reference then uchecked_sub price reference
                         else uchecked_sub reference price) Overflow) (\<lambda>diff.
        and_then (ok_or (uchecked_mul u128_max diff 10000) Overflow) (\<lambda>m.
        let diff_bps = m div reference in
        if diff_bps \<le> u32_max then Inr diff_bps else Inl (Fail Overflow))))"

text \<open>The inner \<open>while\<close> loop of the insertion sort: \<open>sift j key xs\<close> moves the larger
  elements before position \<open>j\<close> one place to the right and writes \<open>key\<close> into the gap.\<close>

fun sift :: "nat \<Rightarrow> nat \<Rightarrow> nat list \<Rightarrow> nat list" where
  "sift 0 key xs = xs[0 := key]"
| "sift (Suc j) key xs =
     (if xs ! j > key then sift j key (xs[Suc j := xs ! j]) else xs[Suc j := key])"

definition sort_prices_in_place :: "nat list \<Rightarrow> nat list" where
  "sort_prices_in_place prices = fold (\<lambda>i xs. sift i (xs ! i) xs) [1..<length prices] prices"

definition median_of_sorted :: "nat list \<Rightarrow> nat option" where
  "median_of_sorted prices =
     (let n = length prices in
      if n = 0 then None
      else if n mod 2 = 1 then Some (prices ! (n div 2))
      else Some (usaturating_add u128_max (prices ! (n div 2 - 1)) (prices ! (n div 2)) div 2))"

definition total_pot_updown :: "int \<Rightarrow> int \<Rightarrow> int" where
  "total_pot_updown pool_up pool_down = saturating_add pool_up pool_down"

definition total_pot_precision :: "int list \<Rightarrow> int" where
  "total_pot_precision stakes = foldl saturating_add 0 stakes"

section \<open>Fee schedules\<close>

text \<open>The contract every fee function of the program keeps: the pools after the fee and the
  fee add up to the pools before it, and no pool grows or turns negative.\<close>

locale fee_schedule =
  fixes fee :: "int \<Rightarrow> int \<Rightarrow> nat option \<Rightarrow> (int \<times> int \<times> int) res"
  assumes fee_split:
    "\<lbrakk>0 \<le> w; 0 \<le> l; pred_option (\<lambda>b. b \<le> 10000) bps; fee w l bps = Inr (dw, dl, f)\<rbrakk>
     \<Longrightarrow> dw + dl + f = w + l \<and> 0 \<le> dw \<and> dw \<le> w \<and> 0 \<le> dl \<and> dl \<le> l \<and> 0 \<le> f"
begin

lemma shares_within_pot:
  assumes "0 < w" "0 \<le> l" "pred_option (\<lambda>b. b \<le> 10000) bps" "fee w l bps = Inr (dw, dl, f)"
    and "sum_list stakes = w"
  shows "sum_list (map (\<lambda>s. s * (dw + dl) div w) stakes) + f \<le> w + l"
    and "w + l < sum_list (map (\<lambda>s. s * (dw + dl) div w) stakes) + f + int (length stakes)"
proof -
  have split: "dw + dl + f = w + l" using fee_split[of w l bps dw dl f] assms by simp
  have "sum_list (map (\<lambda>s. s * (dw + dl) div w) stakes) \<le> dw + dl"
    using assms by (intro floor_shares_upper)
  with split show "sum_list (map (\<lambda>s. s * (dw + dl) div w) stakes) + f \<le> w + l" by simp
  have "stakes \<noteq> []" using assms(1,5) by auto
  then have "dw + dl < sum_list (map (\<lambda>s. s * (dw + dl) div w) stakes) + int (length stakes)"
    using floor_shares_lower[OF assms(1,5), of "dw + dl"] by simp
  with split show "w + l < sum_list (map (\<lambda>s. s * (dw + dl) div w) stakes) + f + int (length stakes)"
    by simp
qed

end

lemma fee_amount_bounds:
  fixes p :: int
  assumes "0 \<le> p" "b \<le> (10000 :: nat)"
  shows "0 \<le> p * int b sdiv 10000" "p * int b sdiv 10000 \<le> p"
  using share_le[of p "int b"] assms by (simp_all add: sdiv_nonneg)

interpretation pure_fee: fee_schedule compute_updown_fee
proof unfold_locales
  fix w l dw dl f :: int and bps
  assume w: "0 \<le> w" and l: "0 \<le> l" and bps: "pred_option (\<lambda>b. b \<le> 10000) bps"
    and run: "compute_updown_fee w l bps = Inr (dw, dl, f)"
  show "dw + dl + f = w + l \<and> 0 \<le> dw \<and> dw \<le> w \<and> 0 \<le> dl \<and> dl \<le> l \<and> 0 \<le> f"
  proof (cases bps)
    case None
    with run w l show ?thesis by (simp add: compute_updown_fee_def)
  next
    case (Some b)
    have "0 \<le> (w + l) * int b sdiv 10000" "(w + l) * int b sdiv 10000 \<le> w + l"
      using fee_amount_bounds[of "w + l" b] w l bps Some by simp_all
    with run w l Some show ?thesis
      by (auto simp: compute_updown_fee_def BPS_DENOMINATOR_def res_simps Let_def min_def
               split: if_splits)
  qed
qed

text \<open>The fee is only refused when the pot or its product with the rate leaves \<open>i128\<close>.\<close>

lemma compute_updown_fee_total:
  assumes "0 \<le> w" "0 \<le> l" "b \<le> 10000" "in_i128 (w + l)" "in_i128 ((w + l) * int b)"
  shows "\<exists>r. compute_updown_fee w l (Some b) = Inr r"
proof -
  have f: "0 \<le> (w + l) * int b sdiv 10000" "(w + l) * int b sdiv 10000 \<le> w + l"
    using fee_amount_bounds[of "w + l" b] assms by simp_all
  have r: "in_i128 x" if "0 \<le> x" "x \<le> w + l" for x
    using in_i128_between[OF in_i128_0 assms(4) that] .
  show ?thesis
    using f assms
    by (auto simp: compute_updown_fee_def payout_add_def checked_add_def checked_mul_def
          checked_sub_def BPS_DENOMINATOR_def Let_def min_def intro!: r)
qed

lemma precision_fee_split:
  assumes "0 \<le> pot" "pred_option (\<lambda>b. b \<le> 10000) bps" "compute_precision_fee pot bps = Inr (d, f)"
  shows "d + f = pot \<and> 0 \<le> d \<and> 0 \<le> f"
proof (cases bps)
  case None
  with assms show ?thesis by (simp add: compute_precision_fee_def)
next
  case (Some b)
  then show ?thesis
    using assms fee_amount_bounds[of pot b]
    by (auto simp: compute_precision_fee_def BPS_DENOMINATOR_def res_simps Let_def split: if_splits)
qed

lemma precision_fee_pos:
  assumes "0 < pot" "pred_option (\<lambda>b. b \<le> MAX_PROTOCOL_FEE_BPS) bps"
    "compute_precision_fee pot bps = Inr (d, f)"
  shows "0 < d"
proof (cases bps)
  case None
  with assms show ?thesis by (simp add: compute_precision_fee_def)
next
  case (Some b)
  have "pot * int b div 10000 < pot"
  proof -
    have "pot * int b \<le> pot * 1000" using assms Some
      by (intro mult_left_mono) (auto simp: MAX_PROTOCOL_FEE_BPS_def)
    then have "pot * int b < pot * 10000" using assms(1) by linarith
    then show ?thesis by (simp add: div_less_iff_less_mult)
  qed
  with assms Some show ?thesis
    by (auto simp: compute_precision_fee_def BPS_DENOMINATOR_def res_simps Let_def sdiv_nonneg
             split: if_splits)
qed

section \<open>Pot splitters\<close>

text \<open>The contract of every routine that splits a Precision pot among its winners.\<close>

locale pot_splitter =
  fixes split :: "int \<Rightarrow> int list \<Rightarrow> int list res"
  assumes one_share_each:
    "\<lbrakk>0 < d; stakes \<noteq> []; \<forall>s\<in>set stakes. 0 \<le> s; split d stakes = Inr ps\<rbrakk>
     \<Longrightarrow> length ps = length stakes"
  and pays_all:
    "\<lbrakk>0 < d; stakes \<noteq> []; \<forall>s\<in>set stakes. 0 \<le> s; split d stakes = Inr ps\<rbrakk>
     \<Longrightarrow> sum_list ps = d"
  and no_negative_share:
    "\<lbrakk>0 < d; stakes \<noteq> []; \<forall>s\<in>set stakes. 0 \<le> s; split d stakes = Inr ps\<rbrakk>
     \<Longrightarrow> \<forall>p\<in>set ps. 0 \<le> p"
begin

lemma share_within_pot:
  assumes "0 < d" "stakes \<noteq> []" "\<forall>s\<in>set stakes. 0 \<le> s" "split d stakes = Inr ps" "p \<in> set ps"
  shows "p \<le> d"
  using member_le_sum_list[of p ps] pays_all[OF assms(1-4)] no_negative_share[OF assms(1-4)] assms(5)
  by auto

lemma share_in_range:
  assumes "0 < d" "stakes \<noteq> []" "\<forall>s\<in>set stakes. 0 \<le> s" "split d stakes = Inr ps" "i < length stakes"
  shows "index_or_trap ps i = Inr (ps ! i)"
  using one_share_each[OF assms(1-4)] assms(5) by (simp add: index_or_trap_def)

end

lemma split_equal_Inr:
  assumes "0 < d" "0 < n" "split_pot_among_winners d n = Inr ps"
  shows "ps = (d div int n + d mod int n) # replicate (n - 1) (d div int n)"
  using assms
  by (auto simp: split_pot_among_winners_def sdiv_nonneg smod_nonneg Let_def res_simps split: if_splits)

lemma split_equal_correct:
  assumes "0 < d" "0 < n" "split_pot_among_winners d n = Inr ps"
  shows "length ps = n" "sum_list ps = d" "\<forall>p\<in>set ps. d div int n \<le> p"
proof -
  note ps = split_equal_Inr[OF assms]
  show "length ps = n" using ps assms(2) by simp
  have "sum_list ps = d div int n + d mod int n + int (n - 1) * (d div int n)"
    using ps by (simp add: sum_list_replicate)
  also have "\<dots> = d mod int n + int n * (d div int n)"
    using assms(2) by (cases n) (simp_all add: algebra_simps)
  finally show "sum_list ps = d" by simp
  show "\<forall>p\<in>set ps. d div int n \<le> p" using ps assms(2) by auto
qed

lemma split_equal_total:
  assumes "0 < d" "in_i128 d" "0 < n"
  shows "\<exists>ps. split_pot_among_winners d n = Inr ps"
proof -
  have "int n * (d div int n) + d mod int n = d" by simp
  moreover have "1 * (d div int n) \<le> int n * (d div int n)"
    using assms by (intro mult_right_mono) (auto simp: pos_imp_zdiv_nonneg_iff)
  ultimately have "d div int n + d mod int n \<le> d" by linarith
  moreover have "0 \<le> d div int n + d mod int n"
    using assms by (simp add: pos_imp_zdiv_nonneg_iff)
  ultimately have "in_i128 (d div int n + d mod int n)"
    using in_i128_between[OF in_i128_0 assms(2)] by blast
  with assms show ?thesis
    by (simp add: split_pot_among_winners_def sdiv_nonneg smod_nonneg Let_def checked_add_def)
qed

interpretation equal_split: pot_splitter "\<lambda>d stakes. split_pot_among_winners d (length stakes)"
proof unfold_locales
  fix d :: int and stakes ps :: "int list"
  assume a: "0 < d" "stakes \<noteq> []" "split_pot_among_winners d (length stakes) = Inr ps"
  then have n: "0 < length stakes" by simp
  have share: "0 \<le> d div int (length stakes)" using a(1) n by (simp add: pos_imp_zdiv_nonneg_iff)
  show "length ps = length stakes" "sum_list ps = d"
    using split_equal_correct(1,2)[OF a(1) n a(3)] by auto
  show "\<forall>p\<in>set ps. 0 \<le> p"
    using split_equal_correct(3)[OF a(1) n a(3)] order_trans[OF share] by blast
qed

lemma sum_stakes_Inr: "sum_stakes ss acc = Inr t \<Longrightarrow> t = acc + sum_list ss"
  by (induction ss acc rule: sum_stakes.induct) (auto simp: res_simps)

lemma weighted_payouts_Inr:
  assumes "0 < d" "0 \<le> t" "\<forall>s\<in>set ss. 0 \<le> s" "weighted_payouts d t ss a = Inr (ps, fin)"
  shows "ps = map (\<lambda>s. s * d div t) ss \<and> fin = a + sum_list ps"
  using assms(3,4)
proof (induction ss arbitrary: a ps fin)
  case (Cons s ss)
  then have eq: "s * d sdiv t = s * d div t" using assms(1,2) by (simp add: sdiv_nonneg)
  with Cons.prems(2) obtain qs where
    q: "weighted_payouts d t ss (a + s * d div t) = Inr (qs, fin)" "ps = (s * d div t) # qs"
    by (auto simp: res_simps Let_def)
  from Cons.IH[OF _ q(1)] Cons.prems(1) q(2) show ?case by simp
qed auto

lemma split_weighted_Inr:
  assumes "0 < d" "ss \<noteq> []" "\<forall>s\<in>set ss. 0 \<le> s" "0 < sum_list ss"
    and "split_pot_stake_weighted d ss = Inr ps"
  shows "ps = (let qs = map (\<lambda>s. s * d div sum_list ss) ss
               in qs[0 := qs ! 0 + (d - sum_list qs)])"
proof -
  let ?qs = "map (\<lambda>s. s * d div sum_list ss) ss"
  obtain t where t: "sum_stakes ss 0 = Inr t"
    using assms by (auto simp: split_pot_stake_weighted_def res_simps split: if_splits)
  have ts: "t = sum_list ss" using sum_stakes_Inr[OF t] by simp
  with assms t obtain qs fin where w: "weighted_payouts d t ss 0 = Inr (qs, fin)"
    by (auto simp: split_pot_stake_weighted_def res_simps split: if_splits)
  have qs: "qs = ?qs" "fin = sum_list ?qs"
    using weighted_payouts_Inr[OF assms(1) _ assms(3) w] assms(4) ts by auto
  have "sum_list ?qs \<le> d" using floor_shares_upper[OF assms(4)] by simp
  then have "fin \<le> d" using qs by simp
  have "qs[0 := qs ! 0 + (d - fin)] = ps"
  proof (cases "fin < d")
    case True
    have "qs \<noteq> []" using qs(1) assms(2) by simp
    with True assms(1,2,4,5) t ts w show ?thesis
      by (auto simp: split_pot_stake_weighted_def res_simps)
  next
    case False
    with \<open>fin \<le> d\<close> have "fin = d" by simp
    with assms(1,2,4,5) t ts w show ?thesis
      by (simp add: split_pot_stake_weighted_def res_simps)
  qed
  with qs show ?thesis by (simp add: Let_def)
qed

interpretation weighted_split: pot_splitter split_pot_stake_weighted
proof unfold_locales
  fix d :: int and ss ps :: "int list"
  assume a: "0 < d" "ss \<noteq> []" "\<forall>s\<in>set ss. 0 \<le> s" "split_pot_stake_weighted d ss = Inr ps"
  have "length ps = length ss \<and> sum_list ps = d \<and> (\<forall>p\<in>set ps. 0 \<le> p)"
  proof (cases "sum_list ss = 0")
    case True
    with a have eq: "split_pot_among_winners d (length ss) = Inr ps"
      by (auto simp: split_pot_stake_weighted_def res_simps dest: sum_stakes_Inr)
    show ?thesis
      by (intro conjI equal_split.one_share_each[OF a(1-3) eq] equal_split.pays_all[OF a(1-3) eq]
        equal_split.no_negative_share[OF a(1-3) eq])
  next
    case False
    moreover have "0 \<le> sum_list ss" using a(3) by (intro sum_list_nonneg) auto
    ultimately have pos: "0 < sum_list ss" by simp
    let ?qs = "map (\<lambda>s. s * d div sum_list ss) ss"
    have ps: "ps = ?qs[0 := ?qs ! 0 + (d - sum_list ?qs)]"
      using split_weighted_Inr[OF a(1-3) pos a(4)] by (simp add: Let_def)
    have le: "sum_list ?qs \<le> d" using floor_shares_upper[OF pos] by simp
    have "sum_list ps = d"
    proof -
      have "?qs \<noteq> []" using a(2) by simp
      from sum_list_update0[OF this, of "d - sum_list ?qs"] show ?thesis unfolding ps by linarith
    qed
    moreover have nn: "\<forall>q\<in>set ?qs. 0 \<le> q"
      using a(1,3) pos by (auto simp: pos_imp_zdiv_nonneg_iff)
    have "\<forall>p\<in>set ps. 0 \<le> p"
    proof
      fix p assume "p \<in> set ps"
      then have p: "p = ?qs ! 0 + (d - sum_list ?qs) \<or> p \<in> set ?qs"
        using set_update_subset_insert[of ?qs 0 "?qs ! 0 + (d - sum_list ?qs)"] unfolding ps by blast
      have "?qs ! 0 \<in> set ?qs" by (rule nth_mem) (use a(2) in simp)
      with nn have "0 \<le> ?qs ! 0" by blast
      with le have "0 \<le> ?qs ! 0 + (d - sum_list ?qs)" by linarith
      with p nn show "0 \<le> p" by blast
    qed
    moreover have "length ps = length ss" unfolding ps by simp
    ultimately show ?thesis by blast
  qed
  then show "length ps = length ss" "sum_list ps = d" "\<forall>p\<in>set ps. 0 \<le> p" by auto
qed

section \<open>The winner scan\<close>

definition least_score :: "nat option \<Rightarrow> nat list \<Rightarrow> nat option" where
  "least_score m ss = foldl (\<lambda>m s. Some (case m of None \<Rightarrow> s | Some c \<Rightarrow> min s c)) m ss"

lemma least_score_Some: "least_score (Some c) ss = Some (Min (insert c (set ss)))"
proof (induction ss arbitrary: c)
  case (Cons s ss)
  have "least_score (Some c) (s # ss) = least_score (Some (min s c)) ss"
    by (simp add: least_score_def)
  also have "\<dots> = Some (Min (insert (min s c) (set ss)))" by (rule Cons.IH)
  also have "Min (insert (min s c) (set ss)) = Min (insert c (set (s # ss)))"
    by (cases "ss = []") (auto simp: min.assoc min.left_commute min.commute)
  finally show ?case .
qed (simp add: least_score_def)

lemma least_score_None: "least_score None ss = (if ss = [] then None else Some (Min (set ss)))"
proof (cases ss)
  case (Cons s ss')
  have "least_score None (s # ss') = least_score (Some s) ss'" by (simp add: least_score_def)
  with Cons show ?thesis by (simp add: least_score_Some)
qed (simp add: least_score_def)

lemma winner_scan_spec:
  "winner_scan mode fp es (pot, scores, ms) =
     (foldl saturating_add pot (map pe_amount es),
      scores @ map (\<lambda>e. (pe_index e, entry_score mode fp e)) (filter pe_revealed es),
      least_score ms (map (entry_score mode fp) (filter pe_revealed es)))"
proof (induction mode fp es "(pot, scores, ms)" arbitrary: pot scores ms rule: winner_scan.induct)
  case (2 mode fp e es pot scores ms)
  show ?case
  proof (cases "pe_revealed e")
    case True
    have "(case ms of None \<Rightarrow> Some s | Some c \<Rightarrow> if s < c then Some s else Some c)
          = Some (case ms of None \<Rightarrow> s | Some c \<Rightarrow> min s c)" for s :: nat
      by (cases ms) (auto simp: min_def)
    with True 2(2) show ?thesis by (simp add: Let_def least_score_def)
  next
    case False
    with 2(1) show ?thesis by simp
  qed
qed (simp add: least_score_def)

lemma pw_winners_eq:
  "pw_winners (find_precision_winners_with_policy es fp pol) =
     map pe_index (filter (\<lambda>e. wins_with (sp_band pol)
         (Min (entry_score (sp_mode pol) fp ` {e \<in> set es. pe_revealed e}))
         (entry_score (sp_mode pol) fp e)) (filter pe_revealed es))"
proof (cases "filter pe_revealed es = []")
  case True
  then show ?thesis
    by (simp add: find_precision_winners_with_policy_def winner_scan_spec least_score_None)
next
  case False
  have "set (map (entry_score (sp_mode pol) fp) (filter pe_revealed es))
      = entry_score (sp_mode pol) fp ` {e \<in> set es. pe_revealed e}" by simp
  with False show ?thesis
    by (simp add: find_precision_winners_with_policy_def winner_scan_spec least_score_None
          filter_map comp_def)
qed

lemma winners_set:
  "set (pw_winners (find_precision_winners_with_policy es fp pol)) =
     {pe_index e |e. e \<in> set es \<and> pe_revealed e \<and>
        wins_with (sp_band pol)
          (Min (entry_score (sp_mode pol) fp ` {e \<in> set es. pe_revealed e}))
          (entry_score (sp_mode pol) fp e)}"
  unfolding pw_winners_eq by auto

lemma winners_pot: "pw_total_pot (find_precision_winners_with_policy es fp pol)
    = total_pot_precision (map pe_amount es)"
  by (simp add: find_precision_winners_with_policy_def winner_scan_spec total_pot_precision_def Let_def)

lemma winners_distinct:
  "distinct (map pe_index es) \<Longrightarrow> distinct (pw_winners (find_precision_winners_with_policy es fp pol))"
  unfolding pw_winners_eq by (simp add: distinct_map_filter)

lemma total_pot_precision_exact:
  assumes "\<forall>s\<in>set ss. 0 \<le> s" "in_i128 (sum_list ss)"
  shows "total_pot_precision ss = sum_list ss"
proof -
  have "foldl saturating_add a ss = a + sum_list ss"
    if "0 \<le> a" "in_i128 (a + sum_list ss)" "\<forall>s\<in>set ss. 0 \<le> s" for a
    using that
  proof (induction ss arbitrary: a)
    case (Cons s ss)
    have "0 \<le> sum_list ss" using Cons.prems(3) by (intro sum_list_nonneg) auto
    then have "in_i128 (a + s)"
      using Cons.prems in_i128_between[OF in_i128_0 Cons.prems(2), of "a + s"] by simp
    then have "saturating_add a s = a + s" by (rule saturating_add_exact)
    with Cons show ?case by (simp add: add.assoc)
  qed simp
  from this[of 0] assms show ?thesis by (simp add: total_pot_precision_def)
qed

section \<open>Sorting\<close>

lemma insort_snoc:
  "sorted (ys @ [y]) \<Longrightarrow> insort k (ys @ [y]) = (if k < y then insort k ys @ [y] else ys @ [y, k])"
  for k :: nat
proof -
  assume s: "sorted (ys @ [y])"
  have "sort (k # ys @ [y]) = (if k < y then insort k ys @ [y] else ys @ [y, k])"
    using s by (intro properties_for_sort) (auto simp: sorted_append sorted_insort set_insort_key)
  moreover have "sort (k # ys @ [y]) = insort k (ys @ [y])"
    using s by (simp add: sorted_sort_id)
  ultimately show ?thesis by simp
qed

lemma sift_insort:
  assumes "j < length xs" "sorted (take j xs)"
  shows "sift j key xs = insort key (take j xs) @ drop (Suc j) xs"
  using assms
proof (induction j arbitrary: xs)
  case 0
  then show ?case by (cases xs) auto
next
  case (Suc j)
  have tk: "take (Suc j) xs = take j xs @ [xs ! j]"
    using Suc.prems(1) by (simp add: take_Suc_conv_app_nth)
  have sj: "sorted (take j xs)" using Suc.prems(2) tk by (simp add: sorted_append)
  show ?case
  proof (cases "key < xs ! j")
    case True
    let ?ys = "xs[Suc j := xs ! j]"
    have "sift (Suc j) key xs = insort key (take j ?ys) @ drop (Suc j) ?ys"
      using True Suc.IH[of ?ys] Suc.prems(1) sj by simp
    also have "drop (Suc j) ?ys = (xs ! j) # drop (Suc (Suc j)) xs"
      using Suc.prems(1) by (simp add: Cons_nth_drop_Suc[symmetric])
    also have "insort key (take j ?ys) @ (xs ! j) # drop (Suc (Suc j)) xs
        = insort key (take (Suc j) xs) @ drop (Suc (Suc j)) xs"
      using True tk Suc.prems(2) insort_snoc[of "take j xs" "xs ! j" key] by simp
    finally show ?thesis .
  next
    case False
    have "xs[Suc j := key] = take (Suc j) xs @ key # drop (Suc (Suc j)) xs"
      using Suc.prems(1) by (simp add: upd_conv_take_nth_drop)
    with False tk Suc.prems(2) insort_snoc[of "take j xs" "xs ! j" key] show ?thesis by simp
  qed
qed

lemma sort_prices_prefix:
  assumes "n \<le> length ps" "1 \<le> n"
  shows "fold (\<lambda>i xs. sift i (xs ! i) xs) [1..<n] ps = sort (take n ps) @ drop n ps"
  using assms(2,1)
proof (induction n rule: nat_induct_at_least)
  case base
  then show ?case by (cases ps) (auto simp: take_Suc)
next
  case (Suc n)
  let ?xs = "sort (take n ps) @ drop n ps"
  have len: "n < length ps" using Suc.prems by simp
  have "fold (\<lambda>i xs. sift i (xs ! i) xs) [1..<Suc n] ps = sift n (?xs ! n) ?xs"
    using Suc.IH Suc.hyps len by simp
  also have "?xs ! n = ps ! n" using len by (simp add: nth_append)
  also have "sift n (ps ! n) ?xs = insort (ps ! n) (sort (take n ps)) @ drop (Suc n) ps"
    using sift_insort[of n ?xs "ps ! n"] len by (simp add: drop_drop)
  also have "insort (ps ! n) (sort (take n ps)) = sort (take (Suc n) ps)"
    using len by (intro properties_for_sort[symmetric])
      (simp_all add: take_Suc_conv_app_nth sorted_insort)
  finally show ?case .
qed

lemma sort_prices_sorts: "sort_prices_in_place ps = sort ps"
proof (cases ps)
  case (Cons p qs)
  then show ?thesis using sort_prices_prefix[of "length ps" ps]
    by (simp add: sort_prices_in_place_def)
qed (simp add: sort_prices_in_place_def)

section \<open>UpDown payout vectors\<close>

lemma updown_competitive_Inr:
  assumes "0 < w" "0 \<le> td" "\<forall>p\<in>set ps. 0 \<le> up_amount p" "updown_competitive side w td ps = Inr xs"
  shows "xs = map (\<lambda>p. \<lparr>ux_index = up_index p, ux_stake = up_amount p,
            ux_payout = (if up_side_up p = side then up_amount p * td div w else 0),
            ux_is_winner = (up_side_up p = side), ux_is_refund = False\<rparr>) ps"
  using assms(3,4)
proof (induction ps arbitrary: xs)
  case (Cons p ps)
  then obtain pay rest where
    p: "(if up_side_up p = side then compute_updown_winner_payout (up_amount p) w td else Inr 0) = Inr pay"
    and r: "updown_competitive side w td ps = Inr rest"
    and xs: "xs = \<lparr>ux_index = up_index p, ux_stake = up_amount p, ux_payout = pay,
                  ux_is_winner = (up_side_up p = side), ux_is_refund = False\<rparr> # rest"
    by (auto simp: res_simps Let_def)
  have "pay = (if up_side_up p = side then up_amount p * td div w else 0)"
    using p assms(1,2) Cons.prems(1)
    by (auto simp: compute_updown_winner_payout_def res_simps sdiv_nonneg split: if_splits)
  with Cons.IH[OF _ r] Cons.prems(1) xs show ?case by simp
qed simp

text \<open>Pools that agree with the positions: what \<open>place_bet\<close> and \<open>cash_out_early\<close> maintain.\<close>

definition pools_match :: "updown_position list \<Rightarrow> int \<Rightarrow> int \<Rightarrow> bool" where
  "pools_match ps pool_up pool_down \<longleftrightarrow>
     (\<forall>p\<in>set ps. 0 \<le> up_amount p) \<and>
     pool_up = sum_list (map up_amount (filter up_side_up ps)) \<and>
     pool_down = sum_list (map up_amount (filter (\<lambda>p. \<not> up_side_up p) ps))"

lemma pools_match_total:
  "pools_match ps u d \<Longrightarrow> sum_list (map up_amount ps) = u + d"
  unfolding pools_match_def by (induction ps arbitrary: u d) auto

lemma pools_match_nonneg: "pools_match ps u d \<Longrightarrow> 0 \<le> u \<and> 0 \<le> d"
  unfolding pools_match_def by (auto intro!: sum_list_nonneg)

lemma winners_payout_sum:
  "sum_list (map ux_payout (map (\<lambda>p. \<lparr>ux_index = up_index p, ux_stake = up_amount p,
            ux_payout = (if up_side_up p = side then up_amount p * td div w else 0),
            ux_is_winner = (up_side_up p = side), ux_is_refund = False\<rparr>) ps))
   = sum_list (map (\<lambda>s. s * td div w) (map up_amount (filter (\<lambda>p. up_side_up p = side) ps)))"
  by (induction ps) auto

lemma updown_payouts_cases:
  assumes match: "pools_match ps u d" and fee: "pred_option (\<lambda>b. b \<le> 10000) bps"
    and run: "compute_updown_payouts ps p0 p1 u d bps = Inr xs"
  obtains (refund) "xs = map updown_refund ps" "p0 = p1 \<or> u = 0 \<or> d = 0"
    | (settled) side w l dw dl f where
        "side = (p1 > p0)" "p0 \<noteq> p1" "0 < w" "0 < l" "(w, l) = (if side then (u, d) else (d, u))"
        "compute_updown_fee w l bps = Inr (dw, dl, f)"
        "xs = map (\<lambda>p. \<lparr>ux_index = up_index p, ux_stake = up_amount p,
            ux_payout = (if up_side_up p = side then up_amount p * (dw + dl) div w else 0),
            ux_is_winner = (up_side_up p = side), ux_is_refund = False\<rparr>) ps"
proof -
  have nn: "0 \<le> u" "0 \<le> d" using pools_match_nonneg[OF match] by auto
  have amts: "\<forall>p\<in>set ps. 0 \<le> up_amount p" using match by (simp add: pools_match_def)
  show ?thesis
  proof (cases "p0 = p1 \<or> u = 0 \<or> d = 0")
    case True
    then have "xs = map updown_refund ps"
      using run by (auto simp: compute_updown_payouts_def classify_price_direction_def
          is_one_sided_pool_def Let_def split: if_splits)
    with True show ?thesis by (rule refund[rotated])
  next
    case False
    then have pos: "0 < u" "0 < d" using nn by auto
    define side where "side = (p1 > p0)"
    define w where "w = (if side then u else d)"
    define l where "l = (if side then d else u)"
    have wl: "0 < w" "0 < l" using pos by (simp_all add: w_def l_def)
    from run False obtain dw dl f td where
      fe: "compute_updown_fee w l bps = Inr (dw, dl, f)" and td: "payout_add dw dl = Inr td"
      and cs: "updown_competitive side w td ps = Inr xs"
      by (auto simp: compute_updown_payouts_def classify_price_direction_def is_one_sided_pool_def
          w_def l_def side_def Let_def res_simps split: if_splits prod.splits)
    have "td = dw + dl" using td by (simp add: res_simps)
    moreover have "0 \<le> dw + dl" using pure_fee.fee_split[OF _ _ fee fe] wl by simp
    ultimately have xs: "xs = map (\<lambda>p. \<lparr>ux_index = up_index p, ux_stake = up_amount p,
            ux_payout = (if up_side_up p = side then up_amount p * (dw + dl) div w else 0),
            ux_is_winner = (up_side_up p = side), ux_is_refund = False\<rparr>) ps"
      using updown_competitive_Inr[OF wl(1) _ amts cs] by simp
    show ?thesis
      by (rule settled[of side w l dw dl f]) (use False wl fe xs in \<open>auto simp: side_def w_def l_def\<close>)
  qed
qed

section \<open>Precision payout vectors\<close>

text \<open>Paying the list \<open>ps\<close> to the winners \<open>ws\<close> of the entries pays out the sum of \<open>ps\<close>.\<close>

lemma pay_winners_sum:
  fixes ps :: "int list"
  assumes "distinct ids" "distinct ws" "set ws \<subseteq> set ids" "length ps = length ws"
  shows "sum_list (map (\<lambda>i. case position_of i ws of Some p \<Rightarrow> ps ! p | None \<Rightarrow> 0) ids) = sum_list ps"
proof -
  let ?f = "\<lambda>i. case position_of i ws of Some p \<Rightarrow> ps ! p | None \<Rightarrow> 0"
  have "sum_list (map ?f ids) = sum ?f (set ids)"
    using assms(1) by (simp add: sum_list_distinct_conv_sum_set)
  also have "\<dots> = sum ?f (set ws)"
    by (rule sum.mono_neutral_right) (use assms(3) in \<open>auto split: option.splits dest!: position_of_Some\<close>)
  also have "\<dots> = sum_list (map ?f ws)"
    using assms(2) by (simp add: sum_list_distinct_conv_sum_set)
  also have "map ?f ws = ps"
    using assms(2,4) by (intro nth_equalityI) (auto simp: position_of_nth)
  finally show ?thesis .
qed


definition u128_prices :: "precision_entry list \<Rightarrow> nat \<Rightarrow> bool" where
  "u128_prices es fp \<longleftrightarrow> fp \<le> u128_max \<and> (\<forall>e\<in>set es. pe_price e \<le> u128_max)"

lemma entry_score_u128: "u128_prices es fp \<Longrightarrow> e \<in> set es \<Longrightarrow> entry_score m fp e \<le> u128_max"
  by (auto simp: u128_prices_def entry_score_def abs_diff_def usaturating_mul_def Let_def
           split: scoring_mode.splits
           intro: le_trans[OF diff_le_self] le_trans[OF div_le_dividend])

lemma winners_nonempty:
  assumes range: "u128_prices es fp"
  shows "pw_winners (find_precision_winners_with_policy es fp pol) = [] \<longleftrightarrow> (\<forall>e\<in>set es. \<not> pe_revealed e)"
proof
  let ?S = "{e \<in> set es. pe_revealed e}" and ?f = "entry_score (sp_mode pol) fp"
  assume none: "pw_winners (find_precision_winners_with_policy es fp pol) = []"
  show "\<forall>e\<in>set es. \<not> pe_revealed e"
  proof (rule ccontr)
    assume "\<not> ?thesis"
    then have "?S \<noteq> {}" by auto
    then have "Min (?f ` ?S) \<in> ?f ` ?S" by (intro Min_in) auto
    then obtain e where e: "e \<in> ?S" "?f e = Min (?f ` ?S)" by auto
    moreover have "?f e \<le> u128_max" using entry_score_u128[OF range] e(1) by simp
    ultimately have "wins_with (sp_band pol) (Min (?f ` ?S)) (?f e)"
      by (simp add: wins_with_def usaturating_add_def split: option.splits)
    with e(1) have "pe_index e \<in> set (pw_winners (find_precision_winners_with_policy es fp pol))"
      unfolding winners_set by blast
    with none show False by simp
  qed
qed (auto simp: pw_winners_eq filter_empty_conv)

definition indexed :: "precision_entry list \<Rightarrow> bool" where
  "indexed es \<longleftrightarrow> map pe_index es = [0..<length es]"

lemma indexed_distinct: "indexed es \<Longrightarrow> distinct (map pe_index es)"
  by (simp add: indexed_def)

lemma index_of_entry: "indexed es \<Longrightarrow> i < length es \<Longrightarrow> pe_index (es ! i) = i"
  unfolding indexed_def by (metis add_0 length_map nth_map nth_upt)

text \<open>The winners' share of the pot goes out as the splitter divides it.\<close>

context pot_splitter
begin

lemma settled_sum:
  assumes es: "indexed es" "\<forall>e\<in>set es. 0 \<le> pe_amount e"
    and ws: "ws \<noteq> []" "distinct ws" "set ws \<subseteq> set (map pe_index es)"
    and d: "0 < d" "length stakes = length ws" "\<forall>s\<in>set stakes. 0 \<le> s" "split d stakes = Inr ps"
    and run: "map_res (\<lambda>e. case position_of (pe_index e) ws of
                 Some p \<Rightarrow> and_then (index_or_trap ps p) (\<lambda>payout.
                             Inr (precision_entry_payout e payout True False))
               | None \<Rightarrow> Inr (precision_entry_payout e 0 False False)) es = Inr xs"
  shows "sum_list (map px_payout xs) = d"
proof -
  have ne: "stakes \<noteq> []" using ws(1) d(2) by auto
  have len: "length ps = length ws" using one_share_each[OF d(1) ne d(3,4)] d(2) by simp
  let ?pay = "\<lambda>i. case position_of i ws of Some p \<Rightarrow> ps ! p | None \<Rightarrow> 0"
  have "map px_payout xs = map ?pay (map pe_index es)"
  proof (rule nth_equalityI)
    show "length (map px_payout xs) = length (map ?pay (map pe_index es))"
      using run by (simp add: map_res_Inr)
    fix i assume "i < length (map px_payout xs)"
    then have i: "i < length es" "i < length xs" using run by (simp_all add: map_res_Inr)
    let ?e = "es ! i"
    have step: "(case position_of (pe_index ?e) ws of
                 Some p \<Rightarrow> and_then (index_or_trap ps p) (\<lambda>payout.
                             Inr (precision_entry_payout ?e payout True False))
               | None \<Rightarrow> Inr (precision_entry_payout ?e 0 False False)) = Inr (xs ! i)"
      using run i by (simp add: map_res_Inr)
    have "px_payout (xs ! i) = ?pay (pe_index ?e)"
    proof (cases "position_of (pe_index ?e) ws")
      case None
      with step have "xs ! i = precision_entry_payout ?e 0 False False" by simp
      with None show ?thesis by (simp add: precision_entry_payout_def)
    next
      case (Some p)
      with step have "xs ! i = precision_entry_payout ?e (ps ! p) True False"
        by (simp add: index_or_trap_def split: if_splits)
      with Some show ?thesis by (simp add: precision_entry_payout_def)
    qed
    with i show "map px_payout xs ! i = map ?pay (map pe_index es) ! i" by simp
  qed
  then have "sum_list (map px_payout xs) = sum_list ps"
    using pay_winners_sum[OF indexed_distinct[OF es(1)] ws(2,3) len] by simp
  with pays_all[OF d(1) ne d(3,4)] show ?thesis by simp
qed

end

lemma winner_stakes_Inr:
  assumes "map_res (\<lambda>i. and_then (index_or_trap es i) (\<lambda>e. Inr (pe_amount e))) ws = Inr ss"
    and "\<forall>e\<in>set es. 0 \<le> pe_amount e"
  shows "length ss = length ws" "\<forall>s\<in>set ss. 0 \<le> s"
proof -
  show len: "length ss = length ws" using assms(1) by (simp add: map_res_Inr)
  show "\<forall>s\<in>set ss. 0 \<le> s"
  proof
    fix s assume "s \<in> set ss"
    then obtain i where i: "i < length ws" "s = ss ! i" using len by (metis in_set_conv_nth)
    then have "and_then (index_or_trap es (ws ! i)) (\<lambda>e. Inr (pe_amount e)) = Inr (ss ! i)"
      using assms(1) by (simp add: map_res_Inr)
    then have "ws ! i < length es" "ss ! i = pe_amount (es ! (ws ! i))"
      by (auto simp: index_or_trap_def split: if_splits)
    with assms(2) i show "0 \<le> s" by simp
  qed
qed

lemma precision_payouts_settled:
  assumes es: "indexed es" "\<forall>e\<in>set es. 0 \<le> pe_amount e" and range: "u128_prices es fp"
    and fee: "pred_option (\<lambda>b. b \<le> MAX_PROTOCOL_FEE_BPS) bps"
    and run: "compute_precision_payouts_with_policy es fp bps pol pp = Inr xs"
    and rev: "e \<in> set es" "pe_revealed e"
    and pot: "0 < pw_total_pot (find_precision_winners_with_policy es fp pol)" (is "0 < ?pot")
  shows "\<exists>d f. compute_precision_fee ?pot bps = Inr (d, f) \<and> sum_list (map px_payout xs) = d"
proof -
  let ?ws = "pw_winners (find_precision_winners_with_policy es fp pol)"
  have ne: "?ws \<noteq> []" using winners_nonempty[OF range, of pol] rev by auto
  have dist: "distinct ?ws" by (rule winners_distinct[OF indexed_distinct[OF es(1)]])
  have sub: "set ?ws \<subseteq> set (map pe_index es)" unfolding winners_set by auto
  from run ne pot obtain d f where df: "compute_precision_fee ?pot bps = Inr (d, f)"
    by (auto simp: compute_precision_payouts_with_policy_def Let_def res_simps)
  have d: "0 < d" by (rule precision_fee_pos[OF pot fee df])
  have "sum_list (map px_payout xs) = d"
  proof (cases pp)
    case Equal
    with run ne pot df obtain ps where
      ps: "split_pot_among_winners d (length ?ws) = Inr ps" and
      xs: "map_res (\<lambda>e. case position_of (pe_index e) ?ws of
                 Some p \<Rightarrow> and_then (index_or_trap ps p) (\<lambda>payout.
                             Inr (precision_entry_payout e payout True False))
               | None \<Rightarrow> Inr (precision_entry_payout e 0 False False)) es = Inr xs"
      by (auto simp: compute_precision_payouts_with_policy_def Let_def res_simps)
    show ?thesis
      by (rule equal_split.settled_sum[where stakes = "replicate (length ?ws) 0" and ps = ps,
            OF es ne dist sub d _ _ _ xs]) (simp_all add: ps)
  next
    case StakeWeighted
    with run ne pot df obtain ss ps where
      ss: "map_res (\<lambda>i. and_then (index_or_trap es i) (\<lambda>e. Inr (pe_amount e))) ?ws = Inr ss" and
      ps: "split_pot_stake_weighted d ss = Inr ps" and
      xs: "map_res (\<lambda>e. case position_of (pe_index e) ?ws of
                 Some p \<Rightarrow> and_then (index_or_trap ps p) (\<lambda>payout.
                             Inr (precision_entry_payout e payout True False))
               | None \<Rightarrow> Inr (precision_entry_payout e 0 False False)) es = Inr xs"
      by (auto simp: compute_precision_payouts_with_policy_def Let_def res_simps)
    show ?thesis
      by (rule weighted_split.settled_sum[where stakes = ss and ps = ps, OF es ne dist sub d _ _ ps xs])
         (rule winner_stakes_Inr[OF ss es(2)])+
  qed
  with df show ?thesis by blast
qed

lemma payout_not_Trap [simp]: "payout_add a b \<noteq> Inl Trap" "payout_mul a b \<noteq> Inl Trap"
  by (simp_all add: payout_add_def payout_mul_def)

lemma fee_not_Trap [simp]: "compute_precision_fee p b \<noteq> Inl Trap"
  by (auto simp: compute_precision_fee_def Let_def res_simps split: option.splits)

lemma split_equal_not_Trap [simp]: "split_pot_among_winners d n \<noteq> Inl Trap"
  by (auto simp: split_pot_among_winners_def Let_def res_simps)

lemma sum_stakes_not_Trap [simp]: "sum_stakes ss a \<noteq> Inl Trap"
  by (induction ss a rule: sum_stakes.induct) (auto simp: res_simps)

lemma weighted_not_Trap: "0 < t \<Longrightarrow> weighted_payouts d t ss a \<noteq> Inl Trap"
  by (induction ss arbitrary: a) (auto simp: res_simps or_trap_Inl checked_div_pos in_i128_sdiv)

lemma split_weighted_not_Trap:
  assumes "\<forall>s\<in>set ss. 0 \<le> s"
  shows "split_pot_stake_weighted d ss \<noteq> Inl Trap"
proof -
  have "0 \<le> sum_list ss" using assms by (intro sum_list_nonneg) auto
  then have "t = 0 \<or> 0 < t" if "sum_stakes ss 0 = Inr t" for t
    using sum_stakes_Inr[OF that] \<open>0 \<le> sum_list ss\<close> by linarith
  then show ?thesis
    by (auto simp: split_pot_stake_weighted_def res_simps weighted_not_Trap split: if_splits)
qed

lemma median_rank:
  assumes "median_of_sorted (sort ps) = Some m" "\<forall>p\<in>set ps. p \<le> u128_max div 2"
  shows "length ps \<le> 2 * length (filter (\<lambda>p. p \<le> m) ps)"
    and "length ps \<le> 2 * length (filter (\<lambda>p. m \<le> p) ps)"
proof -
  let ?s = "sort ps" and ?n = "length ps"
  have mono: "i \<le> j \<Longrightarrow> j < ?n \<Longrightarrow> ?s ! i \<le> ?s ! j" for i j
    using sorted_nth_mono[of ?s i j] by simp
  have n: "0 < ?n" using assms(1) by (auto simp: median_of_sorted_def)
  have small: "?s ! i \<le> u128_max div 2" if "i < ?n" for i
    using assms(2) that nth_mem[of i ?s] by simp
  define lo where "lo = (if odd ?n then ?s ! (?n div 2) else ?s ! (?n div 2 - 1))"
  have m: "lo \<le> m" "m \<le> ?s ! (?n div 2)"
  proof -
    have "even ?n \<Longrightarrow> ?s ! (?n div 2 - 1) \<le> ?s ! (?n div 2)" using n by (intro mono) auto
    moreover have "even ?n \<Longrightarrow> ?s ! (?n div 2 - 1) + ?s ! (?n div 2) \<le> u128_max"
    proof -
      have h: "?n div 2 < ?n" using n by simp
      then have "?n div 2 - 1 < ?n" by (meson diff_le_self le_less_trans)
      note this h
      then have "?s ! (?n div 2 - 1) + ?s ! (?n div 2) \<le> u128_max div 2 + u128_max div 2"
        by (intro add_mono small)
      also have "\<dots> \<le> u128_max" by (simp add: u128_max_def)
      finally show ?thesis .
    qed
    ultimately show "lo \<le> m" "m \<le> ?s ! (?n div 2)"
      using assms(1) n
      by (auto simp: lo_def median_of_sorted_def Let_def usaturating_add_def odd_iff_mod_2_eq_one
               split: if_splits)
  qed
  have below: "(?n + 1) div 2 \<le> length (filter (\<lambda>p. p \<le> m) ?s)"
  proof -
    have "\<forall>p\<in>set (take ((?n + 1) div 2) ?s). p \<le> lo"
    proof
      fix p assume "p \<in> set (take ((?n + 1) div 2) ?s)"
      then obtain i where i: "i < (?n + 1) div 2" "i < ?n" "p = ?s ! i"
        by (auto simp: in_set_conv_nth)
      show "p \<le> lo"
      proof (cases "odd ?n")
        case True
        then obtain k where k: "?n = 2 * k + 1" by (rule oddE)
        with i True show ?thesis by (simp add: lo_def mono)
      next
        case False
        then obtain k where k: "?n = 2 * k" by (auto elim: evenE)
        with i n have "i \<le> k - 1" "k - 1 < ?n" by simp_all
        with i False k show ?thesis by (simp add: lo_def mono)
      qed
    qed
    then have "filter (\<lambda>p. p \<le> m) (take ((?n + 1) div 2) ?s) = take ((?n + 1) div 2) ?s"
      using m(1) by (intro filter_True) (meson le_trans)
    then have "length (filter (\<lambda>p. p \<le> m) (take ((?n + 1) div 2) ?s @ drop ((?n + 1) div 2) ?s))
        \<ge> length (take ((?n + 1) div 2) ?s)" unfolding filter_append by simp
    then show ?thesis by (simp del: filter_append)
  qed
  have above: "?n - ?n div 2 \<le> length (filter (\<lambda>p. m \<le> p) ?s)"
  proof -
    have "\<forall>p\<in>set (drop (?n div 2) ?s). ?s ! (?n div 2) \<le> p"
      by (auto simp: in_set_conv_nth intro!: mono)
    then have "filter (\<lambda>p. m \<le> p) (drop (?n div 2) ?s) = drop (?n div 2) ?s"
      using m(2) by (intro filter_True) (meson le_trans)
    then have "length (filter (\<lambda>p. m \<le> p) (take (?n div 2) ?s @ drop (?n div 2) ?s))
        \<ge> length (drop (?n div 2) ?s)" unfolding filter_append by simp
    then show ?thesis by (simp del: filter_append)
  qed
  have perm: "length (filter P ?s) = length (filter P ps)" for P :: "nat \<Rightarrow> bool"
    by (metis mset_filter mset_sort size_mset)
  from below above perm show "?n \<le> 2 * length (filter (\<lambda>p. p \<le> m) ps)"
    "?n \<le> 2 * length (filter (\<lambda>p. m \<le> p) ps)" by simp_all
qed

section \<open>Properties of the settlement engine\<close>

text \<open>C34 An UpDown payout vector never pays out more than the two pools.  When the price is
  unchanged or a pool is empty every participant gets exactly the stake back; otherwise the
  payouts and the protocol fee together stay within the pot and leave less than one unit of
  rounding dust per winner, losers get nothing, and the winning side is the one the price
  moved to.\<close>

theorem updown_payout_conservation:
  assumes "pools_match ps u d" "pred_option (\<lambda>b. b \<le> 10000) bps"
    and "compute_updown_payouts ps p0 p1 u d bps = Inr xs"
  shows "if p0 = p1 \<or> u = 0 \<or> d = 0
         then xs = map updown_refund ps \<and> sum_list (map ux_payout xs) = u + d
         else (\<exists>dw dl f.
           compute_updown_fee (if p1 > p0 then u else d) (if p1 > p0 then d else u) bps = Inr (dw, dl, f) \<and>
           0 \<le> f \<and>
           sum_list (map ux_payout xs) + f \<le> u + d \<and>
           u + d < sum_list (map ux_payout xs) + f + int (length (filter ux_is_winner xs)) \<and>
           map ux_is_winner xs = map (\<lambda>p. up_side_up p = (p1 > p0)) ps \<and>
           (\<forall>x\<in>set xs. \<not> ux_is_winner x \<longrightarrow> ux_payout x = 0))"
  using assms
proof (cases rule: updown_payouts_cases)
  case refund
  have "sum_list (map ux_payout xs) = u + d"
    unfolding refund(1) using pools_match_total[OF assms(1)] by (simp add: updown_refund_def comp_def)
  with refund show ?thesis by simp
next
  case (settled side w l dw dl f)
  let ?ss = "map up_amount (filter (\<lambda>p. up_side_up p = side) ps)"
  have w: "sum_list ?ss = w"
    using assms(1) settled(5) by (cases side) (auto simp: pools_match_def)
  have pay: "sum_list (map ux_payout xs) = sum_list (map (\<lambda>s. s * (dw + dl) div w) ?ss)"
    unfolding settled(7) by (rule winners_payout_sum)
  have win: "length (filter ux_is_winner xs) = length ?ss"
    unfolding settled(7) by (simp add: filter_map comp_def)
  have pot: "w + l = u + d" using settled(5) by (cases side) auto
  have "\<not> (p0 = p1 \<or> u = 0 \<or> d = 0)" using settled(2-5) by (cases side) auto
  moreover have "0 \<le> f" using pure_fee.fee_split[OF _ _ assms(2) settled(6)] settled(3,4) by simp
  moreover have "w = (if p1 > p0 then u else d) \<and> l = (if p1 > p0 then d else u)"
    using settled(1,5) by (cases side) auto
  ultimately show ?thesis
    using settled pure_fee.shares_within_pot[OF settled(3) _ assms(2) settled(6) w] pay win pot
    by (auto simp: comp_def)
qed

theorem updown_payout_conservation_witness:
  "let ps = [\<lparr>up_index = 0, up_amount = 100, up_side_up = True\<rparr>,
             \<lparr>up_index = 1, up_amount = 201, up_side_up = True\<rparr>,
             \<lparr>up_index = 2, up_amount = 150, up_side_up = False\<rparr>];
       xs = [\<lparr>ux_index = 0, ux_stake = 100, ux_payout = 148, ux_is_winner = True, ux_is_refund = False\<rparr>,
             \<lparr>ux_index = 1, ux_stake = 201, ux_payout = 298, ux_is_winner = True, ux_is_refund = False\<rparr>,
             \<lparr>ux_index = 2, ux_stake = 150, ux_payout = 0, ux_is_winner = False, ux_is_refund = False\<rparr>]
   in compute_updown_payouts ps 10 15 301 150 (Some 100) = Inr xs \<and>
      (\<exists>f. sum_list (map ux_payout xs) + f \<le> 451 \<and> 451 < sum_list (map ux_payout xs) + f + 2)"
proof -
  let ?ps = "[\<lparr>up_index = 0, up_amount = 100, up_side_up = True\<rparr>,
             \<lparr>up_index = 1, up_amount = 201, up_side_up = True\<rparr>,
             \<lparr>up_index = 2, up_amount = 150, up_side_up = False\<rparr>]"
  let ?xs = "[\<lparr>ux_index = 0, ux_stake = 100, ux_payout = 148, ux_is_winner = True, ux_is_refund = False\<rparr>,
             \<lparr>ux_index = 1, ux_stake = 201, ux_payout = 298, ux_is_winner = True, ux_is_refund = False\<rparr>,
             \<lparr>ux_index = 2, ux_stake = 150, ux_payout = 0, ux_is_winner = False, ux_is_refund = False\<rparr>]"
  have run: "compute_updown_payouts ?ps 10 15 301 150 (Some 100) = Inr ?xs"
    by (simp add: compute_updown_payouts_def classify_price_direction_def is_one_sided_pool_def
        compute_updown_fee_def compute_updown_winner_payout_def payout_add_def payout_mul_def
        checked_add_def checked_mul_def checked_sub_def checked_div_def in_i128_def BPS_DENOMINATOR_def
        sdiv_nonneg)
  have m: "pools_match ?ps 301 150" by (simp add: pools_match_def)
  from updown_payout_conservation[OF m _ run] run show ?thesis by auto
qed

text \<open>C35 A Precision payout vector is exact.  As soon as one entry is revealed, the payouts of
  any scoring and payout policy add up to the pot less the protocol fee, and the fee of
  \<open>compute_precision_fee\<close> is all that is missing from the stakes.\<close>

theorem precision_payout_conservation:
  assumes "indexed es" "\<forall>e\<in>set es. 0 \<le> pe_amount e" "u128_prices es fp"
    and "in_i128 (sum_list (map pe_amount es))"
    and "pred_option (\<lambda>b. b \<le> MAX_PROTOCOL_FEE_BPS) bps"
    and "e \<in> set es" "pe_revealed e"
    and "compute_precision_payouts_with_policy es fp bps pol pp = Inr xs"
  shows "\<exists>f. compute_precision_fee (sum_list (map pe_amount es)) bps
               = Inr (sum_list (map pe_amount es) - f, f) \<and>
             0 \<le> f \<and> sum_list (map px_payout xs) + f = sum_list (map pe_amount es)"
proof -
  let ?pot = "sum_list (map pe_amount es)"
  have pot: "pw_total_pot (find_precision_winners_with_policy es fp pol) = ?pot"
    using winners_pot total_pot_precision_exact[of "map pe_amount es"] assms(2,4) by simp
  have nn: "0 \<le> ?pot" using assms(2) by (intro sum_list_nonneg) auto
  have ws: "pw_winners (find_precision_winners_with_policy es fp pol) \<noteq> []"
    using winners_nonempty[OF assms(3), of pol] assms(6,7) by auto
  have bps: "pred_option (\<lambda>b. b \<le> 10000) bps"
    using assms(5) by (cases bps) (simp_all add: MAX_PROTOCOL_FEE_BPS_def)
  show ?thesis
  proof (cases "?pot = 0")
    case True
    then have "map px_payout xs = map (\<lambda>e. 0) es"
      using assms(8) pot ws
      by (auto simp: compute_precision_payouts_with_policy_def precision_entry_payout_def Let_def)
    with True show ?thesis
      by (auto simp: compute_precision_fee_def sum_list_triv split: option.splits)
  next
    case False
    then obtain d f where df: "compute_precision_fee ?pot bps = Inr (d, f)"
      and d: "sum_list (map px_payout xs) = d"
      using precision_payouts_settled[OF assms(1,2,3,5,8,6,7)] pot nn by auto
    with precision_fee_split[OF nn bps df] show ?thesis by auto
  qed
qed

theorem precision_payout_conservation_witness:
  "let es = [\<lparr>pe_index = 0, pe_price = 2297, pe_amount = 100, pe_revealed = True\<rparr>,
             \<lparr>pe_index = 1, pe_price = 2299, pe_amount = 151, pe_revealed = True\<rparr>,
             \<lparr>pe_index = 2, pe_price = 2298, pe_amount = 50, pe_revealed = False\<rparr>];
       xs = [precision_entry_payout (es ! 0) 148 True False,
             precision_entry_payout (es ! 1) 147 True False,
             precision_entry_payout (es ! 2) 0 False False]
   in compute_precision_payouts es 2298 (Some 200) = Inr xs \<and>
      (\<exists>f. sum_list (map px_payout xs) + f = 301)"
proof -
  let ?es = "[\<lparr>pe_index = 0, pe_price = 2297, pe_amount = 100, pe_revealed = True\<rparr>,
             \<lparr>pe_index = 1, pe_price = 2299, pe_amount = 151, pe_revealed = True\<rparr>,
             \<lparr>pe_index = 2, pe_price = 2298, pe_amount = 50, pe_revealed = False\<rparr>]"
  let ?xs = "[precision_entry_payout (?es ! 0) 148 True False,
             precision_entry_payout (?es ! 1) 147 True False,
             precision_entry_payout (?es ! 2) 0 False False]"
  have run: "compute_precision_payouts_with_policy ?es 2298 (Some 200) default_scoring Equal = Inr ?xs"
    by (simp add: compute_precision_payouts_with_policy_def find_precision_winners_with_policy_def
        default_scoring_def entry_score_def abs_diff_def wins_with_def saturating_add_def
        compute_precision_fee_def split_pot_among_winners_def index_or_trap_def
        checked_add_def checked_mul_def checked_sub_def in_i128_def BPS_DENOMINATOR_def
        sdiv_nonneg smod_nonneg Let_def)
  have "\<exists>f. compute_precision_fee (sum_list (map pe_amount ?es)) (Some 200)
               = Inr (sum_list (map pe_amount ?es) - f, f) \<and>
             0 \<le> f \<and> sum_list (map px_payout ?xs) + f = sum_list (map pe_amount ?es)"
    by (rule precision_payout_conservation[OF _ _ _ _ _ _ _ run, of "?es ! 0"])
       (simp_all add: indexed_def u128_prices_def u128_max_def in_i128_def MAX_PROTOCOL_FEE_BPS_def
          upt_rec)
  with run show ?thesis by (auto simp: compute_precision_payouts_def)
qed

text \<open>When nobody revealed, every entry of a Precision round with a positive pot is refunded
  its own stake: the payout vector is the stake vector, nobody is a winner, no fee is taken.\<close>

theorem precision_unrevealed_refund:
  assumes "\<forall>e\<in>set es. 0 \<le> pe_amount e \<and> \<not> pe_revealed e" "u128_prices es fp"
    and "in_i128 (sum_list (map pe_amount es))" "0 < sum_list (map pe_amount es)"
  shows "\<exists>xs. compute_precision_payouts_with_policy es fp bps pol pp = Inr xs \<and>
           map px_payout xs = map pe_amount es \<and>
           (\<forall>x\<in>set xs. px_is_refund x \<and> \<not> px_is_winner x)"
proof -
  have "pw_total_pot (find_precision_winners_with_policy es fp pol) = sum_list (map pe_amount es)"
    using winners_pot total_pot_precision_exact[of "map pe_amount es"] assms(1,3) by simp
  moreover have "pw_winners (find_precision_winners_with_policy es fp pol) = []"
    using winners_nonempty[OF assms(2), of pol] assms(1) by simp
  ultimately show ?thesis
    using assms(4) by (simp add: compute_precision_payouts_with_policy_def precision_entry_payout_def)
qed

theorem precision_unrevealed_refund_witness:
  "\<exists>xs. compute_precision_payouts_with_policy
        [\<lparr>pe_index = 0, pe_price = 0, pe_amount = 7, pe_revealed = False\<rparr>,
         \<lparr>pe_index = 1, pe_price = 0, pe_amount = 5, pe_revealed = False\<rparr>] 2298 (Some 200)
        default_scoring StakeWeighted = Inr xs \<and> map px_payout xs = [7, 5]"
  using precision_unrevealed_refund[of
        "[\<lparr>pe_index = 0, pe_price = 0, pe_amount = 7, pe_revealed = False\<rparr>,
         \<lparr>pe_index = 1, pe_price = 0, pe_amount = 5, pe_revealed = False\<rparr>]" 2298 "Some 200"
        default_scoring StakeWeighted]
  by (auto simp: u128_prices_def u128_max_def in_i128_def)

text \<open>Under the default absolute-distance scoring the winners are exactly the revealed entries
  whose prediction is nearest to the settlement price, ties included; an unrevealed entry
  never wins, and winners and losers partition the entries.\<close>

theorem precision_winners_exact:
  assumes "u128_prices es fp" "indexed es"
  shows "set (pw_winners (find_precision_winners es fp)) =
           pe_index ` {e \<in> set es. pe_revealed e \<and>
              (\<forall>e'\<in>set es. pe_revealed e' \<longrightarrow> abs_diff (pe_price e) fp \<le> abs_diff (pe_price e') fp)} \<and>
         set (pw_losers (find_precision_winners es fp)) =
           {0..<length es} - set (pw_winners (find_precision_winners es fp))"
proof
  let ?d = "\<lambda>e. abs_diff (pe_price e) fp" and ?S = "{e \<in> set es. pe_revealed e}"
  have score: "entry_score (sp_mode default_scoring) fp = ?d"
    by (rule ext) (simp add: entry_score_def default_scoring_def)
  have "(?d e = Min (?d ` ?S)) = (\<forall>e'\<in>?S. ?d e \<le> ?d e')" if "e \<in> ?S" for e
  proof -
    have "?d e = Min (?d ` ?S) \<longleftrightarrow> Min (?d ` ?S) = ?d e" by auto
    also have "\<dots> \<longleftrightarrow> (\<forall>x\<in>?d ` ?S. ?d e \<le> x)"
      using that by (subst Min_eq_iff) auto
    finally show ?thesis by simp
  qed
  then show "set (pw_winners (find_precision_winners es fp)) =
           pe_index ` {e \<in> set es. pe_revealed e \<and>
              (\<forall>e'\<in>set es. pe_revealed e' \<longrightarrow> abs_diff (pe_price e) fp \<le> abs_diff (pe_price e') fp)}"
    unfolding find_precision_winners_def winners_set score
    by (auto simp: wins_with_def default_scoring_def)
  show "set (pw_losers (find_precision_winners es fp)) =
           {0..<length es} - set (pw_winners (find_precision_winners es fp))"
    using assms(2)
    by (auto simp: find_precision_winners_def find_precision_winners_with_policy_def indexed_def Let_def
             split: prod.splits)
qed

theorem precision_winners_exact_witness:
  "let es = [\<lparr>pe_index = 0, pe_price = 2100, pe_amount = 5, pe_revealed = True\<rparr>,
             \<lparr>pe_index = 1, pe_price = 2300, pe_amount = 5, pe_revealed = True\<rparr>,
             \<lparr>pe_index = 2, pe_price = 2200, pe_amount = 5, pe_revealed = False\<rparr>]
   in pw_winners (find_precision_winners es 2200) = [0, 1] \<and>
      {0, 1} = pe_index ` {e \<in> set es. pe_revealed e \<and>
        (\<forall>e'\<in>set es. pe_revealed e' \<longrightarrow> abs_diff (pe_price e) 2200 \<le> abs_diff (pe_price e') 2200)}"
proof -
  let ?es = "[\<lparr>pe_index = 0, pe_price = 2100, pe_amount = 5, pe_revealed = True\<rparr>,
             \<lparr>pe_index = 1, pe_price = 2300, pe_amount = 5, pe_revealed = True\<rparr>,
             \<lparr>pe_index = 2, pe_price = 2200, pe_amount = 5, pe_revealed = False\<rparr>]"
  have run: "pw_winners (find_precision_winners ?es 2200) = [0, 1]" by code_simp
  have "u128_prices ?es 2200" "indexed ?es"
    by (simp_all add: u128_prices_def u128_max_def indexed_def upt_rec)
  note conjunct1[OF precision_winners_exact[OF this]]
  moreover have "set (pw_winners (find_precision_winners ?es 2200)) = {0, 1}"
    by (subst run) simp
  ultimately show ?thesis unfolding Let_def using run by (simp only: simp_thms)
qed

text \<open>With a fee rate within the protocol's cap, none of the unchecked index operations of the
  Precision payout engine can panic: the result is a payout vector or a returned error.\<close>

theorem precision_payouts_no_panic:
  assumes "indexed es" "\<forall>e\<in>set es. 0 \<le> pe_amount e" "u128_prices es fp"
    and fee: "pred_option (\<lambda>b. b \<le> MAX_PROTOCOL_FEE_BPS) bps"
  shows "compute_precision_payouts_with_policy es fp bps pol pp \<noteq> Inl Trap"
proof
  let ?r = "find_precision_winners_with_policy es fp pol"
  assume trap: "compute_precision_payouts_with_policy es fp bps pol pp = Inl Trap"
  then have ne: "pw_winners ?r \<noteq> []" and pot: "0 < pw_total_pot ?r"
    by (auto simp: compute_precision_payouts_with_policy_def Let_def split: if_splits)
  have in_range: "i < length es" if "i \<in> set (pw_winners ?r)" for i
    using that assms(1) unfolding winners_set by (auto simp: in_set_conv_nth index_of_entry)
  have stakes: "map_res (\<lambda>i. and_then (index_or_trap es i) (\<lambda>e. Inr (pe_amount e))) (pw_winners ?r)
      \<noteq> Inl Trap"
    by (auto dest!: map_res_Inl simp: res_simps index_or_trap_def in_range)
  have pay: "map_res (\<lambda>e. case position_of (pe_index e) (pw_winners ?r) of
                 Some p \<Rightarrow> and_then (index_or_trap ps p) (\<lambda>payout.
                             Inr (precision_entry_payout e payout True False))
               | None \<Rightarrow> Inr (precision_entry_payout e 0 False False)) es \<noteq> Inl Trap"
    if "length ps = length (pw_winners ?r)" for ps
    using that
    by (auto dest!: map_res_Inl position_of_Some simp: res_simps index_or_trap_def split: option.splits if_splits)
  from trap ne pot obtain d f where df: "compute_precision_fee (pw_total_pot ?r) bps = Inr (d, f)"
    by (auto simp: compute_precision_payouts_with_policy_def Let_def res_simps)
  have d: "0 < d" by (rule precision_fee_pos[OF pot fee df])
  show False
  proof (cases pp)
    case Equal
    have "length ps = length (pw_winners ?r)"
      if "split_pot_among_winners d (length (pw_winners ?r)) = Inr ps" for ps
      using split_equal_correct(1)[OF d _ that] ne by simp
    with Equal trap ne pot df pay show False
      by (auto simp: compute_precision_payouts_with_policy_def Let_def res_simps)
  next
    case StakeWeighted
    have "length ps = length (pw_winners ?r)"
      if "map_res (\<lambda>i. and_then (index_or_trap es i) (\<lambda>e. Inr (pe_amount e))) (pw_winners ?r) = Inr ss"
        "split_pot_stake_weighted d ss = Inr ps" for ss ps
    proof -
      note ss = winner_stakes_Inr[OF that(1) assms(2)]
      have "ss \<noteq> []" using ss(1) ne by auto
      from weighted_split.one_share_each[OF d this ss(2) that(2)] ss(1) show ?thesis by simp
    qed
    moreover have "split_pot_stake_weighted d ss \<noteq> Inl Trap"
      if "map_res (\<lambda>i. and_then (index_or_trap es i) (\<lambda>e. Inr (pe_amount e))) (pw_winners ?r) = Inr ss" for ss
      by (rule split_weighted_not_Trap) (rule winner_stakes_Inr(2)[OF that assms(2)])
    ultimately show False
      using StakeWeighted trap ne pot df pay stakes
      by (auto simp: compute_precision_payouts_with_policy_def Let_def res_simps)
  qed
qed

theorem precision_payouts_no_panic_witness:
  "compute_precision_payouts_with_policy
        [\<lparr>pe_index = 0, pe_price = 10, pe_amount = 7, pe_revealed = True\<rparr>] 12 (Some 1000)
        default_scoring StakeWeighted \<noteq> Inl Trap"
  by (rule precision_payouts_no_panic)
     (simp_all add: indexed_def u128_prices_def u128_max_def MAX_PROTOCOL_FEE_BPS_def)

text \<open>The hand-written insertion sort of the multi-feed path sorts, and the median taken from
  its result is a median: at least half of the observations lie on either side of it.\<close>

theorem median_of_sorted_prices:
  assumes "median_of_sorted (sort_prices_in_place ps) = Some m" "\<forall>p\<in>set ps. p \<le> u128_max div 2"
  shows "sorted (sort_prices_in_place ps) \<and> mset (sort_prices_in_place ps) = mset ps \<and>
         length ps \<le> 2 * length (filter (\<lambda>p. p \<le> m) ps) \<and>
         length ps \<le> 2 * length (filter (\<lambda>p. m \<le> p) ps)"
  using assms median_rank[of ps m] by (simp add: sort_prices_sorts)

theorem median_of_sorted_prices_witness:
  "median_of_sorted (sort_prices_in_place [400, 100, 300, 200]) = Some 250 \<and>
   sorted (sort_prices_in_place [400, 100, 300, 200])"
proof -
  have m: "median_of_sorted (sort_prices_in_place [400, 100, 300, 200]) = Some 250"
    by (simp add: sort_prices_sorts median_of_sorted_def usaturating_add_def u128_max_def)
  with median_of_sorted_prices[OF m] show ?thesis by (simp add: u128_max_def)
qed

text \<open>The oracle deviation is the distance in basis points rounded down, and it is refused only
  for a zero reference or when it does not fit its width; so the guard \<open>bps > max\<close> fires
  exactly when the distance is at least \<open>max + 1\<close> basis points of the reference.\<close>

theorem deviation_bps_guard:
  assumes "compute_deviation_bps price reference = Inr d"
  shows "d = abs_diff price reference * 10000 div reference \<and>
         (max_bps < d \<longleftrightarrow> (max_bps + 1) * reference \<le> abs_diff price reference * 10000)"
proof -
  have r: "0 < reference" and d: "d = abs_diff price reference * 10000 div reference"
    using assms
    by (auto simp: compute_deviation_bps_def abs_diff_def Let_def res_simps split: if_splits)
  have "max_bps < d \<longleftrightarrow> max_bps + 1 \<le> d" by auto
  also have "\<dots> \<longleftrightarrow> (max_bps + 1) * reference \<le> abs_diff price reference * 10000"
    unfolding d by (rule less_eq_div_iff_mult_less_eq[OF r])
  finally show ?thesis using d by simp
qed

theorem deviation_bps_guard_witness:
  "compute_deviation_bps 9500000 10000000 = Inr 500 \<and>
   (499 < (500::nat) \<longleftrightarrow> (499 + 1) * (10000000::nat) \<le> abs_diff 9500000 10000000 * 10000)"
proof -
  have run: "compute_deviation_bps 9500000 10000000 = Inr 500"
    by (simp add: compute_deviation_bps_def uchecked_sub_def uchecked_mul_def u128_max_def u32_max_def)
  from deviation_bps_guard[OF run, of 499] run show ?thesis by blast
qed

text \<open>The checked arithmetic of the payout path is 128-bit two's-complement arithmetic: for
  operands read from 128-bit words, \<open>payout_add\<close> and \<open>payout_mul\<close> answer exactly when the
  machine operation does not wrap, with the machine's value, and otherwise report
  \<open>PayoutOverflow\<close>.\<close>

theorem payout_arithmetic_is_i128:
  fixes a b :: "128 word"
  shows "payout_add (sint a) (sint b) =
           (if sint (a + b) = sint a + sint b then Inr (sint (a + b)) else Inl (Fail PayoutOverflow)) \<and>
         payout_mul (sint a) (sint b) =
           (if sint (a * b) = sint a * sint b then Inr (sint (a * b)) else Inl (Fail PayoutOverflow))"
proof -
  have add: "sint (a + b) = sint a + sint b \<longleftrightarrow> in_i128 (sint a + sint b)"
    using sint_word_of_int_i128[of "sint a + sint b"] in_i128_sint[of "a + b"] by auto
  have mul: "sint (a * b) = sint a * sint b \<longleftrightarrow> in_i128 (sint a * sint b)"
    using sint_word_of_int_i128[of "sint a * sint b"] in_i128_sint[of "a * b"] by auto
  show ?thesis
    using add mul by (auto simp: payout_add_def checked_add_def payout_mul_def checked_mul_def)
qed

end
