(* ===== verification/Configuration.thy ===== *)
theory Configuration
  imports Insurance Settlement_Math
begin

text \<open>
  \<open>contracts/src/config.rs\<close>: the economic configuration.  Direct setters, the timelocked
  changes (schedule, apply, cancel), round templates, the protocol fee under its two
  incidence models, and the treasury.  The fee functions keep the fee-schedule contract
  of the pure engine, collecting a fee splits it between treasury and insurance fund
  without loss, and a scheduled change takes effect only after its timelock and only with
  a value its validator accepts.
\<close>

definition MIN_CAP_VALUE :: int where "MIN_CAP_VALUE = 1"
definition MAX_MIN_PARTICIPANTS :: nat where "MAX_MIN_PARTICIPANTS = 10000"
definition MAX_PRECISION_PARTICIPANTS_LIMIT :: nat where "MAX_PRECISION_PARTICIPANTS_LIMIT = 10000"
definition MIN_ORACLE_STALE_THRESHOLD :: nat where "MIN_ORACLE_STALE_THRESHOLD = 60"
definition MAX_ORACLE_STALE_THRESHOLD :: nat where "MAX_ORACLE_STALE_THRESHOLD = 86400"
definition MAX_BET_WINDOW_LEDGERS :: nat where "MAX_BET_WINDOW_LEDGERS = 1440"
definition MAX_RUN_WINDOW_LEDGERS :: nat where "MAX_RUN_WINDOW_LEDGERS = 2880"
definition MAX_CLOSE_BUFFER_LEDGERS :: nat where "MAX_CLOSE_BUFFER_LEDGERS = 1440"
definition MAX_ORACLE_DEVIATION_BPS :: nat where "MAX_ORACLE_DEVIATION_BPS = 100000"
definition MAX_ORACLE_TIMESTAMP_SKEW :: nat where "MAX_ORACLE_TIMESTAMP_SKEW = 86400"
definition MIN_ARCHIVE_RETENTION :: nat where "MIN_ARCHIVE_RETENTION = 1"
definition MAX_ARCHIVE_RETENTION :: nat where "MAX_ARCHIVE_RETENTION = 10000"
definition MIN_PENDING_WINNINGS_EXPIRY :: nat where "MIN_PENDING_WINNINGS_EXPIRY = 128"
definition MAX_PENDING_WINNINGS_EXPIRY :: nat where "MAX_PENDING_WINNINGS_EXPIRY = 1000000"
definition CONFIG_TIMELOCK_LEDGERS :: nat where "CONFIG_TIMELOCK_LEDGERS = 1440"

lemmas config_bounds =
  MIN_CAP_VALUE_def MAX_MIN_PARTICIPANTS_def MAX_PRECISION_PARTICIPANTS_LIMIT_def
  MIN_ORACLE_STALE_THRESHOLD_def MAX_ORACLE_STALE_THRESHOLD_def MAX_BET_WINDOW_LEDGERS_def
  MAX_RUN_WINDOW_LEDGERS_def MAX_CLOSE_BUFFER_LEDGERS_def MAX_ORACLE_DEVIATION_BPS_def
  MAX_ORACLE_TIMESTAMP_SKEW_def MIN_ARCHIVE_RETENTION_def MAX_ARCHIVE_RETENTION_def
  MIN_PENDING_WINNINGS_EXPIRY_def MAX_PENDING_WINNINGS_EXPIRY_def CONFIG_TIMELOCK_LEDGERS_def

definition upd_config :: "(config \<Rightarrow> config) \<Rightarrow> store \<Rightarrow> store" where
  "upd_config f s = s\<lparr>s_config := f (s_config s)\<rparr>"

definition upd_orc :: "(oracle_store \<Rightarrow> oracle_store) \<Rightarrow> store \<Rightarrow> store" where
  "upd_orc f s = s\<lparr>s_orc := f (s_orc s)\<rparr>"

section \<open>Validators\<close>

definition validate_pending_winnings_expiry :: "nat \<Rightarrow> unit res" where
  "validate_pending_winnings_expiry ledgers =
     (if ledgers \<noteq> 0 \<and> (ledgers < MIN_PENDING_WINNINGS_EXPIRY \<or> ledgers > MAX_PENDING_WINNINGS_EXPIRY)
      then Inl (Fail InvalidDuration) else Inr ())"

definition validate_round_template :: "nat \<Rightarrow> nat option \<Rightarrow> unit res" where
  "validate_round_template start_price mode =
     (if start_price < MIN_START_PRICE \<or> start_price > MAX_START_PRICE then Inl (Fail InvalidStartPrice)
      else case mode of
             Some m \<Rightarrow> if m > 1 then Inl (Fail InvalidMode) else Inr ()
           | None \<Rightarrow> Inr ())"

definition validate_windows :: "nat \<Rightarrow> nat \<Rightarrow> unit res" where
  "validate_windows bet_ledgers run_ledgers =
     (if bet_ledgers = 0 \<or> run_ledgers = 0 then Inl (Fail InvalidDuration)
      else if bet_ledgers > MAX_BET_WINDOW_LEDGERS \<or> run_ledgers > MAX_RUN_WINDOW_LEDGERS
      then Inl (Fail WindowOutOfRange)
      else if bet_ledgers \<ge> run_ledgers then Inl (Fail InvalidDuration)
      else Inr ())"

definition validate_close_buffer_ledgers :: "nat \<Rightarrow> unit res" where
  "validate_close_buffer_ledgers buffer_ledgers =
     (if buffer_ledgers > MAX_CLOSE_BUFFER_LEDGERS then Inl (Fail WindowOutOfRange) else Inr ())"

definition validate_max_stake :: "int option \<Rightarrow> unit res" where
  "validate_max_stake max_amount =
     (case max_amount of
        Some v \<Rightarrow> if v < MIN_CAP_VALUE then Inl (Fail InvalidBetAmount) else Inr ()
      | None \<Rightarrow> Inr ())"

definition validate_min_bet :: "int option \<Rightarrow> unit res" where
  "validate_min_bet min_amount =
     (case min_amount of
        Some v \<Rightarrow> if v < MIN_CAP_VALUE then Inl (Fail InvalidBetAmount) else Inr ()
      | None \<Rightarrow> Inr ())"

definition validate_oracle_stale_threshold :: "nat \<Rightarrow> unit res" where
  "validate_oracle_stale_threshold seconds =
     (if MIN_ORACLE_STALE_THRESHOLD \<le> seconds \<and> seconds \<le> MAX_ORACLE_STALE_THRESHOLD
      then Inr () else Inl (Fail InvalidDuration))"

definition validate_oracle_timestamp_skew :: "nat \<Rightarrow> unit res" where
  "validate_oracle_timestamp_skew seconds =
     (if seconds \<le> MAX_ORACLE_TIMESTAMP_SKEW then Inr () else Inl (Fail InvalidDuration))"

definition validate_oracle_max_deviation_bps :: "nat option \<Rightarrow> unit res" where
  "validate_oracle_max_deviation_bps bps =
     (case bps of
        Some v \<Rightarrow> if v = 0 \<or> v > MAX_ORACLE_DEVIATION_BPS then Inl (Fail WindowOutOfRange) else Inr ()
      | None \<Rightarrow> Inr ())"

definition validate_protocol_fee_bps :: "nat option \<Rightarrow> unit res" where
  "validate_protocol_fee_bps bps =
     (case bps of
        Some v \<Rightarrow> if v = 0 \<or> v > MAX_PROTOCOL_FEE_BPS then Inl (Fail InvalidProtocolFeeBps) else Inr ()
      | None \<Rightarrow> Inr ())"

section \<open>Reading and describing the configuration\<close>

definition read_fee_model :: "store \<Rightarrow> fee_model" where
  "read_fee_model s = unwrap_or (c_fee_model (s_config s)) FeeOnPot"

definition read_precision_payout_policy :: "store \<Rightarrow> payout_policy" where
  "read_precision_payout_policy s =
     (if unwrap_or (c_payout_policy (s_config s)) 0 = 1 then StakeWeighted else Equal)"

definition get_dispute_ledgers :: "store \<Rightarrow> nat" where
  "get_dispute_ledgers s = unwrap_or (c_dispute_ledgers (s_config s)) 0"

definition get_max_precision_participants :: "store \<Rightarrow> nat" where
  "get_max_precision_participants s =
     unwrap_or (c_max_precision_participants (s_config s)) DEFAULT_MAX_PRECISION_PARTICIPANTS"

definition current_config_payload :: "store \<Rightarrow> config_kind \<Rightarrow> config_payload" where
  "current_config_payload s kind =
     (let c = s_config s; r = s_orc s in
      case kind of
        KWindows \<Rightarrow> PWindows (unwrap_or (c_bet_window c) DEFAULT_BET_WINDOW_LEDGERS)
                             (unwrap_or (c_run_window c) DEFAULT_RUN_WINDOW_LEDGERS)
      | KMaxStake \<Rightarrow> PMaxStake (c_max_stake c)
      | KMaxUserRoundExposure \<Rightarrow> PMaxUserRoundExposure (c_max_exposure c)
      | KMaxPendingWinnings \<Rightarrow> PMaxPendingWinnings (c_max_pending c)
      | KOracleStaleThreshold \<Rightarrow> POracleStaleThreshold (stale_threshold s)
      | KOracleMaxDeviationBps \<Rightarrow> POracleMaxDeviationBps (o_max_deviation_bps r)
      | KProtocolFeeBps \<Rightarrow> PProtocolFeeBps (c_fee_bps c)
      | KMinParticipants \<Rightarrow> PMinParticipants (c_min_participants c)
      | KMaxPrecisionParticipants \<Rightarrow> PMaxPrecisionParticipants (get_max_precision_participants s)
      | KMintLimit \<Rightarrow> PMintLimit (unwrap_or (c_mint_limit c) 0)
      | KArchiveRetention \<Rightarrow> PArchiveRetention (unwrap_or (c_archive_retention c) DEFAULT_ARCHIVE_RETENTION)
      | KCloseBufferLedgers \<Rightarrow> PCloseBufferLedgers (unwrap_or (c_close_buffer c) 0)
      | KOracleTimestampSkew \<Rightarrow>
          POracleTimestampSkew (unwrap_or (o_timestamp_skew r) DEFAULT_ORACLE_TIMESTAMP_SKEW)
      | KPendingWinningsExpiry \<Rightarrow> PPendingWinningsExpiry (unwrap_or (c_pending_expiry c) 0)
      | KMinBet \<Rightarrow> PMinBet (c_min_bet c)
      | KEpochMintBudget \<Rightarrow> PEpochMintBudget (unwrap_or (c_epoch_budget c) 0)
      | KPrecisionPayoutPolicy \<Rightarrow> PPrecisionPayoutPolicy (unwrap_or (c_payout_policy c) 0)
      | KDisputeLedgers \<Rightarrow> PDisputeLedgers (get_dispute_ledgers s)
      | KFeeModel \<Rightarrow> PFeeModel (read_fee_model s)
      | KEarlyCashoutBps \<Rightarrow> PEarlyCashoutBps (c_early_cashout_bps c))"

fun kind_code :: "config_kind \<Rightarrow> nat" where
  "kind_code KWindows = 0"
| "kind_code KMaxStake = 1"
| "kind_code KMaxUserRoundExposure = 2"
| "kind_code KMaxPendingWinnings = 3"
| "kind_code KOracleStaleThreshold = 4"
| "kind_code KOracleMaxDeviationBps = 5"
| "kind_code KProtocolFeeBps = 6"
| "kind_code KMinParticipants = 7"
| "kind_code KMaxPrecisionParticipants = 8"
| "kind_code KMintLimit = 9"
| "kind_code KArchiveRetention = 10"
| "kind_code KCloseBufferLedgers = 11"
| "kind_code KOracleTimestampSkew = 12"
| "kind_code KEpochMintBudget = 13"
| "kind_code KPendingWinningsExpiry = 14"
| "kind_code KPrecisionPayoutPolicy = 15"
| "kind_code KMinBet = 16"
| "kind_code KDisputeLedgers = 17"
| "kind_code KFeeModel = 18"
| "kind_code KEarlyCashoutBps = 19"

fun fee_model_code :: "fee_model \<Rightarrow> nat" where
  "fee_model_code FeeOnPot = 0"
| "fee_model_code FeeOnWinnings = 1"

definition vnat_option :: "nat option \<Rightarrow> ev_value" where
  "vnat_option x = (case x of None \<Rightarrow> VNone | Some n \<Rightarrow> VNat n)"

definition vint_option :: "int option \<Rightarrow> ev_value" where
  "vint_option x = (case x of None \<Rightarrow> VNone | Some n \<Rightarrow> VInt n)"

definition payload_values :: "config_payload \<Rightarrow> ev_value list" where
  "payload_values p =
     (case p of
        PWindows b r \<Rightarrow> [VNat b, VNat r]
      | PMaxStake x \<Rightarrow> [vint_option x]
      | PMaxUserRoundExposure x \<Rightarrow> [vint_option x]
      | PMaxPendingWinnings x \<Rightarrow> [vint_option x]
      | POracleStaleThreshold n \<Rightarrow> [VNat n]
      | POracleMaxDeviationBps x \<Rightarrow> [vnat_option x]
      | PProtocolFeeBps x \<Rightarrow> [vnat_option x]
      | PMinParticipants x \<Rightarrow> [vnat_option x]
      | PMaxPrecisionParticipants n \<Rightarrow> [VNat n]
      | PMintLimit n \<Rightarrow> [VNat n]
      | PArchiveRetention n \<Rightarrow> [VNat n]
      | PCloseBufferLedgers n \<Rightarrow> [VNat n]
      | POracleTimestampSkew n \<Rightarrow> [VNat n]
      | PEpochMintBudget i \<Rightarrow> [VInt i]
      | PPendingWinningsExpiry n \<Rightarrow> [VNat n]
      | PPrecisionPayoutPolicy n \<Rightarrow> [VNat n]
      | PMinBet x \<Rightarrow> [vint_option x]
      | PDisputeLedgers n \<Rightarrow> [VNat n]
      | PFeeModel m \<Rightarrow> [VNat (fee_model_code m)]
      | PEarlyCashoutBps x \<Rightarrow> [vnat_option x])"

definition emit_config_updated :: "config_kind \<Rightarrow> config_payload \<Rightarrow> config_payload \<Rightarrow> store \<Rightarrow> store" where
  "emit_config_updated kind old_value new_value s =
     emit (''config'', ''updated'') (VNat (kind_code kind) # payload_values old_value @ payload_values new_value) s"

section \<open>Timelocked changes\<close>

text \<open>Writing one value, after its validator has accepted it.  A payload of another kind than the
  pending change's is \<open>InvalidMode\<close>, the last arm of the source's match.\<close>

definition apply_config_value :: "config_kind \<Rightarrow> config_payload \<Rightarrow> store \<Rightarrow> store res" where
  "apply_config_value kind payload s =
     (case payload of
        PWindows bet run \<Rightarrow>
          if kind \<noteq> KWindows then Inl (Fail InvalidMode)
          else and_then (validate_windows bet run) (\<lambda>_.
            Inr (emit (''windows'', ''updated'') [VNat bet, VNat run]
              (upd_config (\<lambda>c. c\<lparr>c_bet_window := Some bet, c_run_window := Some run\<rparr>) s)))
      | PMaxStake mx \<Rightarrow>
          if kind \<noteq> KMaxStake then Inl (Fail InvalidMode)
          else and_then (validate_max_stake mx) (\<lambda>_. Inr (upd_config (\<lambda>c. c\<lparr>c_max_stake := mx\<rparr>) s))
      | PCloseBufferLedgers buffer \<Rightarrow>
          if kind \<noteq> KCloseBufferLedgers then Inl (Fail InvalidMode)
          else and_then (validate_close_buffer_ledgers buffer) (\<lambda>_.
            Inr (upd_config (\<lambda>c. c\<lparr>c_close_buffer := Some buffer\<rparr>) s))
      | PMaxUserRoundExposure mx \<Rightarrow>
          if kind \<noteq> KMaxUserRoundExposure then Inl (Fail InvalidMode)
          else and_then (validate_max_stake mx) (\<lambda>_. Inr (upd_config (\<lambda>c. c\<lparr>c_max_exposure := mx\<rparr>) s))
      | PMaxPendingWinnings mx \<Rightarrow>
          if kind \<noteq> KMaxPendingWinnings then Inl (Fail InvalidMode)
          else and_then (validate_max_stake mx) (\<lambda>_. Inr (upd_config (\<lambda>c. c\<lparr>c_max_pending := mx\<rparr>) s))
      | POracleStaleThreshold seconds \<Rightarrow>
          if kind \<noteq> KOracleStaleThreshold then Inl (Fail InvalidMode)
          else and_then (validate_oracle_stale_threshold seconds) (\<lambda>_.
            Inr (upd_orc (\<lambda>r. r\<lparr>o_stale_threshold := Some seconds\<rparr>) s))
      | POracleMaxDeviationBps bps \<Rightarrow>
          if kind \<noteq> KOracleMaxDeviationBps then Inl (Fail InvalidMode)
          else and_then (validate_oracle_max_deviation_bps bps) (\<lambda>_.
            Inr (upd_orc (\<lambda>r. r\<lparr>o_max_deviation_bps := bps\<rparr>) s))
      | POracleTimestampSkew seconds \<Rightarrow>
          if kind \<noteq> KOracleTimestampSkew then Inl (Fail InvalidMode)
          else and_then (validate_oracle_timestamp_skew seconds) (\<lambda>_.
            Inr (upd_orc (\<lambda>r. r\<lparr>o_timestamp_skew := Some seconds\<rparr>) s))
      | PPendingWinningsExpiry ledgers \<Rightarrow>
          if kind \<noteq> KPendingWinningsExpiry then Inl (Fail InvalidMode)
          else and_then (validate_pending_winnings_expiry ledgers) (\<lambda>_.
            Inr (emit (''pending'', ''expiry'') [VNat ledgers]
              (upd_config (\<lambda>c. c\<lparr>c_pending_expiry := Some ledgers\<rparr>) s)))
      | PMinBet mn \<Rightarrow>
          if kind \<noteq> KMinBet then Inl (Fail InvalidMode)
          else and_then (validate_min_bet mn) (\<lambda>_. Inr (upd_config (\<lambda>c. c\<lparr>c_min_bet := mn\<rparr>) s))
      | PProtocolFeeBps bps \<Rightarrow>
          if kind \<noteq> KProtocolFeeBps then Inl (Fail InvalidMode)
          else and_then (validate_protocol_fee_bps bps) (\<lambda>_.
            Inr (emit (''protocol'', ''fee_bps'') [vnat_option bps]
              (upd_config (\<lambda>c. c\<lparr>c_fee_bps := bps\<rparr>) s)))
      | PPrecisionPayoutPolicy pol \<Rightarrow>
          if kind \<noteq> KPrecisionPayoutPolicy then Inl (Fail InvalidMode)
          else if pol > 1 then Inl (Fail InvalidMode)
          else Inr (upd_config (\<lambda>c. c\<lparr>c_payout_policy := Some pol\<rparr>) s)
      | PDisputeLedgers ledgers \<Rightarrow>
          if kind \<noteq> KDisputeLedgers then Inl (Fail InvalidMode)
          else if ledgers > MAX_DISPUTE_LEDGERS then Inl (Fail WindowOutOfRange)
          else Inr (upd_config (\<lambda>c. c\<lparr>c_dispute_ledgers := Some ledgers\<rparr>) s)
      | PFeeModel model \<Rightarrow>
          if kind \<noteq> KFeeModel then Inl (Fail InvalidMode)
          else Inr (upd_config (\<lambda>c. c\<lparr>c_fee_model := Some model\<rparr>) s)
      | PEpochMintBudget budget \<Rightarrow>
          if kind \<noteq> KEpochMintBudget then Inl (Fail InvalidMode)
          else if budget < 0 then Inl (Fail InvalidBetAmount)
          else Inr (upd_config (\<lambda>c. c\<lparr>c_epoch_budget := Some budget\<rparr>) s)
      | PMintLimit limit \<Rightarrow>
          if kind \<noteq> KMintLimit then Inl (Fail InvalidMode)
          else Inr (upd_config (\<lambda>c. c\<lparr>c_mint_limit := Some limit\<rparr>) s)
      | PArchiveRetention limit \<Rightarrow>
          if kind \<noteq> KArchiveRetention then Inl (Fail InvalidMode)
          else if \<not> (MIN_ARCHIVE_RETENTION \<le> limit \<and> limit \<le> MAX_ARCHIVE_RETENTION)
          then Inl (Fail WindowOutOfRange)
          else Inr (upd_config (\<lambda>c. c\<lparr>c_archive_retention := Some limit\<rparr>) s)
      | PMinParticipants mn \<Rightarrow>
          if kind \<noteq> KMinParticipants then Inl (Fail InvalidMode)
          else if (case mn of Some v \<Rightarrow> v = 0 \<or> v > MAX_MIN_PARTICIPANTS | None \<Rightarrow> False)
          then Inl (Fail InvalidMinParticipants)
          else Inr (upd_config (\<lambda>c. c\<lparr>c_min_participants := mn\<rparr>) s)
      | PMaxPrecisionParticipants mx \<Rightarrow>
          if kind \<noteq> KMaxPrecisionParticipants then Inl (Fail InvalidMode)
          else if mx = 0 \<or> mx > MAX_PRECISION_PARTICIPANTS_LIMIT then Inl (Fail InvalidPrecisionCap)
          else Inr (upd_config (\<lambda>c. c\<lparr>c_max_precision_participants := Some mx\<rparr>) s)
      | PEarlyCashoutBps bps \<Rightarrow>
          if kind \<noteq> KEarlyCashoutBps then Inl (Fail InvalidMode)
          else if (case bps of Some v \<Rightarrow> v = 0 \<or> v > MAX_PROTOCOL_FEE_BPS | None \<Rightarrow> False)
          then Inl (Fail InvalidProtocolFeeBps)
          else Inr (upd_config (\<lambda>c. c\<lparr>c_early_cashout_bps := bps\<rparr>) s))"

definition apply_config_payload :: "config_kind \<Rightarrow> config_payload \<Rightarrow> store \<Rightarrow> store res" where
  "apply_config_payload kind payload s =
     (let old_value = current_config_payload s kind in
      and_then (apply_config_value kind payload s) (\<lambda>s1.
      Inr (emit_config_updated kind old_value payload s1)))"

definition schedule_config_change :: "env \<Rightarrow> config_kind \<Rightarrow> config_payload \<Rightarrow> store \<Rightarrow> store res" where
  "schedule_config_change e kind payload s =
     and_then (admin_unpaused e s) (\<lambda>_.
     if c_scheduled (s_config s) kind \<noteq> None then Inl (Fail RoundAlreadyActive)
     else
       and_then (ok_or (uchecked_add u32_max (e_ledger e) CONFIG_TIMELOCK_LEDGERS) Overflow) (\<lambda>activation.
       Inr (emit (''config'', ''sched'') [VNat (kind_code kind), VNat activation]
         (upd_config (\<lambda>c. c\<lparr>c_scheduled := (c_scheduled c)(kind \<mapsto>
             \<lparr>pcc_payload = payload, pcc_activation_ledger = activation,
              pcc_scheduled_at_ledger = e_ledger e\<rparr>)\<rparr>) s))))"

definition apply_scheduled_changes :: "env \<Rightarrow> config_kind \<Rightarrow> store \<Rightarrow> store res" where
  "apply_scheduled_changes e kind s =
     and_then (require_supported_schema s) (\<lambda>_.
     and_then (ensure_normal_mode s) (\<lambda>_.
     and_then (ok_or (c_scheduled (s_config s) kind) CommitmentNotFound) (\<lambda>p.
     if e_ledger e < pcc_activation_ledger p then Inl (Fail RoundNotEnded)
     else
       and_then (apply_config_payload kind (pcc_payload p) s) (\<lambda>s1.
       Inr (emit (''config'', ''applied'') [VNat (kind_code kind), VNat (pcc_activation_ledger p)]
         (upd_config (\<lambda>c. c\<lparr>c_scheduled := (c_scheduled c)(kind := None)\<rparr>) s1))))))"

definition cancel_config_change :: "env \<Rightarrow> config_kind \<Rightarrow> store \<Rightarrow> store res" where
  "cancel_config_change e kind s =
     and_then (admin_gate e s) (\<lambda>_.
     and_then (ok_or (c_scheduled (s_config s) kind) CommitmentNotFound) (\<lambda>p.
     if e_ledger e \<ge> pcc_activation_ledger p then Inl (Fail RoundNotCancellable)
     else Inr (emit (''config'', ''cancel'') [VNat (kind_code kind), VNat (e_ledger e)]
       (upd_config (\<lambda>c. c\<lparr>c_scheduled := (c_scheduled c)(kind := None)\<rparr>) s))))"

definition schedule_windows :: "env \<Rightarrow> nat \<Rightarrow> nat \<Rightarrow> store \<Rightarrow> store res" where
  "schedule_windows e bet_ledgers run_ledgers s =
     and_then (require_supported_schema s) (\<lambda>_.
     and_then (validate_windows bet_ledgers run_ledgers) (\<lambda>_.
     schedule_config_change e KWindows (PWindows bet_ledgers run_ledgers) s))"

definition schedule_max_stake :: "env \<Rightarrow> int option \<Rightarrow> store \<Rightarrow> store res" where
  "schedule_max_stake e max_amount s =
     and_then (require_supported_schema s) (\<lambda>_.
     and_then (validate_max_stake max_amount) (\<lambda>_.
     schedule_config_change e KMaxStake (PMaxStake max_amount) s))"

definition schedule_min_bet :: "env \<Rightarrow> int option \<Rightarrow> store \<Rightarrow> store res" where
  "schedule_min_bet e min_amount s =
     and_then (require_supported_schema s) (\<lambda>_.
     and_then (validate_min_bet min_amount) (\<lambda>_.
     schedule_config_change e KMinBet (PMinBet min_amount) s))"

definition schedule_max_user_exposure :: "env \<Rightarrow> int option \<Rightarrow> store \<Rightarrow> store res" where
  "schedule_max_user_exposure e max_exposure s =
     and_then (require_supported_schema s) (\<lambda>_.
     and_then (validate_max_stake max_exposure) (\<lambda>_.
     schedule_config_change e KMaxUserRoundExposure (PMaxUserRoundExposure max_exposure) s))"

definition schedule_max_pending_winnings :: "env \<Rightarrow> int option \<Rightarrow> store \<Rightarrow> store res" where
  "schedule_max_pending_winnings e max_pending s =
     and_then (require_supported_schema s) (\<lambda>_.
     and_then (validate_max_stake max_pending) (\<lambda>_.
     schedule_config_change e KMaxPendingWinnings (PMaxPendingWinnings max_pending) s))"

definition schedule_oracle_stale_threshold :: "env \<Rightarrow> nat \<Rightarrow> store \<Rightarrow> store res" where
  "schedule_oracle_stale_threshold e seconds s =
     and_then (require_supported_schema s) (\<lambda>_.
     and_then (validate_oracle_stale_threshold seconds) (\<lambda>_.
     schedule_config_change e KOracleStaleThreshold (POracleStaleThreshold seconds) s))"

definition schedule_oracle_deviation_bps :: "env \<Rightarrow> nat option \<Rightarrow> store \<Rightarrow> store res" where
  "schedule_oracle_deviation_bps e bps s =
     and_then (require_supported_schema s) (\<lambda>_.
     and_then (validate_oracle_max_deviation_bps bps) (\<lambda>_.
     schedule_config_change e KOracleMaxDeviationBps (POracleMaxDeviationBps bps) s))"

definition schedule_oracle_timestamp_skew :: "env \<Rightarrow> nat \<Rightarrow> store \<Rightarrow> store res" where
  "schedule_oracle_timestamp_skew e seconds s =
     and_then (require_supported_schema s) (\<lambda>_.
     and_then (validate_oracle_timestamp_skew seconds) (\<lambda>_.
     schedule_config_change e KOracleTimestampSkew (POracleTimestampSkew seconds) s))"

definition schedule_protocol_fee_bps :: "env \<Rightarrow> nat option \<Rightarrow> store \<Rightarrow> store res" where
  "schedule_protocol_fee_bps e bps s =
     and_then (require_supported_schema s) (\<lambda>_.
     and_then (validate_protocol_fee_bps bps) (\<lambda>_.
     schedule_config_change e KProtocolFeeBps (PProtocolFeeBps bps) s))"

definition schedule_pending_winnings_expiry :: "env \<Rightarrow> nat \<Rightarrow> store \<Rightarrow> store res" where
  "schedule_pending_winnings_expiry e ledgers s =
     and_then (require_supported_schema s) (\<lambda>_.
     and_then (validate_pending_winnings_expiry ledgers) (\<lambda>_.
     schedule_config_change e KPendingWinningsExpiry (PPendingWinningsExpiry ledgers) s))"

section \<open>Direct setters\<close>

definition set_fee_model :: "env \<Rightarrow> fee_model \<Rightarrow> store \<Rightarrow> store res" where
  "set_fee_model e model s =
     and_then (admin_gate e s) (\<lambda>_.
     Inr (emit_config_updated KFeeModel (PFeeModel (read_fee_model s)) (PFeeModel model)
       (upd_config (\<lambda>c. c\<lparr>c_fee_model := Some model\<rparr>) s)))"

definition set_close_buffer_ledgers :: "env \<Rightarrow> nat \<Rightarrow> store \<Rightarrow> store res" where
  "set_close_buffer_ledgers e buffer_ledgers s =
     and_then (admin_gate e s) (\<lambda>_.
     and_then (validate_close_buffer_ledgers buffer_ledgers) (\<lambda>_.
     Inr (emit_config_updated KCloseBufferLedgers
            (PCloseBufferLedgers (unwrap_or (c_close_buffer (s_config s)) 0))
            (PCloseBufferLedgers buffer_ledgers)
       (upd_config (\<lambda>c. c\<lparr>c_close_buffer := Some buffer_ledgers\<rparr>) s))))"

definition set_min_participants :: "env \<Rightarrow> nat option \<Rightarrow> store \<Rightarrow> store res" where
  "set_min_participants e mn s =
     and_then (admin_gate e s) (\<lambda>_.
     if (case mn of Some v \<Rightarrow> v = 0 \<or> v > MAX_MIN_PARTICIPANTS | None \<Rightarrow> False)
     then Inl (Fail InvalidMinParticipants)
     else Inr (emit_config_updated KMinParticipants (PMinParticipants (c_min_participants (s_config s)))
                 (PMinParticipants mn) (upd_config (\<lambda>c. c\<lparr>c_min_participants := mn\<rparr>) s)))"

definition set_max_precision_participants :: "env \<Rightarrow> nat \<Rightarrow> store \<Rightarrow> store res" where
  "set_max_precision_participants e mx s =
     and_then (admin_gate e s) (\<lambda>_.
     if mx = 0 \<or> mx > MAX_PRECISION_PARTICIPANTS_LIMIT then Inl (Fail InvalidPrecisionCap)
     else Inr (emit_config_updated KMaxPrecisionParticipants
                 (PMaxPrecisionParticipants (get_max_precision_participants s))
                 (PMaxPrecisionParticipants mx)
       (upd_config (\<lambda>c. c\<lparr>c_max_precision_participants := Some mx\<rparr>) s)))"

definition set_precision_payout_policy :: "env \<Rightarrow> nat \<Rightarrow> store \<Rightarrow> store res" where
  "set_precision_payout_policy e pol s =
     and_then (admin_gate e s) (\<lambda>_.
     if pol > 1 then Inl (Fail InvalidMode)
     else Inr (emit_config_updated KPrecisionPayoutPolicy
                 (PPrecisionPayoutPolicy (unwrap_or (c_payout_policy (s_config s)) 0))
                 (PPrecisionPayoutPolicy pol) (upd_config (\<lambda>c. c\<lparr>c_payout_policy := Some pol\<rparr>) s)))"

definition set_mint_limit :: "env \<Rightarrow> nat \<Rightarrow> store \<Rightarrow> store res" where
  "set_mint_limit e limit s =
     and_then (admin_gate e s) (\<lambda>_.
     Inr (emit_config_updated KMintLimit (PMintLimit (unwrap_or (c_mint_limit (s_config s)) 0))
            (PMintLimit limit) (upd_config (\<lambda>c. c\<lparr>c_mint_limit := Some limit\<rparr>) s)))"

definition set_epoch_mint_budget :: "env \<Rightarrow> int \<Rightarrow> store \<Rightarrow> store res" where
  "set_epoch_mint_budget e budget s =
     and_then (admin_gate e s) (\<lambda>_.
     if budget < 0 then Inl (Fail InvalidBetAmount)
     else Inr (emit_config_updated KEpochMintBudget
                 (PEpochMintBudget (unwrap_or (c_epoch_budget (s_config s)) 0))
                 (PEpochMintBudget budget) (upd_config (\<lambda>c. c\<lparr>c_epoch_budget := Some budget\<rparr>) s)))"

definition set_archive_retention :: "env \<Rightarrow> nat \<Rightarrow> store \<Rightarrow> store res" where
  "set_archive_retention e limit s =
     and_then (admin_gate e s) (\<lambda>_.
     if \<not> (MIN_ARCHIVE_RETENTION \<le> limit \<and> limit \<le> MAX_ARCHIVE_RETENTION) then Inl (Fail WindowOutOfRange)
     else Inr (emit_config_updated KArchiveRetention
                 (PArchiveRetention (unwrap_or (c_archive_retention (s_config s)) DEFAULT_ARCHIVE_RETENTION))
                 (PArchiveRetention limit)
       (emit (''archive'', ''retention'') [VNat limit]
         (upd_config (\<lambda>c. c\<lparr>c_archive_retention := Some limit\<rparr>) s))))"

definition set_dispute_ledgers :: "env \<Rightarrow> nat \<Rightarrow> store \<Rightarrow> store res" where
  "set_dispute_ledgers e ledgers s =
     and_then (admin_gate e s) (\<lambda>_.
     if ledgers > MAX_DISPUTE_LEDGERS then Inl (Fail WindowOutOfRange)
     else Inr (emit_config_updated KDisputeLedgers (PDisputeLedgers (get_dispute_ledgers s))
                 (PDisputeLedgers ledgers) (upd_config (\<lambda>c. c\<lparr>c_dispute_ledgers := Some ledgers\<rparr>) s)))"

definition set_early_cashout_bps :: "env \<Rightarrow> nat option \<Rightarrow> store \<Rightarrow> store res" where
  "set_early_cashout_bps e bps s =
     and_then (admin_gate e s) (\<lambda>_.
     if (case bps of Some v \<Rightarrow> v = 0 \<or> v > MAX_PROTOCOL_FEE_BPS | None \<Rightarrow> False)
     then Inl (Fail InvalidProtocolFeeBps)
     else Inr (emit_config_updated KEarlyCashoutBps (PEarlyCashoutBps (c_early_cashout_bps (s_config s)))
                 (PEarlyCashoutBps bps)
       (emit (''config'', ''ec_bps'') [vnat_option bps]
         (upd_config (\<lambda>c. c\<lparr>c_early_cashout_bps := bps\<rparr>) s))))"

definition set_round_template :: "env \<Rightarrow> nat \<Rightarrow> nat option \<Rightarrow> store \<Rightarrow> store res" where
  "set_round_template e start_price mode s =
     and_then (admin_gate e s) (\<lambda>_.
     and_then (validate_round_template start_price mode) (\<lambda>_.
     Inr (emit (''template'', ''set'') [VNat start_price, VNat (unwrap_or mode 0)]
       (upd_config (\<lambda>c. c\<lparr>c_template := Some \<lparr>rt_start_price = start_price, rt_mode = mode\<rparr>\<rparr>) s))))"

definition clear_round_template :: "env \<Rightarrow> store \<Rightarrow> store res" where
  "clear_round_template e s =
     and_then (admin_gate e s) (\<lambda>_.
     if c_template (s_config s) = None then Inl (Fail CommitmentNotFound)
     else Inr (emit (''template'', ''cleared'') [VNat (e_ledger e)]
            (upd_config (\<lambda>c. c\<lparr>c_template := None\<rparr>) s)))"

section \<open>The protocol fee\<close>

definition read_treasury :: "store \<Rightarrow> int res" where
  "read_treasury s =
     (case k_treasury (s_money s) of
        None \<Rightarrow> Inr 0
      | Some (TAmount v) \<Rightarrow> Inr v
      | Some (TAddress _) \<Rightarrow> Inl Trap)"

definition set_treasury :: "treasury_slot \<Rightarrow> store \<Rightarrow> store" where
  "set_treasury v s = s\<lparr>s_money := (s_money s)\<lparr>k_treasury := Some v\<rparr>\<rparr>"

definition collect_protocol_fee :: "nat \<Rightarrow> int \<Rightarrow> nat option \<Rightarrow> fee_model \<Rightarrow> store \<Rightarrow> store res" where
  "collect_protocol_fee rid fee_amount bps_active model s =
     (if fee_amount \<le> 0 then Inr s
      else
        and_then (collect_insurance_fee rid fee_amount s) (\<lambda>(insurance_amount, s1).
        and_then (ok_or (checked_sub fee_amount insurance_amount) Overflow) (\<lambda>ops_amount.
        and_then (read_treasury s1) (\<lambda>current.
        and_then (ok_or (checked_add current ops_amount) Overflow) (\<lambda>new_treasury.
        Inr (emit (''protocol'', ''fee_coll'')
               [VNat rid, VInt fee_amount, VInt new_treasury, VNat (unwrap_or bps_active 0),
                VNat (fee_model_code model)]
               (set_treasury (TAmount new_treasury) s1)))))))"

definition calculate_protocol_fee_updown ::
  "nat option \<Rightarrow> fee_model \<Rightarrow> int \<Rightarrow> int \<Rightarrow> (int \<times> int \<times> int) res" where
  "calculate_protocol_fee_updown bps model winning_pool losing_pool =
     (case bps of
        None \<Rightarrow> Inr (winning_pool, losing_pool, 0)
      | Some bps_value \<Rightarrow>
          and_then (case model of
                      FeeOnPot \<Rightarrow>
                        and_then (payout_add winning_pool losing_pool) (\<lambda>total_pot.
                        and_then (ok_or (checked_mul total_pot (int bps_value)) Overflow) (\<lambda>m.
                        Inr (m sdiv BPS_DENOMINATOR)))
                    | FeeOnWinnings \<Rightarrow>
                        and_then (ok_or (checked_mul losing_pool (int bps_value)) Overflow) (\<lambda>m.
                        Inr (m sdiv BPS_DENOMINATOR))) (\<lambda>fee_amount.
          if fee_amount = 0 then Inr (winning_pool, losing_pool, 0)
          else
            case model of
              FeeOnPot \<Rightarrow>
                let fee_from_losing = min fee_amount losing_pool in
                and_then (ok_or (checked_sub fee_amount fee_from_losing) Overflow) (\<lambda>fee_from_winning.
                and_then (ok_or (checked_sub winning_pool fee_from_winning) Overflow) (\<lambda>dist_winning.
                and_then (ok_or (checked_sub losing_pool fee_from_losing) Overflow) (\<lambda>dist_losing.
                Inr (dist_winning, dist_losing, fee_amount))))
            | FeeOnWinnings \<Rightarrow>
                and_then (ok_or (checked_sub losing_pool fee_amount) Overflow) (\<lambda>dist_losing.
                Inr (winning_pool, dist_losing, fee_amount))))"

definition apply_protocol_fee_updown ::
  "nat \<Rightarrow> int \<Rightarrow> int \<Rightarrow> store \<Rightarrow> ((int \<times> int \<times> int) \<times> store) res" where
  "apply_protocol_fee_updown rid winning_pool losing_pool s =
     (let bps = c_fee_bps (s_config s); model = read_fee_model s in
      and_then (calculate_protocol_fee_updown bps model winning_pool losing_pool)
        (\<lambda>(dist_winning, dist_losing, fee_amount).
      and_then (if fee_amount > 0 then collect_protocol_fee rid fee_amount bps model s else Inr s) (\<lambda>s1.
      Inr ((dist_winning, dist_losing, fee_amount), s1))))"

definition calculate_protocol_fee_precision ::
  "nat option \<Rightarrow> fee_model \<Rightarrow> int \<Rightarrow> int \<Rightarrow> (int \<times> int) res" where
  "calculate_protocol_fee_precision bps model total_pot winner_stakes =
     (case bps of
        None \<Rightarrow> Inr (total_pot, 0)
      | Some bps_value \<Rightarrow>
          if total_pot \<le> 0 then Inr (total_pot, 0)
          else
            and_then (case model of
                        FeeOnPot \<Rightarrow> Inr (Some total_pot)
                      | FeeOnWinnings \<Rightarrow>
                          and_then (ok_or (checked_sub total_pot winner_stakes) Overflow) (\<lambda>profit.
                          Inr (if profit \<le> 0 then None else Some profit))) (\<lambda>base.
            case base of
              None \<Rightarrow> Inr (total_pot, 0)
            | Some taxable_base \<Rightarrow>
                and_then (ok_or (checked_mul taxable_base (int bps_value)) Overflow) (\<lambda>m.
                let fee_amount = m sdiv BPS_DENOMINATOR in
                if fee_amount = 0 then Inr (total_pot, 0)
                else
                  and_then (ok_or (checked_sub total_pot fee_amount) Overflow) (\<lambda>distributable.
                  Inr (distributable, fee_amount)))))"

definition apply_protocol_fee_precision :: "nat \<Rightarrow> int \<Rightarrow> int \<Rightarrow> store \<Rightarrow> ((int \<times> int) \<times> store) res" where
  "apply_protocol_fee_precision rid total_pot winner_stakes s =
     (let bps = c_fee_bps (s_config s); model = read_fee_model s in
      and_then (calculate_protocol_fee_precision bps model total_pot winner_stakes)
        (\<lambda>(distributable, fee_amount).
      and_then (if fee_amount > 0 then collect_protocol_fee rid fee_amount bps model s else Inr s) (\<lambda>s1.
      Inr ((distributable, fee_amount), s1))))"

text \<open>\<open>withdraw_fee\<close> is \<open>_execute_withdraw_fee\<close> of \<open>governance.rs\<close>, the tail of
  \<open>withdraw_protocol_fee\<close>.\<close>

definition withdraw_fee :: "address \<Rightarrow> int \<Rightarrow> store \<Rightarrow> (int \<times> store) res" where
  "withdraw_fee recipient amount s =
     (if amount \<le> 0 then Inl (Fail InvalidBetAmount)
      else
        and_then (read_treasury s) (\<lambda>current.
        if amount > current then Inl (Fail InsufficientBalance)
        else
          and_then (ok_or (checked_sub current amount) InsufficientBalance) (\<lambda>new_treasury.
          let s1 = set_treasury (TAmount new_treasury) s in
          and_then (payout_add (balance s1 recipient) amount) (\<lambda>new_bal.
          Inr (amount,
               emit (''protocol'', ''fee_with'') [VAddr recipient, VInt amount, VInt new_treasury]
                 (set_balance recipient new_bal s1))))))"

definition withdraw_protocol_fee :: "env \<Rightarrow> address \<Rightarrow> int \<Rightarrow> store \<Rightarrow> (int \<times> store) res" where
  "withdraw_protocol_fee e recipient amount s =
     and_then (require_supported_schema s) (\<lambda>_.
     and_then (admin_auth e s) (\<lambda>_.
     if is_gov_approver_set s then Inl (Fail GovUnauthorized)
     else and_then (ensure_not_paused s) (\<lambda>_. withdraw_fee recipient amount s)))"

section \<open>Fee lemmas\<close>

lemma read_treasury_Inr [res_simps]:
  "read_treasury s = Inr v \<longleftrightarrow>
     k_treasury (s_money s) = None \<and> v = 0 \<or> k_treasury (s_money s) = Some (TAmount v)"
  by (auto simp: read_treasury_def split: option.splits treasury_slot.splits)

lemma read_treasury_value: "read_treasury s = Inr v \<Longrightarrow> treasury_value (k_treasury (s_money s)) = v"
  by (auto simp: res_simps treasury_value_def)

lemma set_treasury_fields [simp]:
  "k_balance (s_money (set_treasury v s)) = k_balance (s_money s)"
  "k_pending (s_money (set_treasury v s)) = k_pending (s_money s)"
  "k_treasury (s_money (set_treasury v s)) = Some v"
  "k_fund (s_money (set_treasury v s)) = k_fund (s_money s)"
  "s_book (set_treasury v s) = s_book s" "s_config (set_treasury v s) = s_config s"
  "s_history (set_treasury v s) = s_history s" "s_board (set_treasury v s) = s_board s"
  "s_gov (set_treasury v s) = s_gov s" "s_admin (set_treasury v s) = s_admin s"
  "balance (set_treasury v s) u = balance s u" "pending_of (set_treasury v s) u = pending_of s u"
  by (simp_all add: set_treasury_def balance_def pending_of_def)

lemma held_set_treasury:
  "held (set_treasury (TAmount v) s) = held s - treasury_value (k_treasury (s_money s)) + v"
  by (simp add: held_def treasury_value_def)

lemma money_ok_set_treasury:
  "money_ok (s_money s) \<Longrightarrow> 0 \<le> v \<Longrightarrow> money_ok (s_money (set_treasury (TAmount v) s))"
  by (simp add: money_ok_def treasury_value_def)

lemma collect_protocol_fee_Inr:
  assumes "collect_protocol_fee rid fee bps model s = Inr s'" "money_ok (s_money s)" "0 \<le> fee"
  shows "held s' = held s + fee" "money_ok (s_money s')" "s_book s' = s_book s"
    "s_config s' = s_config s"
    "k_pending (s_money s') = k_pending (s_money s)" "k_balance (s_money s') = k_balance (s_money s)"
proof -
  have "held s' = held s + fee \<and> money_ok (s_money s') \<and> s_book s' = s_book s \<and>
    s_config s' = s_config s \<and> k_pending (s_money s') = k_pending (s_money s) \<and>
    k_balance (s_money s') = k_balance (s_money s)"
  proof (cases "fee = 0")
    case True
    with assms show ?thesis by (simp add: collect_protocol_fee_def)
  next
    case False
    with assms(1,3) obtain x s1 t where
      i: "collect_insurance_fee rid fee s = Inr (x, s1)" and t: "read_treasury s1 = Inr t" and
      s': "s' = emit (''protocol'', ''fee_coll'') [VNat rid, VInt fee, VInt (t + (fee - x)),
             VNat (unwrap_or bps 0), VNat (fee_model_code model)] (set_treasury (TAmount (t + (fee - x))) s1)"
      by (auto simp: collect_protocol_fee_def and_then_Inr ok_or_Inr checked_add_Some checked_sub_Some)
    note c = collect_insurance_fee_Inr[OF i assms(2)]
    have tv: "treasury_value (k_treasury (s_money s1)) = t" by (rule read_treasury_value[OF t])
    have t0: "0 \<le> t" using c(4) tv by (simp add: money_ok_def)
    show ?thesis
      unfolding s' using c held_set_treasury[of "t + (fee - x)" s1] tv t0 assms(3)
        money_ok_set_treasury[OF c(4), of "t + (fee - x)"] by simp
  qed
  then show "held s' = held s + fee" "money_ok (s_money s')" "s_book s' = s_book s"
    "s_config s' = s_config s" "k_pending (s_money s') = k_pending (s_money s)"
    "k_balance (s_money s') = k_balance (s_money s)" by blast+
qed

interpretation fee_credit: paying_step
  "\<lambda>(rid, fee, bps, model). collect_protocol_fee rid fee bps model" "\<lambda>b (rid, fee, bps, model). fee"
proof unfold_locales
  fix x :: "nat \<times> int \<times> nat option \<times> fee_model" and s s'
  assume "(case x of (rid, fee, bps, model) \<Rightarrow> collect_protocol_fee rid fee bps model) s = Inr s'"
    "money_ok (s_money s)" "0 \<le> (case x of (rid, fee, bps, model) \<Rightarrow> fee)"
  then show "held s' = held s + (case x of (rid, fee, bps, model) \<Rightarrow> fee) \<and> money_ok (s_money s')"
    by (auto split: prod.splits dest: collect_protocol_fee_Inr)
next
  fix x :: "nat \<times> int \<times> nat option \<times> fee_model" and s s'
  assume "(case x of (rid, fee, bps, model) \<Rightarrow> collect_protocol_fee rid fee bps model) s = Inr s'"
  then show "s_book s' = s_book s"
    by (auto simp: collect_protocol_fee_def collect_insurance_fee_def res_simps Let_def
        split: prod.splits if_splits)
qed

text \<open>Under both incidence models the deployed fee function keeps the fee-schedule contract of
  the pure engine.\<close>

interpretation protocol_fee: fee_schedule "\<lambda>w l bps. calculate_protocol_fee_updown bps model w l" for model
proof unfold_locales
  fix w l dw dl f :: int and bps
  assume w: "0 \<le> w" and l: "0 \<le> l" and bps: "pred_option (\<lambda>b. b \<le> 10000) bps"
    and run: "calculate_protocol_fee_updown bps model w l = Inr (dw, dl, f)"
  show "dw + dl + f = w + l \<and> 0 \<le> dw \<and> dw \<le> w \<and> 0 \<le> dl \<and> dl \<le> l \<and> 0 \<le> f"
  proof (cases bps)
    case None
    with run w l show ?thesis by (simp add: calculate_protocol_fee_updown_def)
  next
    case (Some b)
    have "0 \<le> (w + l) * int b sdiv 10000" "(w + l) * int b sdiv 10000 \<le> w + l"
      "0 \<le> l * int b sdiv 10000" "l * int b sdiv 10000 \<le> l"
      using fee_amount_bounds[of "w + l" b] fee_amount_bounds[of l b] w l bps Some by simp_all
    with run w l Some show ?thesis
      by (cases model)
         (auto simp: calculate_protocol_fee_updown_def BPS_DENOMINATOR_def res_simps Let_def min_def
               split: if_splits)
  qed
qed

lemma calculate_precision_split:
  assumes "calculate_protocol_fee_precision bps model pot ws = Inr (d, f)"
    "pred_option (\<lambda>b. b \<le> 10000) bps" "0 \<le> pot" "0 \<le> ws"
  shows "d + f = pot \<and> 0 \<le> d \<and> 0 \<le> f"
proof (cases bps)
  case None
  with assms show ?thesis by (simp add: calculate_protocol_fee_precision_def)
next
  case (Some b)
  have p: "0 \<le> pot * int b sdiv 10000" "pot * int b sdiv 10000 \<le> pot"
    using fee_amount_bounds[of pot b] assms Some by simp_all
  have q: "0 < pot - ws \<Longrightarrow> 0 \<le> (pot - ws) * int b sdiv 10000 \<and> (pot - ws) * int b sdiv 10000 \<le> pot"
    using fee_amount_bounds[of "pot - ws" b] assms Some by fastforce
  show ?thesis
  proof (cases model)
    case FeeOnPot
    with assms Some p show ?thesis
      by (auto simp: calculate_protocol_fee_precision_def BPS_DENOMINATOR_def res_simps Let_def split: if_splits)
  next
    case FeeOnWinnings
    with assms Some q show ?thesis
      by (auto simp: calculate_protocol_fee_precision_def BPS_DENOMINATOR_def res_simps Let_def split: if_splits)
  qed
qed

definition fee_ok :: "store \<Rightarrow> bool" where
  "fee_ok s \<longleftrightarrow> pred_option (\<lambda>b. 0 < b \<and> b \<le> MAX_PROTOCOL_FEE_BPS) (c_fee_bps (s_config s))"

lemma fee_ok_bps: "fee_ok s \<Longrightarrow> pred_option (\<lambda>b. b \<le> 10000) (c_fee_bps (s_config s))"
  by (cases "c_fee_bps (s_config s)") (auto simp: fee_ok_def MAX_PROTOCOL_FEE_BPS_def)

lemma apply_fee_updown_Inr:
  assumes "apply_protocol_fee_updown rid w l s = Inr ((dw, dl, f), s')" "money_ok (s_money s)"
    "fee_ok s" "0 \<le> w" "0 \<le> l"
  shows "calculate_protocol_fee_updown (c_fee_bps (s_config s)) (read_fee_model s) w l = Inr (dw, dl, f)"
    "dw + dl + f = w + l" "0 \<le> dw" "0 \<le> dl" "0 \<le> f"
    "held s' = held s + f" "money_ok (s_money s')" "s_book s' = s_book s" "s_config s' = s_config s"
proof -
  from assms(1) have
    c: "calculate_protocol_fee_updown (c_fee_bps (s_config s)) (read_fee_model s) w l = Inr (dw, dl, f)"
    and k: "(if f > 0 then collect_protocol_fee rid f (c_fee_bps (s_config s)) (read_fee_model s) s else Inr s) = Inr s'"
    by (auto simp: apply_protocol_fee_updown_def and_then_Inr Let_def)
  show "calculate_protocol_fee_updown (c_fee_bps (s_config s)) (read_fee_model s) w l = Inr (dw, dl, f)"
    by (rule c)
  have r: "dw + dl + f = w + l \<and> 0 \<le> dw \<and> dw \<le> w \<and> 0 \<le> dl \<and> dl \<le> l \<and> 0 \<le> f"
    by (rule protocol_fee.fee_split[OF assms(4,5) fee_ok_bps[OF assms(3)] c])
  then show "dw + dl + f = w + l" "0 \<le> dw" "0 \<le> dl" "0 \<le> f" by auto
  have "held s' = held s + f \<and> money_ok (s_money s') \<and> s_book s' = s_book s \<and> s_config s' = s_config s"
  proof (cases "0 < f")
    case True
    with k have "collect_protocol_fee rid f (c_fee_bps (s_config s)) (read_fee_model s) s = Inr s'" by simp
    from collect_protocol_fee_Inr[OF this assms(2)] r show ?thesis by simp
  next
    case False
    with k r assms(2) show ?thesis by simp
  qed
  then show "held s' = held s + f" "money_ok (s_money s')" "s_book s' = s_book s" "s_config s' = s_config s"
    by blast+
qed

lemma apply_fee_precision_Inr:
  assumes "apply_protocol_fee_precision rid pot ws s = Inr ((d, f), s')" "money_ok (s_money s)"
    "fee_ok s" "0 \<le> pot" "0 \<le> ws"
  shows "d + f = pot" "0 \<le> d" "0 \<le> f"
    "held s' = held s + f" "money_ok (s_money s')" "s_book s' = s_book s" "s_config s' = s_config s"
proof -
  from assms(1) have
    c: "calculate_protocol_fee_precision (c_fee_bps (s_config s)) (read_fee_model s) pot ws = Inr (d, f)"
    and k: "(if f > 0 then collect_protocol_fee rid f (c_fee_bps (s_config s)) (read_fee_model s) s else Inr s) = Inr s'"
    by (auto simp: apply_protocol_fee_precision_def and_then_Inr Let_def)
  have r: "d + f = pot \<and> 0 \<le> d \<and> 0 \<le> f"
    by (rule calculate_precision_split[OF c fee_ok_bps[OF assms(3)] assms(4,5)])
  then show "d + f = pot" "0 \<le> d" "0 \<le> f" by auto
  have "held s' = held s + f \<and> money_ok (s_money s') \<and> s_book s' = s_book s \<and> s_config s' = s_config s"
  proof (cases "0 < f")
    case True
    with k have "collect_protocol_fee rid f (c_fee_bps (s_config s)) (read_fee_model s) s = Inr s'" by simp
    from collect_protocol_fee_Inr[OF this assms(2)] r show ?thesis by simp
  next
    case False
    with k r assms(2) show ?thesis by simp
  qed
  then show "held s' = held s + f" "money_ok (s_money s')" "s_book s' = s_book s" "s_config s' = s_config s"
    by blast+
qed

lemma withdraw_fee_Inr:
  assumes "withdraw_fee r x s = Inr (y, s')" "money_ok (s_money s)"
  shows "y = x \<and> 0 < x \<and> x \<le> treasury_value (k_treasury (s_money s)) \<and> held s' = held s \<and>
    money_ok (s_money s') \<and> s_book s' = s_book s \<and> balance s' r = balance s r + x \<and>
    treasury_value (k_treasury (s_money s')) = treasury_value (k_treasury (s_money s)) - x"
proof -
  from assms(1) obtain t where r: "read_treasury s = Inr t" "y = x" "0 < x" "x \<le> t"
    "s' = emit (''protocol'', ''fee_with'') [VAddr r, VInt x, VInt (t - x)]
            (set_balance r (balance s r + x) (set_treasury (TAmount (t - x)) s))"
    by (auto simp: withdraw_fee_def Let_def and_then_Inr ok_or_Inr checked_sub_Some payout_add_Inr split: if_splits)
  have tv: "treasury_value (k_treasury (s_money s)) = t" by (rule read_treasury_value[OF r(1)])
  have ok: "money_ok (s_money (set_treasury (TAmount (t - x)) s))"
    using money_ok_set_treasury[OF assms(2)] r(4) by simp
  have "held s' = held s"
    unfolding r(5) using held_set_balance[OF ok] tv by (simp add: held_set_treasury)
  moreover have "money_ok (s_money s')"
    unfolding r(5) using money_ok_set_balance[OF ok] balance_nonneg[OF assms(2), of r] r(3) by simp
  ultimately show ?thesis
    unfolding r(5) using r(2-4) tv
    by (simp add: balance_def set_balance_def set_treasury_def emit_def treasury_value_def)
qed

section \<open>The configuration invariant\<close>

definition in_range :: "nat \<Rightarrow> nat \<Rightarrow> nat option \<Rightarrow> bool" where
  "in_range lo hi x = pred_option (\<lambda>v. lo \<le> v \<and> v \<le> hi) x"

definition config_ok :: "store \<Rightarrow> bool" where
  "config_ok s \<longleftrightarrow> (let c = s_config s in
     0 < unwrap_or (c_bet_window c) DEFAULT_BET_WINDOW_LEDGERS \<and>
     unwrap_or (c_bet_window c) DEFAULT_BET_WINDOW_LEDGERS < unwrap_or (c_run_window c) DEFAULT_RUN_WINDOW_LEDGERS \<and>
     unwrap_or (c_run_window c) DEFAULT_RUN_WINDOW_LEDGERS \<le> MAX_RUN_WINDOW_LEDGERS \<and>
     in_range 0 MAX_CLOSE_BUFFER_LEDGERS (c_close_buffer c) \<and>
     pred_option (\<lambda>v. 1 \<le> v) (c_max_stake c) \<and> pred_option (\<lambda>v. 1 \<le> v) (c_min_bet c) \<and>
     pred_option (\<lambda>v. 1 \<le> v) (c_max_exposure c) \<and> pred_option (\<lambda>v. 1 \<le> v) (c_max_pending c) \<and>
     in_range 1 MAX_MIN_PARTICIPANTS (c_min_participants c) \<and>
     in_range 1 MAX_PRECISION_PARTICIPANTS_LIMIT (c_max_precision_participants c) \<and>
     in_range 0 1 (c_payout_policy c) \<and> in_range 1 MAX_PROTOCOL_FEE_BPS (c_fee_bps c) \<and>
     in_range 1 MAX_PROTOCOL_FEE_BPS (c_early_cashout_bps c) \<and>
     pred_option (\<lambda>v. 0 \<le> v) (c_epoch_budget c) \<and>
     in_range MIN_ARCHIVE_RETENTION MAX_ARCHIVE_RETENTION (c_archive_retention c) \<and>
     in_range 0 MAX_DISPUTE_LEDGERS (c_dispute_ledgers c))"

lemma config_ok_fee: "config_ok s \<Longrightarrow> fee_ok s"
  by (auto simp: config_ok_def fee_ok_def in_range_def Let_def elim!: option.pred_mono_strong)

lemma config_ok_cong: "s_config s' = s_config s \<Longrightarrow> config_ok s' = config_ok s"
  by (simp add: config_ok_def)

lemma emit_config_updated_fields [simp]:
  "s_config (emit_config_updated k x y s) = s_config s" "s_money (emit_config_updated k x y s) = s_money s"
  "s_book (emit_config_updated k x y s) = s_book s" "s_orc (emit_config_updated k x y s) = s_orc s"
  "s_admin (emit_config_updated k x y s) = s_admin s"
  by (simp_all add: emit_config_updated_def)

lemma upd_config_fields [simp]:
  "s_config (upd_config f s) = f (s_config s)" "s_money (upd_config f s) = s_money s"
  "s_book (upd_config f s) = s_book s" "s_orc (upd_config f s) = s_orc s"
  "s_admin (upd_config f s) = s_admin s" "s_gov (upd_config f s) = s_gov s"
  "s_config (upd_orc g s) = s_config s" "s_money (upd_orc g s) = s_money s"
  "s_book (upd_orc g s) = s_book s"
  by (simp_all add: upd_config_def upd_orc_def)

lemma validators_Inr:
  "validate_windows bet run = Inr u \<longleftrightarrow> 0 < bet \<and> bet < run \<and> run \<le> MAX_RUN_WINDOW_LEDGERS \<and> bet \<le> MAX_BET_WINDOW_LEDGERS"
  "validate_max_stake mx = Inr u \<longleftrightarrow> pred_option (\<lambda>v. 1 \<le> v) mx"
  "validate_min_bet mx = Inr u \<longleftrightarrow> pred_option (\<lambda>v. 1 \<le> v) mx"
  "validate_close_buffer_ledgers n = Inr u \<longleftrightarrow> n \<le> MAX_CLOSE_BUFFER_LEDGERS"
  "validate_protocol_fee_bps bps = Inr u \<longleftrightarrow> in_range 1 MAX_PROTOCOL_FEE_BPS bps"
  by (auto simp: validate_windows_def validate_max_stake_def validate_min_bet_def MIN_CAP_VALUE_def
      validate_close_buffer_ledgers_def validate_protocol_fee_bps_def in_range_def split: option.splits)

lemma out_of_range: "(case x of Some v \<Rightarrow> v = 0 \<or> v > hi | None \<Rightarrow> False) \<longleftrightarrow> \<not> in_range 1 hi x"
  by (auto simp: in_range_def split: option.splits)

lemma in_range_Some [simp]: "in_range lo hi (Some v) \<longleftrightarrow> lo \<le> v \<and> v \<le> hi"
  by (simp add: in_range_def)

lemma apply_config_value_ok:
  assumes "config_ok s" "apply_config_value kind payload s = Inr s'"
  shows "config_ok s'"
  using assms
  by (cases payload)
     (auto simp: apply_config_value_def and_then_Inr config_ok_def Let_def validators_Inr out_of_range
        MIN_ARCHIVE_RETENTION_def split: if_splits)

lemma apply_config_value_frame:
  assumes "apply_config_value kind payload s = Inr s'"
  shows "s_money s' = s_money s" "s_book s' = s_book s" "c_scheduled (s_config s') = c_scheduled (s_config s)"
  using assms
  by (cases payload; auto simp: apply_config_value_def and_then_Inr out_of_range split: if_splits)+

lemma apply_config_value_effect:
  assumes "apply_config_value kind payload s = Inr s'"
  shows "current_config_payload s' kind = payload"
  using assms
  by (cases payload)
     (auto simp: apply_config_value_def and_then_Inr out_of_range current_config_payload_def Let_def upd_config_def
        upd_orc_def stale_threshold_def get_max_precision_participants_def get_dispute_ledgers_def
        read_fee_model_def split: if_splits)

lemma current_config_payload_cong:
  "s_config s' = (s_config s)\<lparr>c_scheduled := x\<rparr> \<Longrightarrow> s_orc s' = s_orc s \<Longrightarrow>
   current_config_payload s' kind = current_config_payload s kind"
  by (cases kind)
     (simp_all add: current_config_payload_def stale_threshold_def get_max_precision_participants_def
        get_dispute_ledgers_def read_fee_model_def Let_def)

lemma schedule_Inr:
  assumes "schedule_config_change e kind payload s = Inr s'"
  shows "c_scheduled (s_config s) kind = None"
    "c_scheduled (s_config s') = (c_scheduled (s_config s))(kind \<mapsto>
       \<lparr>pcc_payload = payload, pcc_activation_ledger = e_ledger e + CONFIG_TIMELOCK_LEDGERS,
        pcc_scheduled_at_ledger = e_ledger e\<rparr>)"
    "s_config s' = (s_config s)\<lparr>c_scheduled := c_scheduled (s_config s')\<rparr>"
    "s_orc s' = s_orc s" "s_money s' = s_money s" "s_book s' = s_book s"
    "\<exists>admin. s_admin s = Some admin \<and> e_auth e admin"
  using assms by (auto simp: schedule_config_change_def res_simps upd_config_def split: if_splits)

lemma apply_scheduled_Inr:
  assumes "apply_scheduled_changes e kind s = Inr s'"
  obtains p s1 where "c_scheduled (s_config s) kind = Some p" "pcc_activation_ledger p \<le> e_ledger e"
    "current_mode s = Normal" "apply_config_value kind (pcc_payload p) s = Inr s1"
    "s_config s' = (s_config s1)\<lparr>c_scheduled := (c_scheduled (s_config s1))(kind := None)\<rparr>"
    "s_orc s' = s_orc s1" "s_money s' = s_money s1" "s_book s' = s_book s1"
  using assms
  by (auto simp: apply_scheduled_changes_def apply_config_payload_def res_simps Let_def upd_config_def
      emit_config_updated_def split: if_splits)

section \<open>Properties\<close>

text \<open>The protocol fee creates and destroys nothing, under either incidence model: the pools that
  remain for distribution and the fee add up to the pools before it, and the fee is exactly
  what treasury and insurance fund together receive.\<close>

theorem protocol_fee_conservation:
  assumes "money_ok (s_money s)" "config_ok s" "0 \<le> w" "0 \<le> l"
  shows "(apply_protocol_fee_updown rid w l s = Inr ((dw, dl, f), s1) \<longrightarrow>
            dw + dl + f = w + l \<and> 0 \<le> dw \<and> 0 \<le> dl \<and> 0 \<le> f \<and>
            held s1 = held s + f \<and> money_ok (s_money s1) \<and> s_book s1 = s_book s) \<and>
         (apply_protocol_fee_precision rid w l s = Inr ((d, g), s2) \<longrightarrow>
            d + g = w \<and> 0 \<le> d \<and> 0 \<le> g \<and> held s2 = held s + g \<and> money_ok (s_money s2) \<and> s_book s2 = s_book s)"
proof (rule conjI; rule impI)
  note fee = config_ok_fee[OF assms(2)]
  assume "apply_protocol_fee_updown rid w l s = Inr ((dw, dl, f), s1)"
  note r = apply_fee_updown_Inr[OF this assms(1) fee assms(3,4)]
  show "dw + dl + f = w + l \<and> 0 \<le> dw \<and> 0 \<le> dl \<and> 0 \<le> f \<and>
        held s1 = held s + f \<and> money_ok (s_money s1) \<and> s_book s1 = s_book s"
    using r by (intro conjI)
next
  note fee = config_ok_fee[OF assms(2)]
  assume "apply_protocol_fee_precision rid w l s = Inr ((d, g), s2)"
  note r = apply_fee_precision_Inr[OF this assms(1) fee assms(3,4)]
  show "d + g = w \<and> 0 \<le> d \<and> 0 \<le> g \<and> held s2 = held s + g \<and> money_ok (s_money s2) \<and> s_book s2 = s_book s"
    using r by (intro conjI)
qed

theorem protocol_fee_conservation_witness:
  "let s = empty_store\<lparr>s_config := (s_config empty_store)\<lparr>c_fee_bps := Some 200\<rparr>,
             s_ins := (s_ins empty_store)\<lparr>i_split_bps := Some 5000\<rparr>\<rparr>
   in \<exists>s1. apply_protocol_fee_updown 1 300 100 s = Inr ((300, 92, 8), s1) \<and> held s1 = held s + 8"
proof -
  let ?s = "empty_store\<lparr>s_config := (s_config empty_store)\<lparr>c_fee_bps := Some 200\<rparr>,
             s_ins := (s_ins empty_store)\<lparr>i_split_bps := Some 5000\<rparr>\<rparr>"
  have ok: "money_ok (s_money ?s)" "config_ok ?s"
    by (simp_all add: money_ok_def config_ok_def in_range_def empty_store_def treasury_value_def get_or_def
        Let_def protocol_constants config_bounds)
  obtain s1 where run: "apply_protocol_fee_updown 1 300 100 ?s = Inr ((300, 92, 8), s1)"
    by (simp add: apply_protocol_fee_updown_def calculate_protocol_fee_updown_def read_fee_model_def
        collect_protocol_fee_def collect_insurance_fee_def get_insurance_split_bps_def read_treasury_def
        get_insurance_fund_balance_def set_fund_def emit_def empty_store_def payout_add_def checked_add_def
        checked_mul_def checked_sub_def checked_div_def in_i128_def BPS_DENOMINATOR_def sdiv_nonneg Let_def)
  have "held s1 = held ?s + 8"
    using protocol_fee_conservation[OF ok, of 300 100 1 300 92 8 s1] run by simp
  with run show ?thesis unfolding Let_def by blast
qed

text \<open>C36 The timelock holds.  Scheduling a change needs the admin and leaves every effective value
  as it was; the change can be applied at the earliest 1440 ledgers later and in normal mode,
  the value in force afterwards is exactly the scheduled one, a value outside its bounds is
  never installed, and the application consumes the schedule entry.\<close>

theorem timelocked_change:
  assumes "schedule_config_change e kind payload s = Inr s1"
    and "c_scheduled (s_config s2) kind = c_scheduled (s_config s1) kind"
    and "apply_scheduled_changes e' kind s2 = Inr s3"
  shows "(\<exists>admin. s_admin s = Some admin \<and> e_auth e admin) \<and>
         (\<forall>k. current_config_payload s1 k = current_config_payload s k) \<and>
         e_ledger e + 1440 \<le> e_ledger e' \<and> current_mode s2 = Normal \<and>
         current_config_payload s3 kind = payload \<and> (config_ok s2 \<longrightarrow> config_ok s3) \<and>
         apply_scheduled_changes e'' kind s3 \<noteq> Inr s4"
proof -
  note sch = schedule_Inr[OF assms(1)]
  obtain p t where p: "c_scheduled (s_config s2) kind = Some p" "pcc_activation_ledger p \<le> e_ledger e'"
    "current_mode s2 = Normal" and t: "apply_config_value kind (pcc_payload p) s2 = Inr t"
    and s3: "s_config s3 = (s_config t)\<lparr>c_scheduled := (c_scheduled (s_config t))(kind := None)\<rparr>" "s_orc s3 = s_orc t"
    by (rule apply_scheduled_Inr[OF assms(3)])
  have pp: "pcc_payload p = payload" "pcc_activation_ledger p = e_ledger e + 1440"
    using p(1) assms(2) sch(2) by (auto simp: CONFIG_TIMELOCK_LEDGERS_def)
  have "current_config_payload s3 kind = current_config_payload t kind"
    by (rule current_config_payload_cong[OF s3])
  also have "\<dots> = payload" using apply_config_value_effect[OF t] pp(1) by simp
  finally have eff: "current_config_payload s3 kind = payload" .
  have "config_ok s2 \<longrightarrow> config_ok s3"
    using apply_config_value_ok[OF _ t] s3(1) by (simp add: config_ok_def Let_def)
  moreover have "apply_scheduled_changes e'' kind s3 \<noteq> Inr s4"
    using s3(1) by (auto elim!: apply_scheduled_Inr)
  ultimately show ?thesis
    using p(2,3) pp(2) eff sch(7) current_config_payload_cong[OF sch(3,4)] by auto
qed

theorem timelocked_change_witness:
  "let s = empty_store\<lparr>s_admin := Some 1, s_schema := Some 3\<rparr>
   in \<exists>s1 s3. schedule_config_change (sample_env 100 0 [1]) KProtocolFeeBps (PProtocolFeeBps (Some 250)) s = Inr s1 \<and>
        apply_scheduled_changes (sample_env 1540 0 []) KProtocolFeeBps s1 = Inr s3 \<and>
        c_fee_bps (s_config s3) = Some 250"
proof -
  let ?s = "empty_store\<lparr>s_admin := Some 1, s_schema := Some 3\<rparr>"
  let ?s1 = "emit (''config'', ''sched'') [VNat 6, VNat 1540] (upd_config (\<lambda>c. c\<lparr>c_scheduled := (c_scheduled c)(KProtocolFeeBps \<mapsto>
             \<lparr>pcc_payload = PProtocolFeeBps (Some 250), pcc_activation_ledger = 1540, pcc_scheduled_at_ledger = 100\<rparr>)\<rparr>) ?s)"
  have sch: "schedule_config_change (sample_env 100 0 [1]) KProtocolFeeBps (PProtocolFeeBps (Some 250)) ?s = Inr ?s1"
    by (simp add: schedule_config_change_def admin_unpaused_def admin_auth_def require_auth_def
        ensure_not_paused_def policy_gate_def current_mode_def empty_store_def sample_env_def
        uchecked_add_def config_bounds protocol_constants)
  obtain s3 where app: "apply_scheduled_changes (sample_env 1540 0 []) KProtocolFeeBps ?s1 = Inr s3"
    by (simp add: apply_scheduled_changes_def require_supported_schema_def schema_version_def
        ensure_normal_mode_def policy_gate_def current_mode_def empty_store_def sample_env_def
        apply_config_payload_def apply_config_value_def validate_protocol_fee_bps_def
        protocol_constants upd_config_def emit_def)
  from timelocked_change[OF sch refl app]
  have "current_config_payload s3 KProtocolFeeBps = PProtocolFeeBps (Some 250)" by blast
  then have "c_fee_bps (s_config s3) = Some 250" by (simp add: current_config_payload_def Let_def)
  with sch app show ?thesis unfolding Let_def by blast
qed

end
