(* ===== verification/Access_Control.thy ===== *)
theory Access_Control
  imports Administration
begin

text \<open>
  \<open>contracts/src/access_control.rs\<close>: the optional allowlist and the denylist that gate the
  betting entry points.  The lemmas show the admission rule, that the two markers of an
  address never conflict, and that the denylist wins in every mode.
\<close>

datatype access_state = Open | Allowlisted | Denylisted

definition upd_access :: "(access \<Rightarrow> access) \<Rightarrow> store \<Rightarrow> store" where
  "upd_access f s = s\<lparr>s_access := f (s_access s)\<rparr>"

definition set_access_control_enabled :: "env \<Rightarrow> bool \<Rightarrow> store \<Rightarrow> store res" where
  "set_access_control_enabled e enabled s =
     and_then (admin_gate e s) (\<lambda>_.
     Inr (emit (''access'', ''mode'') [VBool enabled]
       (upd_access (\<lambda>a. a\<lparr>a_enabled := if enabled then Some True else None\<rparr>) s)))"

definition is_access_control_enabled :: "store \<Rightarrow> bool" where
  "is_access_control_enabled s = unwrap_or (a_enabled (s_access s)) False"

definition add_allowlisted :: "env \<Rightarrow> address \<Rightarrow> store \<Rightarrow> store res" where
  "add_allowlisted e user s =
     and_then (admin_gate e s) (\<lambda>_.
     let was_denied = (a_denied (s_access s) user \<noteq> None) in
     Inr (emit (''access'', ''allow_add'') [VAddr user, VBool was_denied]
       (upd_access (\<lambda>a. a\<lparr>a_allowed := (a_allowed a)(user \<mapsto> True), a_denied := (a_denied a)(user := None)\<rparr>) s)))"

definition remove_allowlisted :: "env \<Rightarrow> address \<Rightarrow> store \<Rightarrow> store res" where
  "remove_allowlisted e user s =
     and_then (admin_gate e s) (\<lambda>_.
     if a_allowed (s_access s) user = None then Inr s
     else Inr (emit (''access'', ''allow_rm'') [VAddr user, VBool False]
       (upd_access (\<lambda>a. a\<lparr>a_allowed := (a_allowed a)(user := None)\<rparr>) s)))"

definition add_denylisted :: "env \<Rightarrow> address \<Rightarrow> store \<Rightarrow> store res" where
  "add_denylisted e user s =
     and_then (admin_gate e s) (\<lambda>_.
     let was_allowed = (a_allowed (s_access s) user \<noteq> None) in
     Inr (emit (''access'', ''deny_add'') [VAddr user, VBool was_allowed]
       (upd_access (\<lambda>a. a\<lparr>a_denied := (a_denied a)(user \<mapsto> True), a_allowed := (a_allowed a)(user := None)\<rparr>) s)))"

definition remove_denylisted :: "env \<Rightarrow> address \<Rightarrow> store \<Rightarrow> store res" where
  "remove_denylisted e user s =
     and_then (admin_gate e s) (\<lambda>_.
     if a_denied (s_access s) user = None then Inr s
     else Inr (emit (''access'', ''deny_rm'') [VAddr user, VBool False]
       (upd_access (\<lambda>a. a\<lparr>a_denied := (a_denied a)(user := None)\<rparr>) s)))"

definition get_access_state :: "store \<Rightarrow> address \<Rightarrow> access_state" where
  "get_access_state s user =
     (if a_denied (s_access s) user \<noteq> None then Denylisted
      else if a_allowed (s_access s) user \<noteq> None then Allowlisted
      else Open)"

definition enforce_access_control :: "store \<Rightarrow> address \<Rightarrow> unit res" where
  "enforce_access_control s user =
     (if a_denied (s_access s) user \<noteq> None then Inl (Fail AccessDenied)
      else if is_access_control_enabled s \<and> a_allowed (s_access s) user = None then Inl (Fail AccessDenied)
      else Inr ())"

lemma enforce_access_Inr [res_simps]:
  "enforce_access_control s u = Inr v \<longleftrightarrow>
     a_denied (s_access s) u = None \<and> (is_access_control_enabled s \<longrightarrow> a_allowed (s_access s) u \<noteq> None)"
  by (simp add: enforce_access_control_def)

text \<open>No address carries both markers.\<close>

definition access_ok :: "store \<Rightarrow> bool" where
  "access_ok s \<longleftrightarrow> (\<forall>u. a_denied (s_access s) u = None \<or> a_allowed (s_access s) u = None)"

lemma upd_access_fields [simp]:
  "s_access (upd_access f s) = f (s_access s)" "s_money (upd_access f s) = s_money s"
  "s_book (upd_access f s) = s_book s" "s_config (upd_access f s) = s_config s"
  by (simp_all add: upd_access_def)

text \<open>The access lists behave as one policy per address.  Every list operation keeps the two
  markers disjoint, leaves every other address alone, and determines who is admitted: after
  a denylisting the address is refused in every mode, after an allowlisting it is admitted
  in every mode, and removing a denylisted address falls back to the mode.\<close>

theorem access_lists:
  assumes "access_ok s"
  shows "(add_denylisted e u s = Inr s1 \<longrightarrow>
            access_ok s1 \<and> enforce_access_control s1 u = Inl (Fail AccessDenied) \<and>
            (\<forall>v. v \<noteq> u \<longrightarrow> enforce_access_control s1 v = enforce_access_control s v)) \<and>
         (add_allowlisted e u s = Inr s2 \<longrightarrow>
            access_ok s2 \<and> enforce_access_control s2 u = Inr () \<and>
            (\<forall>v. v \<noteq> u \<longrightarrow> enforce_access_control s2 v = enforce_access_control s v)) \<and>
         (remove_denylisted e u s = Inr s3 \<longrightarrow>
            access_ok s3 \<and> (a_denied (s_access s) u \<noteq> None \<longrightarrow>
              (enforce_access_control s3 u = Inr () \<longleftrightarrow> \<not> is_access_control_enabled s))) \<and>
         (remove_allowlisted e u s = Inr s4 \<longrightarrow>
            access_ok s4 \<and> (is_access_control_enabled s \<longrightarrow>
              enforce_access_control s4 u = Inl (Fail AccessDenied)))"
proof (intro conjI impI)
  assume "add_denylisted e u s = Inr s1"
  then have a: "s_access s1 = (s_access s)\<lparr>a_denied := (a_denied (s_access s))(u \<mapsto> True),
      a_allowed := (a_allowed (s_access s))(u := None)\<rparr>"
    by (auto simp: add_denylisted_def and_then_Inr Let_def)
  show "access_ok s1" "enforce_access_control s1 u = Inl (Fail AccessDenied)"
    "\<forall>v. v \<noteq> u \<longrightarrow> enforce_access_control s1 v = enforce_access_control s v"
    using assms by (auto simp: a access_ok_def enforce_access_control_def is_access_control_enabled_def)
next
  assume "add_allowlisted e u s = Inr s2"
  then have a: "s_access s2 = (s_access s)\<lparr>a_allowed := (a_allowed (s_access s))(u \<mapsto> True),
      a_denied := (a_denied (s_access s))(u := None)\<rparr>"
    by (auto simp: add_allowlisted_def and_then_Inr Let_def)
  show "access_ok s2" "enforce_access_control s2 u = Inr ()"
    "\<forall>v. v \<noteq> u \<longrightarrow> enforce_access_control s2 v = enforce_access_control s v"
    using assms by (auto simp: a access_ok_def enforce_access_control_def is_access_control_enabled_def)
next
  assume "remove_denylisted e u s = Inr s3"
  then have a: "s_access s3 = (s_access s)\<lparr>a_denied := (a_denied (s_access s))(u := None)\<rparr>"
    by (auto simp: remove_denylisted_def and_then_Inr fun_upd_idem split: if_splits)
  show "access_ok s3" using assms by (auto simp: a access_ok_def)
  assume "a_denied (s_access s) u \<noteq> None"
  moreover have "a_denied (s_access s) u = None \<or> a_allowed (s_access s) u = None"
    using assms unfolding access_ok_def by (rule spec)
  ultimately have "a_allowed (s_access s) u = None" by fastforce
  then show "enforce_access_control s3 u = Inr () \<longleftrightarrow> \<not> is_access_control_enabled s"
    by (simp add: a enforce_access_control_def is_access_control_enabled_def)
next
  assume "remove_allowlisted e u s = Inr s4"
  then have a: "s_access s4 = (s_access s)\<lparr>a_allowed := (a_allowed (s_access s))(u := None)\<rparr>"
    by (auto simp: remove_allowlisted_def and_then_Inr fun_upd_idem split: if_splits)
  show "access_ok s4" using assms by (auto simp: a access_ok_def)
  assume "is_access_control_enabled s"
  then show "enforce_access_control s4 u = Inl (Fail AccessDenied)"
    by (simp add: a enforce_access_control_def is_access_control_enabled_def)
qed

theorem access_lists_witness:
  "let s = empty_store\<lparr>s_admin := Some 1, s_schema := Some 3\<rparr>
   in \<exists>s1. add_denylisted (sample_env 1 1 [1]) 7 s = Inr s1 \<and>
        enforce_access_control s1 7 = Inl (Fail AccessDenied) \<and> enforce_access_control s1 8 = Inr ()"
proof -
  let ?s = "empty_store\<lparr>s_admin := Some 1, s_schema := Some 3\<rparr>"
  have ok: "access_ok ?s" by (simp add: access_ok_def empty_store_def)
  obtain s1 where run: "add_denylisted (sample_env 1 1 [1]) 7 ?s = Inr s1"
    by (simp add: add_denylisted_def admin_gate_def admin_unpaused_def admin_auth_def require_auth_def
        require_supported_schema_def schema_version_def ensure_not_paused_def policy_gate_def
        current_mode_def empty_store_def sample_env_def protocol_constants Let_def)
  have "enforce_access_control ?s 8 = Inr ()"
    by (simp add: enforce_access_control_def is_access_control_enabled_def empty_store_def)
  with access_lists[OF ok, of "sample_env 1 1 [1]" 7 s1] run show ?thesis unfolding Let_def by auto
qed

end
