(* ===== verification/Round_Book.thy ===== *)
theory Round_Book
  imports Store
begin

text \<open>
  The invariant of the book of rounds and positions, and its preservation under the
  updates the contract makes: a round opens, a user joins it or leaves it, a commitment is
  revealed, a resolved round waits for its dispute window, a round closes.  \<open>round_ok\<close> ties
  a round record to the positions stored under its id: the participant list names exactly
  the users with a position, once each, and the cached pools are the sums of the stakes of
  the two sides.
\<close>

definition upd_book :: "(book \<Rightarrow> book) \<Rightarrow> store \<Rightarrow> store" where
  "upd_book f s = s\<lparr>s_book := f (s_book s)\<rparr>"

lemma upd_book_fields [simp]:
  "s_book (upd_book f s) = f (s_book s)" "s_money (upd_book f s) = s_money s"
  "s_config (upd_book f s) = s_config s" "s_ins (upd_book f s) = s_ins s"
  "s_orc (upd_book f s) = s_orc s" "s_board (upd_book f s) = s_board s"
  "s_history (upd_book f s) = s_history s" "s_access (upd_book f s) = s_access s"
  "s_gov (upd_book f s) = s_gov s" "s_mint (upd_book f s) = s_mint s"
  "s_admin (upd_book f s) = s_admin s" "s_oracle (upd_book f s) = s_oracle s"
  "s_mode (upd_book f s) = s_mode s" "s_schema (upd_book f s) = s_schema s"
  "balance (upd_book f s) u = balance s u" "pending_of (upd_book f s) u = pending_of s u"
  "held (upd_book f s) = held s"
  by (simp_all add: upd_book_def balance_def pending_of_def held_def)

section \<open>The invariant\<close>

definition members :: "book \<Rightarrow> nat \<Rightarrow> address list" where
  "members b rid = get_or (b_participants b) [] rid"

definition side_stake :: "book \<Rightarrow> nat \<Rightarrow> bet_side \<Rightarrow> address \<Rightarrow> int" where
  "side_stake b rid side u =
     (case b_positions b (rid, u) of
        Some p \<Rightarrow> if pos_side p = side then pos_amount p else 0
      | None \<Rightarrow> 0)"

definition side_pool :: "book \<Rightarrow> nat \<Rightarrow> bet_side \<Rightarrow> int" where
  "side_pool b rid side = sum_list (map (side_stake b rid side) (members b rid))"

definition round_ok :: "book \<Rightarrow> round \<Rightarrow> bool" where
  "round_ok b r \<longleftrightarrow> distinct (members b (r_id r)) \<and>
     (case r_mode r of
        UpDown \<Rightarrow>
          (\<forall>u. b_predictions b (r_id r, u) = None \<and> b_commitments b (r_id r, u) = None) \<and>
          (\<forall>u. u \<in> set (members b (r_id r)) \<longleftrightarrow> b_positions b (r_id r, u) \<noteq> None) \<and>
          r_pool_up r = side_pool b (r_id r) Up \<and> r_pool_down r = side_pool b (r_id r) Down
      | Precision \<Rightarrow>
          (\<forall>u. b_positions b (r_id r, u) = None) \<and>
          (\<forall>u. u \<in> set (members b (r_id r)) \<longleftrightarrow> precision_stake b (r_id r, u) \<noteq> None) \<and>
          r_pool_up r = 0 \<and> r_pool_down r = 0)"

definition stakes_ok :: "book \<Rightarrow> bool" where
  "stakes_ok b \<longleftrightarrow> book_finite b \<and>
     (\<forall>k p. b_positions b k = Some p \<longrightarrow> 0 < pos_amount p) \<and>
     (\<forall>k p. b_predictions b k = Some p \<longrightarrow> 0 < pp_amount p \<and> pp_user p = snd k) \<and>
     (\<forall>k c. b_commitments b k = Some c \<longrightarrow> 0 < pc_amount c) \<and>
     (\<forall>k p c. b_predictions b k = Some p \<longrightarrow> b_commitments b k = Some c \<longrightarrow> pp_amount p = pc_amount c)"

definition fresh_ids :: "book \<Rightarrow> bool" where
  "fresh_ids b \<longleftrightarrow> (\<forall>rid. unwrap_or (b_last_id b) 0 < rid \<longrightarrow>
     b_participants b rid = None \<and> b_disputes b rid = None \<and>
     (\<forall>u. b_positions b (rid, u) = None \<and> b_predictions b (rid, u) = None \<and> b_commitments b (rid, u) = None))"

definition disputes_ok :: "book \<Rightarrow> bool" where
  "disputes_ok b \<longleftrightarrow> (\<forall>rid pd. b_disputes b rid = Some pd \<longrightarrow>
     r_id (pd_round pd) = rid \<and> round_ok b (pd_round pd) \<and>
     b_start_ledgers b (r_start_ledger (pd_round pd)) = Some rid)"

definition active_ok :: "book \<Rightarrow> bool" where
  "active_ok b \<longleftrightarrow> (\<forall>r. b_active b = Some r \<longrightarrow>
     b_disputes b (r_id r) = None \<and> r_id r \<le> unwrap_or (b_last_id b) 0 \<and> round_ok b r \<and>
     b_start_ledgers b (r_start_ledger r) = Some (r_id r))"

definition book_ok :: "book \<Rightarrow> bool" where
  "book_ok b \<longleftrightarrow> stakes_ok b \<and> fresh_ids b \<and> disputes_ok b \<and> active_ok b"

lemma members_participants: "participants_of s rid = members (s_book s) rid"
  by (simp add: participants_of_def members_def)

lemma book_okD:
  assumes "book_ok b"
  shows "stakes_ok b" "fresh_ids b" "disputes_ok b" "active_ok b" "book_finite b"
  using assms unfolding book_ok_def stakes_ok_def by blast+

lemma active_okD:
  assumes "book_ok b" "b_active b = Some r"
  shows "round_ok b r" "b_disputes b (r_id r) = None" "r_id r \<le> unwrap_or (b_last_id b) 0"
    "b_start_ledgers b (r_start_ledger r) = Some (r_id r)"
  using assms unfolding book_ok_def active_ok_def by blast+

lemma disputes_okD:
  assumes "book_ok b" "b_disputes b rid = Some pd"
  shows "round_ok b (pd_round pd)" "r_id (pd_round pd) = rid"
    "b_start_ledgers b (r_start_ledger (pd_round pd)) = Some rid"
  using assms unfolding book_ok_def disputes_ok_def by blast+

text \<open>What is stored under one round id decides \<open>round_ok\<close>.\<close>

definition same_at :: "nat \<Rightarrow> book \<Rightarrow> book \<Rightarrow> bool" where
  "same_at rid b b' \<longleftrightarrow> members b' rid = members b rid \<and>
     (\<forall>u. b_positions b' (rid, u) = b_positions b (rid, u) \<and> b_predictions b' (rid, u) = b_predictions b (rid, u) \<and>
          b_commitments b' (rid, u) = b_commitments b (rid, u))"

lemma round_ok_same: "same_at (r_id r) b b' \<Longrightarrow> round_ok b' r = round_ok b r"
proof -
  assume s: "same_at (r_id r) b b'"
  then have "side_stake b' (r_id r) = side_stake b (r_id r)" "\<And>u. precision_stake b' (r_id r, u) = precision_stake b (r_id r, u)"
    by (simp_all add: same_at_def side_stake_def[abs_def] precision_stake_def cong: option.case_cong)
  with s show ?thesis by (simp add: round_ok_def side_pool_def same_at_def cong: round_mode.case_cong)
qed

text \<open>Under one round id only: every other round keeps its invariant.\<close>

lemma disputes_ok_frame:
  assumes "disputes_ok b" "\<And>rid. b_disputes b' rid \<noteq> None \<Longrightarrow> b_disputes b' rid = b_disputes b rid \<and> same_at rid b b'"
    "\<And>l rid. b_start_ledgers b l = Some rid \<Longrightarrow> b_start_ledgers b' l = Some rid"
  shows "disputes_ok b'"
  unfolding disputes_ok_def
proof (intro allI impI)
  fix rid pd
  assume pd: "b_disputes b' rid = Some pd"
  then have "b_disputes b' rid = b_disputes b rid \<and> same_at rid b b'" by (intro assms(2)) simp
  then have d: "b_disputes b rid = Some pd" and sm: "same_at rid b b'" using pd by simp_all
  from assms(1) d have r: "r_id (pd_round pd) = rid" "round_ok b (pd_round pd)"
    "b_start_ledgers b (r_start_ledger (pd_round pd)) = Some rid"
    unfolding disputes_ok_def by blast+
  then show "r_id (pd_round pd) = rid \<and> round_ok b' (pd_round pd) \<and>
      b_start_ledgers b' (r_start_ledger (pd_round pd)) = Some rid"
    using sm assms(3) by (simp add: round_ok_same)
qed

section \<open>Opening, staging, closing\<close>

lemma book_ok_open:
  assumes "book_ok b" "b_active b = None" "rid = Suc (unwrap_or (b_last_id b) 0)"
    "r_id r = rid" "r_pool_up r = 0" "r_pool_down r = 0" "b_start_ledgers b (r_start_ledger r) = None"
  shows "book_ok (b\<lparr>b_last_id := Some rid, b_active := Some r,
           b_start_ledgers := (b_start_ledgers b)(r_start_ledger r \<mapsto> rid)\<rparr>)" (is "book_ok ?b")
proof -
  have "unwrap_or (b_last_id b) 0 < rid" using assms(3) by simp
  then have fresh: "b_participants b rid = None" "b_disputes b rid = None"
    "\<forall>u. b_positions b (rid, u) = None \<and> b_predictions b (rid, u) = None \<and> b_commitments b (rid, u) = None"
    using book_okD(2)[OF assms(1)] unfolding fresh_ids_def by blast+
  have "round_ok ?b r"
    using fresh assms(4-6)
    by (simp add: round_ok_def members_def get_or_def side_pool_def precision_stake_def split: round_mode.split)
  then have "active_ok ?b" using fresh(2) assms(4) by (simp add: active_ok_def)
  moreover have "disputes_ok ?b"
    by (rule disputes_ok_frame[OF book_okD(3)[OF assms(1)]]) (use assms(7) in \<open>auto simp: same_at_def members_def\<close>)
  moreover have "stakes_ok ?b"
    using book_okD(1)[OF assms(1)] by (simp add: stakes_ok_def book_finite_def)
  moreover have "fresh_ids ?b"
    using book_okD(2)[OF assms(1)] assms(3) by (simp add: fresh_ids_def)
  ultimately show ?thesis by (simp add: book_ok_def)
qed

lemma book_ok_stage:
  assumes "book_ok b" "b_active b = Some r" "pd_round pd = r"
  shows "book_ok (b\<lparr>b_active := None, b_disputes := (b_disputes b)(r_id r \<mapsto> pd)\<rparr>)" (is "book_ok ?b")
proof -
  note a = active_okD[OF assms(1,2)]
  have sm: "same_at rid b ?b" for rid by (simp add: same_at_def members_def)
  have "disputes_ok ?b"
    unfolding disputes_ok_def
  proof (intro allI impI)
    fix rid q
    assume q: "b_disputes ?b rid = Some q"
    show "r_id (pd_round q) = rid \<and> round_ok ?b (pd_round q) \<and> b_start_ledgers ?b (r_start_ledger (pd_round q)) = Some rid"
    proof (cases "rid = r_id r")
      case True
      then show ?thesis using q a(1,4) assms(3) round_ok_same[OF sm] by simp
    next
      case False
      then have "b_disputes b rid = Some q" using q by simp
      from disputes_okD[OF assms(1) this] show ?thesis using round_ok_same[OF sm] by simp
    qed
  qed
  moreover have "fresh_ids ?b"
    using book_okD(2)[OF assms(1)] a(3) by (auto simp: fresh_ids_def)
  moreover have "stakes_ok ?b"
    using book_okD(1)[OF assms(1)] by (simp add: stakes_ok_def book_finite_def)
  ultimately show ?thesis by (simp add: book_ok_def active_ok_def)
qed

text \<open>Closing: the positions and participants of \<open>rid\<close> go, the dispute entry may go, and the
  active round is kept or removed, but \<open>rid\<close> itself must not stay open.\<close>

definition close_book :: "nat \<Rightarrow> address list \<Rightarrow> book \<Rightarrow> book" where
  "close_book rid us b =
     b\<lparr>b_positions := clear_keys rid us (b_positions b), b_predictions := clear_keys rid us (b_predictions b),
       b_commitments := clear_keys rid us (b_commitments b), b_participants := (b_participants b)(rid := None)\<rparr>"

lemma clear_keys_Some: "clear_keys rid us m k = Some v \<Longrightarrow> m k = Some v"
  by (auto simp: clear_keys_def split: if_splits)

lemma finite_clear_keys: "finite (dom m) \<Longrightarrow> finite (dom (clear_keys rid us m))"
  by (erule rev_finite_subset) (auto dest: clear_keys_Some)

lemma clear_keys_None: "m k = None \<Longrightarrow> clear_keys rid us m k = None"
  by (simp add: clear_keys_def)

lemma clear_keys_other: "rid' \<noteq> rid \<Longrightarrow> clear_keys rid us m (rid', u) = m (rid', u)"
  by (simp add: clear_keys_def)

lemma stakes_ok_close: "stakes_ok b \<Longrightarrow> stakes_ok (close_book rid us b)"
  unfolding stakes_ok_def book_finite_def close_book_def
  by (simp add: finite_clear_keys del: split_paired_All) (blast dest: clear_keys_Some)

lemma book_ok_close:
  assumes ok: "book_ok b"
    and act: "active = b_active b \<or> active = None"
    and dis: "disputes = b_disputes b \<or> disputes = (b_disputes b)(rid := None)"
    and gone: "\<And>q. active = Some q \<Longrightarrow> r_id q \<noteq> rid" "disputes rid = None"
  shows "book_ok ((close_book rid us b)\<lparr>b_active := active, b_disputes := disputes\<rparr>)" (is "book_ok ?b")
proof -
  have sm: "rid' \<noteq> rid \<Longrightarrow> same_at rid' b ?b" for rid'
    by (simp add: same_at_def members_def close_book_def clear_keys_other)
  have "disputes_ok ?b"
  proof (rule disputes_ok_frame[OF book_okD(3)[OF ok]])
    fix rid'
    assume "b_disputes ?b rid' \<noteq> None"
    then show "b_disputes ?b rid' = b_disputes b rid' \<and> same_at rid' b ?b"
      using dis gone(2) sm by (cases "rid' = rid") auto
  qed (simp add: close_book_def)
  moreover have "active_ok ?b"
    unfolding active_ok_def
  proof (intro allI impI)
    fix q
    assume "b_active ?b = Some q"
    then have q: "active = Some q" "b_active b = Some q" using act by auto
    note a = active_okD[OF ok q(2)]
    have "disputes (r_id q) = None" using dis a(2) by auto
    then show "b_disputes ?b (r_id q) = None \<and> r_id q \<le> unwrap_or (b_last_id ?b) 0 \<and> round_ok ?b q \<and>
        b_start_ledgers ?b (r_start_ledger q) = Some (r_id q)"
      using a round_ok_same[OF sm[OF gone(1)[OF q(1)]]] by (simp add: close_book_def)
  qed
  moreover have "fresh_ids ?b"
    using book_okD(2)[OF ok] dis by (auto simp: fresh_ids_def close_book_def clear_keys_None)
  moreover have "stakes_ok ?b"
    using stakes_ok_close[OF book_okD(1)[OF ok]] by (simp add: stakes_ok_def book_finite_def)
  ultimately show ?thesis by (simp add: book_ok_def)
qed

section \<open>Changes inside the active round\<close>

lemma book_ok_active_update:
  assumes ok: "book_ok b" and act: "b_active b = Some r" "b_active b' = Some r'"
    and same: "r_id r' = r_id r" "r_start_ledger r' = r_start_ledger r" "b_disputes b' = b_disputes b"
      "b_start_ledgers b' = b_start_ledgers b" "b_last_id b' = b_last_id b"
    and other: "\<And>rid. rid \<noteq> r_id r \<Longrightarrow> same_at rid b b' \<and> b_participants b' rid = b_participants b rid"
    and st: "stakes_ok b'" and r: "round_ok b' r'"
  shows "book_ok b'"
proof -
  note a = active_okD[OF ok act(1)]
  have "disputes_ok b'"
  proof (rule disputes_ok_frame[OF book_okD(3)[OF ok]])
    fix rid
    assume "b_disputes b' rid \<noteq> None"
    then show "b_disputes b' rid = b_disputes b rid \<and> same_at rid b b'"
      using a(2) same(3) other by (cases "rid = r_id r") auto
  qed (simp add: same)
  moreover have "active_ok b'" using a act(2) same r by (simp add: active_ok_def)
  moreover have "fresh_ids b'"
    unfolding fresh_ids_def
  proof (intro allI impI)
    fix rid
    assume f: "unwrap_or (b_last_id b') 0 < rid"
    then have ne: "rid \<noteq> r_id r" using a(3) same(5) by auto
    then show "b_participants b' rid = None \<and> b_disputes b' rid = None \<and>
        (\<forall>u. b_positions b' (rid, u) = None \<and> b_predictions b' (rid, u) = None \<and> b_commitments b' (rid, u) = None)"
      using other[OF ne] book_okD(2)[OF ok] f same by (simp add: fresh_ids_def same_at_def)
  qed
  ultimately show ?thesis using st by (simp add: book_ok_def)
qed

definition join_updown :: "round \<Rightarrow> address \<Rightarrow> user_position \<Rightarrow> round \<Rightarrow> book \<Rightarrow> book" where
  "join_updown r u p r' b =
     b\<lparr>b_positions := (b_positions b)((r_id r, u) \<mapsto> p),
       b_participants := (b_participants b)(r_id r \<mapsto> members b (r_id r) @ [u]), b_active := Some r'\<rparr>"

definition credit_pool :: "bet_side \<Rightarrow> int \<Rightarrow> round \<Rightarrow> round" where
  "credit_pool side x r = (case side of Up \<Rightarrow> r\<lparr>r_pool_up := r_pool_up r + x\<rparr> | Down \<Rightarrow> r\<lparr>r_pool_down := r_pool_down r + x\<rparr>)"

lemma credit_pool_fields [simp]:
  "r_id (credit_pool side x r) = r_id r" "r_start_ledger (credit_pool side x r) = r_start_ledger r"
  "r_mode (credit_pool side x r) = r_mode r" "r_end_ledger (credit_pool side x r) = r_end_ledger r"
  "r_bet_end_ledger (credit_pool side x r) = r_bet_end_ledger r"
  "r_price_start (credit_pool side x r) = r_price_start r"
  by (cases side; simp add: credit_pool_def)+

lemma side_pool_split: "side_pool b rid Up + side_pool b rid Down = sum_list (map (\<lambda>u. get_or (position_stake b) 0 (rid, u)) (members b rid))"
proof -
  have e: "side_stake b rid Up u + side_stake b rid Down u = get_or (position_stake b) 0 (rid, u)" for u
    by (auto simp: side_stake_def position_stake_def get_or_def split: option.splits intro: bet_side.exhaust)
  have "side_pool b rid Up + side_pool b rid Down = sum_list (map (\<lambda>u. side_stake b rid Up u + side_stake b rid Down u) (members b rid))"
    by (simp add: side_pool_def sum_list_addf)
  then show ?thesis by (simp add: e)
qed

lemma book_ok_join_updown:
  assumes ok: "book_ok b" and act: "b_active b = Some r" and mode: "r_mode r = UpDown"
    and free: "b_positions b (r_id r, u) = None" and pos: "0 < pos_amount p"
  shows "book_ok (join_updown r u p (credit_pool (pos_side p) (pos_amount p) r) b)" (is "book_ok ?b")
proof -
  note a = active_okD[OF ok act]
  let ?rid = "r_id r" and ?r = "credit_pool (pos_side p) (pos_amount p) r"
  have r: "distinct (members b ?rid)" "\<forall>v. b_predictions b (?rid, v) = None \<and> b_commitments b (?rid, v) = None"
    "\<forall>v. v \<in> set (members b ?rid) \<longleftrightarrow> b_positions b (?rid, v) \<noteq> None"
    "r_pool_up r = side_pool b ?rid Up" "r_pool_down r = side_pool b ?rid Down"
    using a(1) mode by (simp_all add: round_ok_def)
  have u: "u \<notin> set (members b ?rid)" using r(3) free by simp
  have mem: "members ?b ?rid = members b ?rid @ [u]" by (simp add: join_updown_def members_def get_or_def)
  have ss: "side_stake ?b ?rid side v = (if v = u then (if pos_side p = side then pos_amount p else 0) else side_stake b ?rid side v)" for side v
    by (simp add: side_stake_def join_updown_def)
  have old: "map (side_stake ?b ?rid side) (members b ?rid) = map (side_stake b ?rid side) (members b ?rid)" for side
    using u by (auto simp: ss)
  have pool: "side_pool ?b ?rid side = side_pool b ?rid side + (if pos_side p = side then pos_amount p else 0)" for side
    by (simp add: side_pool_def mem old ss)
  have "round_ok ?b ?r"
    using r u mode mem pool
    by (cases "pos_side p") (auto simp: round_ok_def credit_pool_def join_updown_def)
  moreover have "stakes_ok ?b"
    using book_okD(1)[OF ok] pos r(2) by (simp add: stakes_ok_def book_finite_def join_updown_def)
  ultimately show ?thesis
    by (intro book_ok_active_update[OF ok act, of ?b ?r])
       (auto simp: join_updown_def same_at_def members_def)
qed

lemma stakes_join_updown:
  assumes "book_finite b" "b_positions b (r_id r, u) = None"
  shows "total_of (position_stake (join_updown r u p r' b)) + total_of (precision_stake (join_updown r u p r' b))
       = total_of (position_stake b) + total_of (precision_stake b) + pos_amount p"
proof -
  have "position_stake (join_updown r u p r' b) = (position_stake b)((r_id r, u) \<mapsto> pos_amount p)"
    "precision_stake (join_updown r u p r' b) = precision_stake b"
    by (auto simp: position_stake_def precision_stake_def join_updown_def fun_eq_iff cong: option.case_cong)
  moreover have "get_or (position_stake b) 0 (r_id r, u) = 0"
    using assms(2) by (simp add: get_or_def position_stake_def)
  ultimately show ?thesis using total_of_upd[OF stakes_finite(1)[OF assms(1)]] by simp
qed

text \<open>A precision participant joins with a prediction or with a commitment.\<close>

datatype entry = Predicted precision_prediction | Committed precision_commitment

definition entry_amount :: "entry \<Rightarrow> int" where
  "entry_amount x = (case x of Predicted p \<Rightarrow> pp_amount p | Committed c \<Rightarrow> pc_amount c)"

definition entry_ok :: "address \<Rightarrow> entry \<Rightarrow> bool" where
  "entry_ok u x \<longleftrightarrow> 0 < entry_amount x \<and> (case x of Predicted p \<Rightarrow> pp_user p = u | Committed c \<Rightarrow> True)"

definition join_precision :: "round \<Rightarrow> address \<Rightarrow> entry \<Rightarrow> book \<Rightarrow> book" where
  "join_precision r u x b =
     b\<lparr>b_predictions := (case x of Predicted p \<Rightarrow> (b_predictions b)((r_id r, u) \<mapsto> p) | Committed c \<Rightarrow> b_predictions b),
       b_commitments := (case x of Predicted p \<Rightarrow> b_commitments b | Committed c \<Rightarrow> (b_commitments b)((r_id r, u) \<mapsto> c)),
       b_participants := (b_participants b)(r_id r \<mapsto> members b (r_id r) @ [u])\<rparr>"

lemma precision_stake_join:
  assumes "precision_stake b (r_id r, u) = None"
  shows "precision_stake (join_precision r u x b) = (precision_stake b)((r_id r, u) \<mapsto> entry_amount x)"
proof -
  have "b_predictions b (r_id r, u) = None" "b_commitments b (r_id r, u) = None"
    using assms by (auto simp: precision_stake_def split: option.splits)
  then show ?thesis
    by (cases x) (auto simp: precision_stake_def join_precision_def entry_amount_def fun_eq_iff cong: option.case_cong)
qed

lemma book_ok_join_precision:
  assumes ok: "book_ok b" and act: "b_active b = Some r" and mode: "r_mode r = Precision"
    and free: "precision_stake b (r_id r, u) = None" and x: "entry_ok u x"
  shows "book_ok (join_precision r u x b)" (is "book_ok ?b")
proof -
  note a = active_okD[OF ok act]
  let ?rid = "r_id r"
  have f: "b_predictions b (?rid, u) = None" "b_commitments b (?rid, u) = None"
    using free by (auto simp: precision_stake_def split: option.splits)
  have mem: "members ?b ?rid = members b ?rid @ [u]" by (simp add: join_precision_def members_def get_or_def)
  have "round_ok ?b r"
    using a(1) mode free mem precision_stake_join[OF free, of x]
    by (auto simp: round_ok_def) (simp_all add: join_precision_def)
  moreover have "stakes_ok ?b"
    using book_okD(1)[OF ok] x f
    by (cases x) (auto simp: stakes_ok_def book_finite_def join_precision_def entry_ok_def entry_amount_def)
  ultimately show ?thesis
    by (intro book_ok_active_update[OF ok act, of ?b r])
       (cases x; auto simp: join_precision_def same_at_def members_def act)+
qed

lemma stakes_join_precision:
  assumes "book_finite b" "precision_stake b (r_id r, u) = None"
  shows "total_of (position_stake (join_precision r u x b)) + total_of (precision_stake (join_precision r u x b))
       = total_of (position_stake b) + total_of (precision_stake b) + entry_amount x"
proof -
  have "position_stake (join_precision r u x b) = position_stake b"
    by (auto simp: position_stake_def join_precision_def fun_eq_iff)
  moreover have "get_or (precision_stake b) 0 (r_id r, u) = 0" using assms(2) by (simp add: get_or_def)
  ultimately show ?thesis
    using total_of_upd[OF stakes_finite(2)[OF assms(1)]] precision_stake_join[OF assms(2)] by simp
qed

definition reveal :: "round \<Rightarrow> address \<Rightarrow> precision_commitment \<Rightarrow> nat \<Rightarrow> book \<Rightarrow> book" where
  "reveal r u c price b =
     b\<lparr>b_commitments := (b_commitments b)((r_id r, u) \<mapsto> c\<lparr>pc_revealed := True\<rparr>),
       b_predictions := (b_predictions b)((r_id r, u) \<mapsto> \<lparr>pp_user = u, pp_price = price, pp_amount = pc_amount c\<rparr>)\<rparr>"

lemma precision_stake_reveal:
  assumes "stakes_ok b" "b_commitments b (r_id r, u) = Some c"
  shows "precision_stake (reveal r u c price b) = precision_stake b"
  using assms by (fastforce simp: precision_stake_def reveal_def fun_eq_iff stakes_ok_def split: option.splits)

lemma book_ok_reveal:
  assumes ok: "book_ok b" and act: "b_active b = Some r" and mode: "r_mode r = Precision"
    and c: "b_commitments b (r_id r, u) = Some c"
  shows "book_ok (reveal r u c price b)" (is "book_ok ?b")
proof -
  note a = active_okD[OF ok act] and st = book_okD(1)[OF ok]
  have "round_ok ?b r"
    using a(1) mode precision_stake_reveal[OF st c, of price]
    by (auto simp: round_ok_def) (simp_all add: reveal_def members_def)
  moreover have "0 < pc_amount c" using st c unfolding stakes_ok_def by blast
  then have "stakes_ok ?b" using st c by (simp add: stakes_ok_def book_finite_def reveal_def)
  ultimately show ?thesis
    by (intro book_ok_active_update[OF ok act, of ?b r]) (auto simp: reveal_def same_at_def members_def act)
qed

definition leave_updown :: "round \<Rightarrow> address \<Rightarrow> round \<Rightarrow> book \<Rightarrow> book" where
  "leave_updown r u r' b =
     b\<lparr>b_active := Some r', b_positions := (b_positions b)((r_id r, u) := None),
       b_participants := (b_participants b)(r_id r \<mapsto> filter (\<lambda>a. a \<noteq> u) (members b (r_id r)))\<rparr>"

lemma sum_list_filter_out:
  "distinct xs \<Longrightarrow> u \<in> set xs \<Longrightarrow> sum_list (map f (filter (\<lambda>a. a \<noteq> u) xs)) = sum_list (map f xs) - (f u :: int)"
proof (induction xs)
  case (Cons x xs)
  show ?case
  proof (cases "x = u")
    case True
    then have "filter (\<lambda>a. a \<noteq> u) xs = xs" using Cons.prems by (auto simp: filter_id_conv)
    with True show ?thesis by simp
  next
    case False
    with Cons show ?thesis by simp
  qed
qed simp

lemma book_ok_leave:
  assumes ok: "book_ok b" and act: "b_active b = Some r" and mode: "r_mode r = UpDown"
    and p: "b_positions b (r_id r, u) = Some p"
  shows "book_ok (leave_updown r u (credit_pool (pos_side p) (- pos_amount p) r) b)" (is "book_ok ?b")
proof -
  note a = active_okD[OF ok act]
  let ?rid = "r_id r" and ?r = "credit_pool (pos_side p) (- pos_amount p) r"
  have r: "distinct (members b ?rid)" "\<forall>v. b_predictions b (?rid, v) = None \<and> b_commitments b (?rid, v) = None"
    "\<forall>v. v \<in> set (members b ?rid) \<longleftrightarrow> b_positions b (?rid, v) \<noteq> None"
    "r_pool_up r = side_pool b ?rid Up" "r_pool_down r = side_pool b ?rid Down"
    using a(1) mode by (simp_all add: round_ok_def)
  have u: "u \<in> set (members b ?rid)" using r(3) p by simp
  have mem: "members ?b ?rid = filter (\<lambda>a. a \<noteq> u) (members b ?rid)"
    by (simp add: leave_updown_def members_def get_or_def)
  have ss: "v \<noteq> u \<Longrightarrow> side_stake ?b ?rid side v = side_stake b ?rid side v" for side v
    by (simp add: side_stake_def leave_updown_def)
  have "side_pool ?b ?rid side = sum_list (map (side_stake b ?rid side) (filter (\<lambda>a. a \<noteq> u) (members b ?rid)))" for side
    unfolding side_pool_def mem using ss by (intro arg_cong[where f = sum_list] map_cong) auto
  then have pool: "side_pool ?b ?rid side = side_pool b ?rid side - (if pos_side p = side then pos_amount p else 0)" for side
    using sum_list_filter_out[OF r(1) u, of "side_stake b ?rid side"] p by (simp add: side_pool_def side_stake_def)
  have "round_ok ?b ?r"
    using r mode mem pool
    by (cases "pos_side p") (auto simp: round_ok_def credit_pool_def leave_updown_def)
  moreover have "stakes_ok ?b"
    using book_okD(1)[OF ok] by (auto simp: stakes_ok_def book_finite_def leave_updown_def)
  ultimately show ?thesis
    by (intro book_ok_active_update[OF ok act, of ?b ?r])
       (auto simp: leave_updown_def same_at_def members_def)
qed

lemma stakes_leave:
  assumes "book_finite b" "b_positions b (r_id r, u) = Some p"
  shows "total_of (position_stake (leave_updown r u r' b)) + total_of (precision_stake (leave_updown r u r' b))
       = total_of (position_stake b) + total_of (precision_stake b) - pos_amount p"
proof -
  have "position_stake (leave_updown r u r' b) = (position_stake b)((r_id r, u) := None)"
    "precision_stake (leave_updown r u r' b) = precision_stake b"
    by (auto simp: position_stake_def precision_stake_def leave_updown_def fun_eq_iff cong: option.case_cong)
  moreover have "get_or (position_stake b) 0 (r_id r, u) = pos_amount p"
    using assms(2) by (simp add: get_or_def position_stake_def)
  ultimately show ?thesis using total_of_del[OF stakes_finite(1)[OF assms(1)]] by simp
qed

end
