(* ===== verification/Betting.thy ===== *)
theory Betting
  imports Configuration Access_Control Round_Book
begin

text \<open>
  \<open>contracts/src/betting.rs\<close>: opening a round (directly or from the template), UpDown bets,
  Precision predictions placed in the open or committed and revealed, the early cash-out,
  and the one-time mint.  The invariant \<open>book_ok\<close> ties the round record to the positions in
  the book; the lemmas show that every operation keeps it and moves value between a
  balance and the book without creating any.
\<close>

section \<open>Guards\<close>

definition is_zero_bytes32 :: "bytes \<Rightarrow> bool" where
  "is_zero_bytes32 v \<longleftrightarrow> v = replicate 32 0"

text \<open>The loop of \<open>salt_has_minimum_entropy\<close> with its two flags; \<open>bytes[0]\<close> of a 32-byte
  array exists.\<close>

definition salt_has_minimum_entropy :: "bytes \<Rightarrow> bool" where
  "salt_has_minimum_entropy salt =
     (let first = hd salt;
          (saw_nonzero, saw_different) =
            fold (\<lambda>b (nz, df). (nz \<or> b \<noteq> 0, df \<or> b \<noteq> first)) salt (False, False)
      in saw_nonzero \<and> saw_different)"

definition user_round_exposure :: "nat \<Rightarrow> address \<Rightarrow> store \<Rightarrow> int" where
  "user_round_exposure rid user s =
     (let x0 = 0;
          x1 = (case b_positions (s_book s) (rid, user) of None \<Rightarrow> x0 | Some p \<Rightarrow> saturating_add x0 (pos_amount p));
          x2 = (case b_predictions (s_book s) (rid, user) of None \<Rightarrow> x1 | Some p \<Rightarrow> saturating_add x1 (pp_amount p));
          x3 = (case b_commitments (s_book s) (rid, user) of None \<Rightarrow> x2 | Some c \<Rightarrow> saturating_add x2 (pc_amount c))
      in x3)"

definition enforce_user_round_exposure :: "nat \<Rightarrow> address \<Rightarrow> int \<Rightarrow> store \<Rightarrow> unit res" where
  "enforce_user_round_exposure rid user amount s =
     (case c_max_exposure (s_config s) of
        None \<Rightarrow> Inr ()
      | Some max_exposure \<Rightarrow>
          and_then (ok_or (checked_add (user_round_exposure rid user s) amount) Overflow) (\<lambda>next_exposure.
          if next_exposure > max_exposure then Inl (Fail ExposureCapExceeded) else Inr ()))"

text \<open>What the staking entry points share: the signature, mode and admission of the user; the
  bounds of the stake; the betting window with its close buffer; the debit and the
  participant list.\<close>

definition bettor_gate :: "env \<Rightarrow> address \<Rightarrow> store \<Rightarrow> unit res" where
  "bettor_gate e user s =
     and_then (require_auth e user) (\<lambda>_.
     and_then (ensure_normal_mode s) (\<lambda>_. enforce_access_control s user))"

definition check_stake :: "store \<Rightarrow> int \<Rightarrow> unit res" where
  "check_stake s amount =
     (if amount \<le> 0 then Inl (Fail InvalidBetAmount)
      else
        and_then (enforce_min_bet s amount) (\<lambda>_.
        case c_max_stake (s_config s) of
          None \<Rightarrow> Inr ()
        | Some max_stake \<Rightarrow> if amount > max_stake then Inl (Fail StakeExceedsMax) else Inr ()))"

definition betting_open :: "env \<Rightarrow> store \<Rightarrow> round \<Rightarrow> unit res" where
  "betting_open e s r =
     (let buffer = unwrap_or (c_close_buffer (s_config s)) 0;
          close_ledger = usaturating_sub (r_bet_end_ledger r) buffer
      in if e_ledger e \<ge> r_bet_end_ledger r then Inl (Fail RoundEnded)
         else if buffer > 0 \<and> e_ledger e \<ge> close_ledger then Inl (Fail RoundEnded)
         else Inr ())"

definition check_balance :: "store \<Rightarrow> address \<Rightarrow> int \<Rightarrow> unit res" where
  "check_balance s user amount = ensure (\<not> balance s user < amount) InsufficientBalance"

definition debit :: "address \<Rightarrow> int \<Rightarrow> store \<Rightarrow> store res" where
  "debit user amount s =
     and_then (ok_or (checked_sub (balance s user) amount) Overflow) (\<lambda>new_balance.
     Inr (set_balance user new_balance s))"

definition append_participant :: "nat \<Rightarrow> address \<Rightarrow> store \<Rightarrow> store" where
  "append_participant rid user s =
     upd_book (\<lambda>b. b\<lparr>b_participants := (b_participants b)(rid \<mapsto> participants_of s rid @ [user])\<rparr>) s"

section \<open>Opening a round\<close>

definition create_round :: "env \<Rightarrow> nat \<Rightarrow> nat option \<Rightarrow> store \<Rightarrow> store res" where
  "create_round e start_price mode s =
     and_then (require_supported_schema s) (\<lambda>_.
     if start_price < MIN_START_PRICE \<or> start_price > MAX_START_PRICE then Inl (Fail InvalidStartPrice)
     else let mode_value = unwrap_or mode 0 in
       if mode_value > 1 then Inl (Fail InvalidMode)
       else
         and_then (admin_unpaused e s) (\<lambda>_.
         and_then (assert_no_active_round s) (\<lambda>_.
         let bet_ledgers = unwrap_or (c_bet_window (s_config s)) DEFAULT_BET_WINDOW_LEDGERS;
             run_ledgers = unwrap_or (c_run_window (s_config s)) DEFAULT_RUN_WINDOW_LEDGERS;
             start_ledger = e_ledger e
         in if b_start_ledgers (s_book s) start_ledger \<noteq> None then Inl (Fail RoundStartLedgerReused)
            else
              and_then (ok_or (uchecked_add u64_max (unwrap_or (b_last_id (s_book s)) 0) 1) Overflow) (\<lambda>rid.
              and_then (ok_or (uchecked_add u32_max start_ledger bet_ledgers) Overflow) (\<lambda>bet_end.
              and_then (ok_or (uchecked_add u32_max start_ledger run_ledgers) Overflow) (\<lambda>end_ledger.
              let r = \<lparr>r_id = rid, r_price_start = start_price, r_start_ledger = start_ledger,
                       r_start_timestamp = e_time e, r_bet_end_ledger = bet_end, r_end_ledger = end_ledger,
                       r_pool_up = 0, r_pool_down = 0,
                       r_mode = (if mode_value = 0 then UpDown else Precision)\<rparr>
              in Inr (emit (''round'', ''created'')
                        [VNat rid, VNat start_price, VNat start_ledger, VNat bet_end, VNat end_ledger, VNat mode_value]
                        (upd_book (\<lambda>b. b\<lparr>b_last_id := Some rid, b_active := Some r,
                           b_start_ledgers := (b_start_ledgers b)(start_ledger \<mapsto> rid)\<rparr>) s))))))))"

definition create_next_from_template :: "env \<Rightarrow> store \<Rightarrow> (nat \<times> store) res" where
  "create_next_from_template e s =
     and_then (admin_gate e s) (\<lambda>_.
     and_then (ok_or (c_template (s_config s)) NoRoundTemplate) (\<lambda>t.
     and_then (create_round e (rt_start_price t) (rt_mode t) s) (\<lambda>s1.
     let rid = unwrap_or (b_last_id (s_book s1)) 0 in
     Inr (rid, emit (''template'', ''applied'')
                 [VNat rid, VNat (rt_start_price t), VNat (unwrap_or (rt_mode t) 0)] s1))))"

section \<open>Taking part\<close>

definition add_to_pool :: "bet_side \<Rightarrow> int \<Rightarrow> round \<Rightarrow> round res" where
  "add_to_pool side amount r =
     (case side of
        Up \<Rightarrow> and_then (ok_or (checked_add (r_pool_up r) amount) Overflow) (\<lambda>p. Inr (r\<lparr>r_pool_up := p\<rparr>))
      | Down \<Rightarrow> and_then (ok_or (checked_add (r_pool_down r) amount) Overflow) (\<lambda>p. Inr (r\<lparr>r_pool_down := p\<rparr>)))"

definition place_bet :: "env \<Rightarrow> address \<Rightarrow> int \<Rightarrow> bet_side \<Rightarrow> store \<Rightarrow> store res" where
  "place_bet e user amount side s =
     and_then (require_supported_schema s) (\<lambda>_.
     and_then (bettor_gate e user s) (\<lambda>_.
     and_then (check_stake s amount) (\<lambda>_.
     and_then (ok_or (b_active (s_book s)) NoActiveRound) (\<lambda>r.
     and_then (enforce_user_round_exposure (r_id r) user amount s) (\<lambda>_.
     if r_mode r \<noteq> UpDown then Inl (Fail WrongModeForPrediction)
     else
       and_then (betting_open e s r) (\<lambda>_.
       and_then (check_balance s user amount) (\<lambda>_.
       if b_positions (s_book s) (r_id r, user) \<noteq> None then Inl (Fail AlreadyBet)
       else
         and_then (debit user amount s) (\<lambda>s1.
         let s2 = upd_book (\<lambda>b. b\<lparr>b_positions := (b_positions b)((r_id r, user) \<mapsto>
                                      \<lparr>pos_amount = amount, pos_side = side\<rparr>)\<rparr>) s1;
             s3 = append_participant (r_id r) user s2
         in and_then (add_to_pool side amount r) (\<lambda>r'.
            Inr (emit (''bet'', ''placed'') [VAddr user, VNat (r_id r), VInt amount, VNat (side_code side)]
                   (upd_book (\<lambda>b. b\<lparr>b_active := Some r'\<rparr>) s3)))))))))))"

definition place_precision_prediction :: "env \<Rightarrow> address \<Rightarrow> int \<Rightarrow> nat \<Rightarrow> store \<Rightarrow> store res" where
  "place_precision_prediction e user amount predicted_price s =
     and_then (require_supported_schema s) (\<lambda>_.
     and_then (bettor_gate e user s) (\<lambda>_.
     and_then (check_stake s amount) (\<lambda>_.
     if predicted_price > 99999999 then Inl (Fail InvalidPrice)
     else
       and_then (ok_or (b_active (s_book s)) NoActiveRound) (\<lambda>r.
       and_then (enforce_user_round_exposure (r_id r) user amount s) (\<lambda>_.
       if r_mode r \<noteq> Precision then Inl (Fail WrongModeForPrediction)
       else
         and_then (betting_open e s r) (\<lambda>_.
         if b_predictions (s_book s) (r_id r, user) \<noteq> None \<or> b_commitments (s_book s) (r_id r, user) \<noteq> None
         then Inl (Fail AlreadyBet)
         else if length (participants_of s (r_id r)) \<ge> get_max_precision_participants s
         then Inl (Fail PrecisionCapExceeded)
         else
           and_then (check_balance s user amount) (\<lambda>_.
           and_then (debit user amount s) (\<lambda>s1.
           let s2 = upd_book (\<lambda>b. b\<lparr>b_predictions := (b_predictions b)((r_id r, user) \<mapsto>
                      \<lparr>pp_user = user, pp_price = predicted_price, pp_amount = amount\<rparr>)\<rparr>) s1
           in Inr (emit (''predict'', ''price'') [VAddr user, VNat (r_id r), VNat predicted_price, VInt amount]
                     (append_participant (r_id r) user s2))))))))))"

definition predict_price :: "env \<Rightarrow> address \<Rightarrow> nat \<Rightarrow> int \<Rightarrow> store \<Rightarrow> store res" where
  "predict_price e user guessed_price amount = place_precision_prediction e user amount guessed_price"

definition commit_prediction :: "env \<Rightarrow> address \<Rightarrow> bytes \<Rightarrow> int \<Rightarrow> store \<Rightarrow> store res" where
  "commit_prediction e user hash amount s =
     and_then (bettor_gate e user s) (\<lambda>_.
     if is_zero_bytes32 hash then Inl (Fail InvalidCommitment)
     else
       and_then (check_stake s amount) (\<lambda>_.
       and_then (ok_or (b_active (s_book s)) NoActiveRound) (\<lambda>r.
       and_then (enforce_user_round_exposure (r_id r) user amount s) (\<lambda>_.
       if r_mode r \<noteq> Precision then Inl (Fail WrongModeForPrediction)
       else
         and_then (betting_open e s r) (\<lambda>_.
         and_then (check_balance s user amount) (\<lambda>_.
         if b_predictions (s_book s) (r_id r, user) \<noteq> None \<or> b_commitments (s_book s) (r_id r, user) \<noteq> None
         then Inl (Fail AlreadyBet)
         else
           and_then (debit user amount s) (\<lambda>s1.
           let s2 = upd_book (\<lambda>b. b\<lparr>b_commitments := (b_commitments b)((r_id r, user) \<mapsto>
                      \<lparr>pc_hash = hash, pc_amount = amount, pc_revealed = False\<rparr>)\<rparr>) s1
           in Inr (emit (''commit'', ''predict'') [VAddr user, VNat (r_id r), VBytes hash, VInt amount]
                     (append_participant (r_id r) user s2)))))))))"

definition commitment_hash :: "env \<Rightarrow> nat \<Rightarrow> bytes \<Rightarrow> bytes" where
  "commitment_hash e predicted_price salt =
     e_sha256 e (e_xdr_u128 e predicted_price @ e_xdr_bytes e salt)"

definition reveal_prediction :: "env \<Rightarrow> address \<Rightarrow> nat \<Rightarrow> bytes \<Rightarrow> store \<Rightarrow> store res" where
  "reveal_prediction e user predicted_price salt s =
     and_then (bettor_gate e user s) (\<lambda>_.
     if \<not> salt_has_minimum_entropy salt then Inl (Fail InvalidSalt)
     else
       and_then (ok_or (b_active (s_book s)) NoActiveRound) (\<lambda>r.
       if r_mode r \<noteq> Precision then Inl (Fail WrongModeForPrediction)
       else if e_ledger e < r_bet_end_ledger r \<or> e_ledger e \<ge> r_end_ledger r then Inl (Fail InvalidRevealWindow)
       else
         and_then (ok_or (b_commitments (s_book s) (r_id r, user)) CommitmentNotFound) (\<lambda>c.
         if pc_revealed c then Inl (Fail AlreadyRevealed)
         else if commitment_hash e predicted_price salt \<noteq> pc_hash c then Inl (Fail HashMismatch)
         else
           Inr (emit (''reveal'', ''predict'') [VAddr user, VNat (r_id r), VNat predicted_price, VInt (pc_amount c)]
             (upd_book (\<lambda>b. b\<lparr>
                b_commitments := (b_commitments b)((r_id r, user) \<mapsto> c\<lparr>pc_revealed := True\<rparr>),
                b_predictions := (b_predictions b)((r_id r, user) \<mapsto>
                  \<lparr>pp_user = user, pp_price = predicted_price, pp_amount = pc_amount c\<rparr>)\<rparr>) s)))))"

section \<open>Leaving early\<close>

definition take_from_pool :: "bet_side \<Rightarrow> int \<Rightarrow> round \<Rightarrow> round res" where
  "take_from_pool side amount r =
     (case side of
        Up \<Rightarrow> and_then (ok_or (checked_sub (r_pool_up r) amount) Overflow) (\<lambda>p. Inr (r\<lparr>r_pool_up := p\<rparr>))
      | Down \<Rightarrow> and_then (ok_or (checked_sub (r_pool_down r) amount) Overflow) (\<lambda>p. Inr (r\<lparr>r_pool_down := p\<rparr>)))"

text \<open>Dividing by the constant \<open>BPS_DENOMINATOR\<close> cannot trap.\<close>

definition forfeit_of :: "int \<Rightarrow> nat \<Rightarrow> int res" where
  "forfeit_of stake penalty_bps =
     and_then (ok_or (checked_mul stake (int penalty_bps)) Overflow) (\<lambda>m. Inr (m sdiv BPS_DENOMINATOR))"

definition cash_out_early :: "env \<Rightarrow> address \<Rightarrow> store \<Rightarrow> store res" where
  "cash_out_early e user s =
     and_then (require_supported_schema s) (\<lambda>_.
     and_then (bettor_gate e user s) (\<lambda>_.
     and_then (ok_or (c_early_cashout_bps (s_config s)) EarlyCashoutDisabled) (\<lambda>penalty_bps.
     if penalty_bps = 0 \<or> penalty_bps > 10000 then Inl (Fail EarlyCashoutDisabled)
     else
       and_then (ok_or (b_active (s_book s)) NoActiveRound) (\<lambda>r.
       if r_mode r \<noteq> UpDown then Inl (Fail WrongModeForCashout)
       else if e_ledger e < r_bet_end_ledger r \<or> e_ledger e \<ge> r_end_ledger r then Inl (Fail InvalidPhaseForCashout)
       else
         and_then (ok_or (b_positions (s_book s) (r_id r, user)) PositionNotFound) (\<lambda>p.
         let stake = pos_amount p in
         if stake \<le> 0 then Inl (Fail InvalidBetAmount)
         else
           and_then (forfeit_of stake penalty_bps) (\<lambda>forfeit.
           and_then (ok_or (checked_sub stake forfeit) Overflow) (\<lambda>cashout.
           and_then (take_from_pool (pos_side p) stake r) (\<lambda>r'.
           let s1 = upd_book (\<lambda>b. b\<lparr>b_active := Some r'\<rparr>) s in
           and_then (if cashout > 0 then accumulate_pending e user cashout s1 else Inr s1) (\<lambda>s2.
           and_then (if forfeit > 0
                     then collect_protocol_fee (r_id r) forfeit (Some penalty_bps) (read_fee_model s2) s2
                     else Inr s2) (\<lambda>s3.
           let s4 = persist_user_outcome (r_id r) 0 user (side_code (pos_side p)) 0 stake cashout Refund s3;
               s5 = upd_book (\<lambda>b. b\<lparr>b_positions := (b_positions b)((r_id r, user) := None)\<rparr>) s4;
               s6 = upd_book (\<lambda>b. b\<lparr>b_participants := (b_participants b)(r_id r \<mapsto>
                      filter (\<lambda>a. a \<noteq> user) (participants_of s5 (r_id r)))\<rparr>) s5
           in Inr (emit (''cashout'', ''early'')
                [VAddr user, VNat (r_id r), VNat (side_code (pos_side p)), VInt stake, VInt cashout, VInt forfeit]
                s6)))))))))))"

section \<open>The mint\<close>

text \<open>\<open>mint_initial\<close> stops with \<open>panic_with_error\<close>, which gives the client the error's code
  like a returned error.\<close>

definition INITIAL_AMOUNT :: int where "INITIAL_AMOUNT = 10000000000"

definition upd_mint :: "(mint \<Rightarrow> mint) \<Rightarrow> store \<Rightarrow> store" where
  "upd_mint f s = s\<lparr>s_mint := f (s_mint s)\<rparr>"

definition count_mint :: "env \<Rightarrow> store \<Rightarrow> store res" where
  "count_mint e s =
     (case c_mint_limit (s_config s) of
        None \<Rightarrow> Inr s
      | Some limit \<Rightarrow>
          if limit > 0 then
            (let current_count = get_or (m_counter (s_mint s)) 0 (e_ledger e) in
             if current_count \<ge> limit then Inl (Fail MintLimitExceeded)
             else Inr (upd_mint (\<lambda>m. m\<lparr>m_counter := (m_counter m)(e_ledger e \<mapsto> current_count + 1)\<rparr>) s))
          else Inr s)"

definition consume_epoch_budget :: "env \<Rightarrow> store \<Rightarrow> store res" where
  "consume_epoch_budget e s =
     (let epoch_budget = unwrap_or (c_epoch_budget (s_config s)) 0 in
      if epoch_budget > 0 then
        (let current_epoch = EPOCH_OF e;
             stored_epoch = unwrap_or (m_epoch (s_mint s)) 0;
             consumed = (if stored_epoch = current_epoch then unwrap_or (m_consumed (s_mint s)) 0 else 0)
         in case checked_add consumed INITIAL_AMOUNT of
              Some val \<Rightarrow>
                if val \<le> epoch_budget then
                  Inr (upd_mint (\<lambda>m. m\<lparr>m_consumed := Some val,
                         m_epoch := (if stored_epoch \<noteq> current_epoch then Some current_epoch else m_epoch m)\<rparr>) s)
                else Inl (Fail EpochBudgetExceeded)
            | None \<Rightarrow> Inl (Fail EpochBudgetExceeded))
      else Inr s)"

definition mint_initial :: "env \<Rightarrow> address \<Rightarrow> store \<Rightarrow> (int \<times> store) res" where
  "mint_initial e user s =
     and_then (require_auth e user) (\<lambda>_.
     and_then (require_supported_schema s) (\<lambda>_.
     and_then (ensure_normal_mode s) (\<lambda>_.
     and_then (enforce_access_control s user) (\<lambda>_.
     case k_balance (s_money s) user of
       Some existing_balance \<Rightarrow> Inr (existing_balance, s)
     | None \<Rightarrow>
         and_then (count_mint e s) (\<lambda>s1.
         and_then (consume_epoch_budget e s1) (\<lambda>s2.
         Inr (INITIAL_AMOUNT,
              emit (''mint'', ''initial'') [VAddr user, VInt INITIAL_AMOUNT] (set_balance user INITIAL_AMOUNT s2))))))))"

section \<open>What a successful call did\<close>

lemma bettor_gate_Inr [res_simps]:
  "bettor_gate e u s = Inr x \<longleftrightarrow> e_auth e u \<and> current_mode s = Normal \<and> enforce_access_control s u = Inr ()"
  by (simp add: bettor_gate_def and_then_Inr require_auth_Inr ensure_normal_mode_Inr)

lemma check_stake_Inr [res_simps]:
  "check_stake s x = Inr v \<longleftrightarrow> 0 < x \<and> pred_option (\<lambda>m. m \<le> x) (c_min_bet (s_config s)) \<and>
     pred_option (\<lambda>m. x \<le> m) (c_max_stake (s_config s))"
  by (auto simp: check_stake_def enforce_min_bet_def and_then_Inr split: option.splits)

lemma betting_open_Inr [res_simps]:
  "betting_open e s r = Inr v \<longleftrightarrow>
     e_ledger e < r_bet_end_ledger r \<and> e_ledger e < r_bet_end_ledger r - unwrap_or (c_close_buffer (s_config s)) 0"
  by (auto simp: betting_open_def Let_def usaturating_sub_def)

lemma check_balance_Inr [res_simps]: "check_balance s u x = Inr v \<longleftrightarrow> x \<le> balance s u"
  by (auto simp: check_balance_def ensure_Inr)

lemma debit_Inr [res_simps]:
  "debit u x s = Inr s' \<longleftrightarrow> in_i128 (balance s u - x) \<and> s' = set_balance u (balance s u - x) s"
  by (auto simp: debit_def and_then_Inr ok_or_Inr checked_sub_Some)

lemma add_to_pool_eq: "add_to_pool side x r = Inr r' \<Longrightarrow> r' = credit_pool side x r"
  by (auto simp: add_to_pool_def credit_pool_def and_then_Inr ok_or_Inr checked_add_Some split: bet_side.splits)

lemma take_from_pool_eq: "take_from_pool side x r = Inr r' \<Longrightarrow> r' = credit_pool side (- x) r"
  by (auto simp: take_from_pool_def credit_pool_def and_then_Inr ok_or_Inr checked_sub_Some split: bet_side.splits)

lemma place_bet_Inr:
  assumes "place_bet e u x side s = Inr s'"
  obtains r where "b_active (s_book s) = Some r" "r_mode r = UpDown" "e_auth e u" "current_mode s = Normal"
    "enforce_access_control s u = Inr ()" "0 < x" "pred_option (\<lambda>m. m \<le> x) (c_min_bet (s_config s))"
    "pred_option (\<lambda>m. x \<le> m) (c_max_stake (s_config s))" "enforce_user_round_exposure (r_id r) u x s = Inr ()"
    "e_ledger e < r_bet_end_ledger r - unwrap_or (c_close_buffer (s_config s)) 0" "x \<le> balance s u"
    "b_positions (s_book s) (r_id r, u) = None"
    "s' = emit (''bet'', ''placed'') [VAddr u, VNat (r_id r), VInt x, VNat (side_code side)]
            (upd_book (join_updown r u \<lparr>pos_amount = x, pos_side = side\<rparr> (credit_pool side x r))
              (set_balance u (balance s u - x) s))"
proof -
  from assms obtain r r' where r: "b_active (s_book s) = Some r" "r_mode r = UpDown" "e_auth e u" "current_mode s = Normal"
    "enforce_access_control s u = Inr ()" "0 < x" "pred_option (\<lambda>m. m \<le> x) (c_min_bet (s_config s))"
    "pred_option (\<lambda>m. x \<le> m) (c_max_stake (s_config s))" "enforce_user_round_exposure (r_id r) u x s = Inr ()"
    "e_ledger e < r_bet_end_ledger r - unwrap_or (c_close_buffer (s_config s)) 0" "x \<le> balance s u"
    "b_positions (s_book s) (r_id r, u) = None"
    and r': "add_to_pool side x r = Inr r'"
    and s': "s' = emit (''bet'', ''placed'') [VAddr u, VNat (r_id r), VInt x, VNat (side_code side)]
         (upd_book (\<lambda>b. b\<lparr>b_active := Some r'\<rparr>) (append_participant (r_id r) u
           (upd_book (\<lambda>b. b\<lparr>b_positions := (b_positions b)((r_id r, u) \<mapsto> \<lparr>pos_amount = x, pos_side = side\<rparr>)\<rparr>)
             (set_balance u (balance s u - x) s))))"
    by (auto simp: place_bet_def and_then_Inr ok_or_Inr bettor_gate_Inr check_stake_Inr betting_open_Inr
        check_balance_Inr debit_Inr Let_def if_Inl_Inr)
  have "s' = emit (''bet'', ''placed'') [VAddr u, VNat (r_id r), VInt x, VNat (side_code side)]
            (upd_book (join_updown r u \<lparr>pos_amount = x, pos_side = side\<rparr> (credit_pool side x r))
              (set_balance u (balance s u - x) s))"
    unfolding s' add_to_pool_eq[OF r']
    by (simp add: append_participant_def participants_of_def members_def join_updown_def upd_book_def)
  with r show thesis by (rule that)
qed

text \<open>The two ways into a Precision round share their effect on the book.\<close>

lemma place_precision_Inr:
  assumes "place_precision_prediction e u x price s = Inr s'"
  obtains r t d where "b_active (s_book s) = Some r" "r_mode r = Precision" "e_auth e u" "current_mode s = Normal"
    "enforce_access_control s u = Inr ()" "0 < x" "price \<le> 99999999"
    "e_ledger e < r_bet_end_ledger r" "x \<le> balance s u"
    "precision_stake (s_book s) (r_id r, u) = None"
    "length (members (s_book s) (r_id r)) < get_max_precision_participants s"
    "s' = emit t d (upd_book (join_precision r u (Predicted \<lparr>pp_user = u, pp_price = price, pp_amount = x\<rparr>))
              (set_balance u (balance s u - x) s))"
proof -
  from assms obtain r where r: "b_active (s_book s) = Some r" "r_mode r = Precision" "e_auth e u" "current_mode s = Normal"
    "enforce_access_control s u = Inr ()" "0 < x" "price \<le> 99999999"
    "e_ledger e < r_bet_end_ledger r" "x \<le> balance s u"
    "b_predictions (s_book s) (r_id r, u) = None" "b_commitments (s_book s) (r_id r, u) = None"
    "length (members (s_book s) (r_id r)) < get_max_precision_participants s"
    and s': "s' = emit (''predict'', ''price'') [VAddr u, VNat (r_id r), VNat price, VInt x]
         (append_participant (r_id r) u
           (upd_book (\<lambda>b. b\<lparr>b_predictions := (b_predictions b)((r_id r, u) \<mapsto> \<lparr>pp_user = u, pp_price = price, pp_amount = x\<rparr>)\<rparr>)
             (set_balance u (balance s u - x) s)))"
    by (auto simp: place_precision_prediction_def and_then_Inr ok_or_Inr bettor_gate_Inr check_stake_Inr betting_open_Inr
        check_balance_Inr debit_Inr Let_def if_Inl_Inr members_participants)
  have st: "precision_stake (s_book s) (r_id r, u) = None" using r(10,11) by (simp add: precision_stake_def)
  have e: "s' = emit (''predict'', ''price'') [VAddr u, VNat (r_id r), VNat price, VInt x]
      (upd_book (join_precision r u (Predicted \<lparr>pp_user = u, pp_price = price, pp_amount = x\<rparr>))
              (set_balance u (balance s u - x) s))"
    unfolding s' by (simp add: append_participant_def participants_of_def members_def join_precision_def upd_book_def)
  show thesis by (rule that[OF r(1-9) st r(12) e])
qed

lemma commit_prediction_Inr:
  assumes "commit_prediction e u hash x s = Inr s'"
  obtains r t d where "b_active (s_book s) = Some r" "r_mode r = Precision" "e_auth e u" "current_mode s = Normal"
    "enforce_access_control s u = Inr ()" "0 < x" "hash \<noteq> replicate 32 0"
    "e_ledger e < r_bet_end_ledger r" "x \<le> balance s u"
    "precision_stake (s_book s) (r_id r, u) = None"
    "s' = emit t d (upd_book (join_precision r u (Committed \<lparr>pc_hash = hash, pc_amount = x, pc_revealed = False\<rparr>))
              (set_balance u (balance s u - x) s))"
proof -
  from assms obtain r where r: "b_active (s_book s) = Some r" "r_mode r = Precision" "e_auth e u" "current_mode s = Normal"
    "enforce_access_control s u = Inr ()" "0 < x" "hash \<noteq> replicate 32 0"
    "e_ledger e < r_bet_end_ledger r" "x \<le> balance s u"
    "b_predictions (s_book s) (r_id r, u) = None" "b_commitments (s_book s) (r_id r, u) = None"
    and s': "s' = emit (''commit'', ''predict'') [VAddr u, VNat (r_id r), VBytes hash, VInt x]
         (append_participant (r_id r) u
           (upd_book (\<lambda>b. b\<lparr>b_commitments := (b_commitments b)((r_id r, u) \<mapsto> \<lparr>pc_hash = hash, pc_amount = x, pc_revealed = False\<rparr>)\<rparr>)
             (set_balance u (balance s u - x) s)))"
    by (auto simp: commit_prediction_def and_then_Inr ok_or_Inr bettor_gate_Inr check_stake_Inr betting_open_Inr
        check_balance_Inr debit_Inr Let_def if_Inl_Inr is_zero_bytes32_def)
  have st: "precision_stake (s_book s) (r_id r, u) = None" using r(10,11) by (simp add: precision_stake_def)
  have e: "s' = emit (''commit'', ''predict'') [VAddr u, VNat (r_id r), VBytes hash, VInt x]
      (upd_book (join_precision r u (Committed \<lparr>pc_hash = hash, pc_amount = x, pc_revealed = False\<rparr>))
              (set_balance u (balance s u - x) s))"
    unfolding s' by (simp add: append_participant_def participants_of_def members_def join_precision_def upd_book_def)
  show thesis by (rule that[OF r(1-9) st e])
qed

lemma reveal_prediction_Inr:
  assumes "reveal_prediction e u price salt s = Inr s'"
  obtains r c t d where "b_active (s_book s) = Some r" "r_mode r = Precision" "e_auth e u"
    "salt_has_minimum_entropy salt" "r_bet_end_ledger r \<le> e_ledger e" "e_ledger e < r_end_ledger r"
    "b_commitments (s_book s) (r_id r, u) = Some c" "\<not> pc_revealed c" "commitment_hash e price salt = pc_hash c"
    "s' = emit t d (upd_book (reveal r u c price) s)"
  using assms
  by (auto simp: reveal_prediction_def and_then_Inr ok_or_Inr bettor_gate_Inr if_Inl_Inr reveal_def[abs_def])

text \<open>A stake leaves the balance and enters the book.\<close>

lemma stake_moves:
  assumes money: "money_ok (s_money s)" and x: "0 \<le> x" "x \<le> balance s u"
    and book: "total_of (position_stake (f (s_book s))) + total_of (precision_stake (f (s_book s)))
               = total_of (position_stake (s_book s)) + total_of (precision_stake (s_book s)) + x"
    and s': "s' = emit t d (upd_book f (set_balance u (balance s u - x) s))"
  shows "wealth s' = wealth s" "at_stake s' = at_stake s + x" "money_ok (s_money s')"
    "balance s' v = (if v = u then balance s u - x else balance s v)" "pending_of s' v = pending_of s v"
  using held_set_balance[OF money, of u "balance s u - x"] money_ok_set_balance[OF money, of "balance s u - x" u] x book
  by (simp_all add: s' wealth_def at_stake_def) (simp_all add: balance_def pending_of_def set_balance_def emit_def upd_book_def)

section \<open>Properties\<close>

lemma place_bet_effect:
  assumes "place_bet e u x side s = Inr s'" "money_ok (s_money s)" "book_ok (s_book s)"
  shows "e_auth e u \<and> current_mode s = Normal \<and> enforce_access_control s u = Inr () \<and> 0 < x \<and>
         (\<exists>r. b_active (s_book s) = Some r \<and> r_mode r = UpDown \<and> e_ledger e < r_bet_end_ledger r \<and>
              b_positions (s_book s') (r_id r, u) = Some \<lparr>pos_amount = x, pos_side = side\<rparr> \<and>
              b_active (s_book s') = Some (if side = Up then r\<lparr>r_pool_up := r_pool_up r + x\<rparr>
                                           else r\<lparr>r_pool_down := r_pool_down r + x\<rparr>)) \<and>
         wealth s' = wealth s \<and> at_stake s' = at_stake s + x \<and>
         (\<forall>v. balance s' v = (if v = u then balance s u - x else balance s v)) \<and>
         (\<forall>v. pending_of s' v = pending_of s v) \<and>
         money_ok (s_money s') \<and> book_ok (s_book s') \<and> place_bet e' u y side' s' \<noteq> Inr s''"
proof -
  obtain r where r: "b_active (s_book s) = Some r" "r_mode r = UpDown" "e_auth e u" "current_mode s = Normal"
    "enforce_access_control s u = Inr ()" "0 < x"
    "e_ledger e < r_bet_end_ledger r - unwrap_or (c_close_buffer (s_config s)) 0" "x \<le> balance s u"
    "b_positions (s_book s) (r_id r, u) = None"
    and s': "s' = emit (''bet'', ''placed'') [VAddr u, VNat (r_id r), VInt x, VNat (side_code side)]
            (upd_book (join_updown r u \<lparr>pos_amount = x, pos_side = side\<rparr> (credit_pool side x r))
              (set_balance u (balance s u - x) s))"
    by (rule place_bet_Inr[OF assms(1)])
  have tot: "total_of (position_stake (join_updown r u \<lparr>pos_amount = x, pos_side = side\<rparr> (credit_pool side x r) (s_book s))) +
      total_of (precision_stake (join_updown r u \<lparr>pos_amount = x, pos_side = side\<rparr> (credit_pool side x r) (s_book s)))
      = total_of (position_stake (s_book s)) + total_of (precision_stake (s_book s)) + x"
    using stakes_join_updown[OF book_okD(5)[OF assms(3)] r(9), of "\<lparr>pos_amount = x, pos_side = side\<rparr>"] by simp
  have x0: "0 \<le> x" using r(6) by simp
  note move = stake_moves[OF assms(2) x0 r(8) tot s']
  have ok: "book_ok (s_book s')"
    using book_ok_join_updown[OF assms(3) r(1,2,9), of "\<lparr>pos_amount = x, pos_side = side\<rparr>"] r(6) by (simp add: s')
  have again: "place_bet e' u y side' s' \<noteq> Inr s''"
  proof
    assume "place_bet e' u y side' s' = Inr s''"
    then obtain q where "b_active (s_book s') = Some q" "b_positions (s_book s') (r_id q, u) = None"
      by (rule place_bet_Inr)
    then show False by (auto simp: s' join_updown_def)
  qed
  have led: "e_ledger e < r_bet_end_ledger r" using r(7) by simp
  show ?thesis
    using r(1-6) move ok again led by (cases side) (auto simp: s' join_updown_def credit_pool_def)
qed

text \<open>C13 An UpDown bet moves its stake and nothing else.  It needs the user's signature, normal
  mode, admission, and a ledger before the close of betting; the stake leaves the user's
  balance and enters the book, the round's pool on that side grows by it, no other balance
  and nobody's pending winnings change, what the contract holds in total stays the same, the
  book invariant is kept, and a second bet of the user in the round is refused.\<close>

theorem place_bet_moves_stake:
  assumes "place_bet e u x side s = Inr s'" "money_ok (s_money s)" "book_ok (s_book s)"
  shows "e_auth e u \<and> current_mode s = Normal \<and> enforce_access_control s u = Inr () \<and> 0 < x \<and>
         (\<exists>r. b_active (s_book s) = Some r \<and> r_mode r = UpDown \<and> e_ledger e < r_bet_end_ledger r \<and>
              b_positions (s_book s') (r_id r, u) = Some \<lparr>pos_amount = x, pos_side = side\<rparr> \<and>
              b_active (s_book s') = Some (if side = Up then r\<lparr>r_pool_up := r_pool_up r + x\<rparr>
                                           else r\<lparr>r_pool_down := r_pool_down r + x\<rparr>)) \<and>
         wealth s' = wealth s \<and> at_stake s' = at_stake s + x \<and>
         (\<forall>v. balance s' v = (if v = u then balance s u - x else balance s v)) \<and>
         (\<forall>v. pending_of s' v = pending_of s v) \<and>
         money_ok (s_money s') \<and> book_ok (s_book s') \<and> place_bet e' u y side' s' \<noteq> Inr s''"
  by (rule place_bet_effect[OF assms])

text \<open>A round in which bets are being taken, for the witnesses: user 5 has 1000, round 1 is open
  until ledger 16 and ends at ledger 22.\<close>

definition sample_round :: "round_mode \<Rightarrow> round" where
  "sample_round mode = \<lparr>r_id = 1, r_price_start = 100, r_start_ledger = 10, r_start_timestamp = 50,
     r_bet_end_ledger = 16, r_end_ledger = 22, r_pool_up = 0, r_pool_down = 0, r_mode = mode\<rparr>"

definition sample_store :: "round_mode \<Rightarrow> store" where
  "sample_store mode = empty_store\<lparr>s_admin := Some 1, s_oracle := Some 2, s_schema := Some 3,
     s_money := (s_money empty_store)\<lparr>k_balance := [5 \<mapsto> 1000, 6 \<mapsto> 1000]\<rparr>,
     s_book := (s_book empty_store)\<lparr>b_active := Some (sample_round mode), b_last_id := Some 1,
                 b_start_ledgers := [10 \<mapsto> 1]\<rparr>\<rparr>"

lemma sample_store_ok: "money_ok (s_money (sample_store mode))" "book_ok (s_book (sample_store mode))"
  by (simp_all add: sample_store_def sample_round_def empty_store_def money_ok_def get_or_def treasury_value_def
      book_ok_def stakes_ok_def book_finite_def fresh_ids_def disputes_ok_def active_ok_def round_ok_def members_def
      side_pool_def precision_stake_def split: round_mode.split)

lemmas gate_simps =
  require_supported_schema_def schema_version_def bettor_gate_def require_auth_def ensure_normal_mode_def
  policy_gate_def current_mode_def enforce_access_control_def is_access_control_enabled_def check_stake_def
  enforce_min_bet_def enforce_user_round_exposure_def betting_open_def check_balance_def debit_def
  usaturating_sub_def checked_sub_def checked_add_def in_i128_def

lemma is_zero_bytes32_sample: "\<not> is_zero_bytes32 [b]"
  by (auto simp: is_zero_bytes32_def dest: arg_cong[where f = length])

theorem place_bet_moves_stake_witness:
  "let s = sample_store UpDown in \<exists>s'. place_bet (sample_env 12 60 [5]) 5 300 Up s = Inr s' \<and>
     balance s' 5 = 700 \<and> wealth s' = wealth s \<and> at_stake s' = at_stake s + 300"
proof -
  let ?s = "sample_store UpDown"
  obtain s' where run: "place_bet (sample_env 12 60 [5]) 5 300 Up ?s = Inr s'"
    by (simp add: place_bet_def gate_simps sample_store_def sample_round_def empty_store_def sample_env_def
        protocol_constants add_to_pool_def balance_def get_or_def Let_def)
  have "balance ?s 5 = 1000" by (simp add: sample_store_def balance_def get_or_def)
  with place_bet_moves_stake[OF run sample_store_ok] have "balance s' 5 = 700" "wealth s' = wealth ?s" "at_stake s' = at_stake ?s + 300"
    by simp_all
  with run show ?thesis unfolding Let_def by blast
qed

lemma precision_entry_effect:
  assumes "place_precision_prediction e u x price s = Inr s' \<or> commit_prediction e u hash x s = Inr s'"
    "money_ok (s_money s)" "book_ok (s_book s)"
  shows "e_auth e u \<and> current_mode s = Normal \<and> enforce_access_control s u = Inr () \<and> 0 < x \<and>
         (\<exists>r. b_active (s_book s) = Some r \<and> b_active (s_book s') = Some r \<and> r_mode r = Precision \<and>
              e_ledger e < r_bet_end_ledger r \<and> precision_stake (s_book s') (r_id r, u) = Some x) \<and>
         wealth s' = wealth s \<and> at_stake s' = at_stake s + x \<and>
         (\<forall>v. balance s' v = (if v = u then balance s u - x else balance s v)) \<and>
         (\<forall>v. pending_of s' v = pending_of s v) \<and> money_ok (s_money s') \<and> book_ok (s_book s') \<and>
         place_precision_prediction e' u y price' s' \<noteq> Inr s'' \<and> commit_prediction e' u hash' y s' \<noteq> Inr s''"
proof -
  obtain r t d z where r: "b_active (s_book s) = Some r" "r_mode r = Precision" "e_auth e u" "current_mode s = Normal"
    "enforce_access_control s u = Inr ()" "0 < x" "e_ledger e < r_bet_end_ledger r" "x \<le> balance s u"
    "precision_stake (s_book s) (r_id r, u) = None"
    and z: "entry_amount z = x" "entry_ok u z"
    and s': "s' = emit t d (upd_book (join_precision r u z) (set_balance u (balance s u - x) s))"
    using assms(1)
  proof
    assume "place_precision_prediction e u x price s = Inr s'"
    then show thesis by (rule place_precision_Inr) (rule that, auto simp: entry_amount_def entry_ok_def)
  next
    assume "commit_prediction e u hash x s = Inr s'"
    then show thesis by (rule commit_prediction_Inr) (rule that, auto simp: entry_amount_def entry_ok_def)
  qed
  have tot: "total_of (position_stake (join_precision r u z (s_book s))) + total_of (precision_stake (join_precision r u z (s_book s)))
      = total_of (position_stake (s_book s)) + total_of (precision_stake (s_book s)) + x"
    using stakes_join_precision[OF book_okD(5)[OF assms(3)] r(9), of z] z(1) by simp
  have x0: "0 \<le> x" using r(6) by simp
  note move = stake_moves[OF assms(2) x0 r(8) tot s']
  have ok: "book_ok (s_book s')"
    using book_ok_join_precision[OF assms(3) r(1,2,9) z(2)] by (simp add: s')
  have stake: "precision_stake (s_book s') (r_id r, u) = Some x"
    using precision_stake_join[OF r(9), of z] z(1) by (simp add: s')
  have act: "b_active (s_book s') = Some r" using r(1) by (simp add: s' join_precision_def)
  have again: "place_precision_prediction e' u y price' s' \<noteq> Inr s''" "commit_prediction e' u hash' y s' \<noteq> Inr s''"
    using act stake by (auto elim!: place_precision_Inr commit_prediction_Inr)
  show ?thesis using r(1-7) move ok stake act again by auto
qed

text \<open>C14 A Precision entry moves its stake and nothing else, whether the price is given in the open or
  committed as a hash: the stake leaves the user's balance and enters the book, nothing else
  changes hands, the book invariant is kept, and the user cannot enter the round a second time
  by either route.\<close>

theorem precision_entry_moves_stake:
  assumes "place_precision_prediction e u x price s = Inr s' \<or> commit_prediction e u hash x s = Inr s'"
    "money_ok (s_money s)" "book_ok (s_book s)"
  shows "e_auth e u \<and> current_mode s = Normal \<and> enforce_access_control s u = Inr () \<and> 0 < x \<and>
         (\<exists>r. b_active (s_book s) = Some r \<and> b_active (s_book s') = Some r \<and> r_mode r = Precision \<and>
              e_ledger e < r_bet_end_ledger r \<and> precision_stake (s_book s') (r_id r, u) = Some x) \<and>
         wealth s' = wealth s \<and> at_stake s' = at_stake s + x \<and>
         (\<forall>v. balance s' v = (if v = u then balance s u - x else balance s v)) \<and>
         (\<forall>v. pending_of s' v = pending_of s v) \<and> money_ok (s_money s') \<and> book_ok (s_book s') \<and>
         place_precision_prediction e' u y price' s' \<noteq> Inr s'' \<and> commit_prediction e' u hash' y s' \<noteq> Inr s''"
  by (rule precision_entry_effect[OF assms])

theorem precision_entry_moves_stake_witness:
  "let s = sample_store Precision in \<exists>s'. commit_prediction (sample_env 12 60 [5]) 5 [7] 300 s = Inr s' \<and>
     balance s' 5 = 700 \<and> wealth s' = wealth s \<and> precision_stake (s_book s') (1, 5) = Some 300"
proof -
  let ?s = "sample_store Precision"
  obtain s' where run: "commit_prediction (sample_env 12 60 [5]) 5 [7] 300 ?s = Inr s'"
    by (simp add: commit_prediction_def gate_simps sample_store_def sample_round_def empty_store_def sample_env_def
        protocol_constants balance_def get_or_def is_zero_bytes32_sample Let_def)
  have "balance ?s 5 = 1000" "b_active (s_book ?s) = Some (sample_round Precision)" "r_id (sample_round Precision) = 1"
    by (simp_all add: sample_store_def sample_round_def balance_def get_or_def)
  with precision_entry_moves_stake[OF disjI2[OF run] sample_store_ok]
  have "balance s' 5 = 700" "wealth s' = wealth ?s" "precision_stake (s_book s') (1, 5) = Some 300" by auto
  with run show ?thesis unfolding Let_def by blast
qed

text \<open>The entropy check accepts exactly the salts whose bytes are not all the same: the flag for a
  non-zero byte is implied by the flag for a different one.\<close>

theorem salt_entropy:
  "salt_has_minimum_entropy salt \<longleftrightarrow> (\<exists>b\<in>set salt. b \<noteq> hd salt)"
proof -
  have loop: "fold (\<lambda>b (nz, df). (nz \<or> b \<noteq> 0, df \<or> b \<noteq> f)) xs (p, q)
      = (p \<or> (\<exists>b\<in>set xs. b \<noteq> 0), q \<or> (\<exists>b\<in>set xs. b \<noteq> f))" for f p q and xs :: bytes
    by (induction xs arbitrary: p q) auto
  have "\<exists>b\<in>set salt. b \<noteq> 0" if "b \<in> set salt" "b \<noteq> hd salt" for b
  proof -
    have "hd salt \<in> set salt" using that(1) by (cases salt) simp_all
    with that show ?thesis by (cases "b = 0") auto
  qed
  then show ?thesis by (auto simp: salt_has_minimum_entropy_def loop)
qed

lemma reveal_effect:
  assumes "reveal_prediction e u price salt s = Inr s'" "book_ok (s_book s)"
  shows "(\<exists>r c. b_active (s_book s) = Some r \<and> b_commitments (s_book s) (r_id r, u) = Some c \<and>
            pc_hash c = e_sha256 e (e_xdr_u128 e price @ e_xdr_bytes e salt) \<and> \<not> pc_revealed c \<and>
            r_bet_end_ledger r \<le> e_ledger e \<and> e_ledger e < r_end_ledger r \<and>
            b_predictions (s_book s') (r_id r, u) =
              Some \<lparr>pp_user = u, pp_price = price, pp_amount = pc_amount c\<rparr>) \<and>
         e_auth e u \<and> s_money s' = s_money s \<and> at_stake s' = at_stake s \<and> wealth s' = wealth s \<and>
         book_ok (s_book s') \<and> reveal_prediction e' u price' salt' s' \<noteq> Inr s''"
proof -
  obtain r c t d where r: "b_active (s_book s) = Some r" "r_mode r = Precision" "e_auth e u"
    "r_bet_end_ledger r \<le> e_ledger e" "e_ledger e < r_end_ledger r"
    "b_commitments (s_book s) (r_id r, u) = Some c" "\<not> pc_revealed c" "commitment_hash e price salt = pc_hash c"
    and s': "s' = emit t d (upd_book (reveal r u c price) s)"
    by (rule reveal_prediction_Inr[OF assms(1)])
  have "precision_stake (s_book s') = precision_stake (s_book s)" "position_stake (s_book s') = position_stake (s_book s)"
    using precision_stake_reveal[OF book_okD(1)[OF assms(2)] r(6), of price]
    by (simp_all add: s' reveal_def position_stake_def[abs_def])
  then have st: "at_stake s' = at_stake s" by (simp add: at_stake_def)
  have money: "s_money s' = s_money s" "held s' = held s" by (simp_all add: s')
  have ok: "book_ok (s_book s')" using book_ok_reveal[OF assms(2) r(1,2,6), of price] by (simp add: s')
  have again: "reveal_prediction e' u price' salt' s' \<noteq> Inr s''"
    using r(1) by (auto simp: s' reveal_def elim!: reveal_prediction_Inr)
  show ?thesis
    using r st money ok again by (auto simp: commitment_hash_def wealth_def s' reveal_def)
qed

text \<open>C15 A reveal opens a commitment and changes nothing else.  It is accepted only between the close of
  betting and the end of the round, only against the stored hash, and only once; it records
  the price under the user with the committed stake, so balances, pending winnings and the
  total at stake are as before and the book invariant is kept.\<close>

theorem reveal_opens_commitment:
  assumes "reveal_prediction e u price salt s = Inr s'" "book_ok (s_book s)"
  shows "(\<exists>r c. b_active (s_book s) = Some r \<and> b_commitments (s_book s) (r_id r, u) = Some c \<and>
            pc_hash c = e_sha256 e (e_xdr_u128 e price @ e_xdr_bytes e salt) \<and> \<not> pc_revealed c \<and>
            r_bet_end_ledger r \<le> e_ledger e \<and> e_ledger e < r_end_ledger r \<and>
            b_predictions (s_book s') (r_id r, u) =
              Some \<lparr>pp_user = u, pp_price = price, pp_amount = pc_amount c\<rparr>) \<and>
         e_auth e u \<and> s_money s' = s_money s \<and> at_stake s' = at_stake s \<and> wealth s' = wealth s \<and>
         book_ok (s_book s') \<and> reveal_prediction e' u price' salt' s' \<noteq> Inr s''"
  by (rule reveal_effect[OF assms])

theorem reveal_opens_commitment_witness:
  "let s = (sample_store Precision)\<lparr>s_book := (s_book (sample_store Precision))\<lparr>
             b_commitments := [(1, 5) \<mapsto> \<lparr>pc_hash = [42, 1, 2], pc_amount = 300, pc_revealed = False\<rparr>],
             b_participants := [1 \<mapsto> [5]]\<rparr>\<rparr>
   in \<exists>s'. reveal_prediction (sample_env 17 90 [5]) 5 42 [1, 2] s = Inr s' \<and> at_stake s' = at_stake s \<and>
        b_predictions (s_book s') (1, 5) = Some \<lparr>pp_user = 5, pp_price = 42, pp_amount = 300\<rparr>"
proof -
  let ?s = "(sample_store Precision)\<lparr>s_book := (s_book (sample_store Precision))\<lparr>
             b_commitments := [(1, 5) \<mapsto> \<lparr>pc_hash = [42, 1, 2], pc_amount = 300, pc_revealed = False\<rparr>],
             b_participants := [1 \<mapsto> [5]]\<rparr>\<rparr>"
  have ok: "book_ok (s_book ?s)"
    by (auto simp: sample_store_def sample_round_def empty_store_def get_or_def
      book_ok_def stakes_ok_def book_finite_def fresh_ids_def disputes_ok_def active_ok_def round_ok_def members_def
      side_pool_def precision_stake_def)
  obtain s' where run: "reveal_prediction (sample_env 17 90 [5]) 5 42 [1, 2] ?s = Inr s'"
    by (simp add: reveal_prediction_def gate_simps sample_store_def sample_round_def empty_store_def sample_env_def
        salt_has_minimum_entropy_def commitment_hash_def Let_def)
  have act: "b_active (s_book ?s) = Some (sample_round Precision)" "r_id (sample_round Precision) = 1"
    "b_commitments (s_book ?s) (1, 5) = Some \<lparr>pc_hash = [42, 1, 2], pc_amount = 300, pc_revealed = False\<rparr>"
    by (simp_all add: sample_store_def sample_round_def)
  from reveal_opens_commitment[OF run ok] act
  have "at_stake s' = at_stake ?s" "b_predictions (s_book s') (1, 5) = Some \<lparr>pp_user = 5, pp_price = 42, pp_amount = 300\<rparr>"
    by auto
  with run show ?thesis unfolding Let_def by blast
qed

lemma forfeit_of_bounds:
  assumes "forfeit_of x b = Inr f" "0 \<le> x" "b \<le> 10000"
  shows "f = x * int b div 10000" "0 \<le> f" "f \<le> x"
proof -
  show f: "f = x * int b div 10000"
    using assms by (auto simp: forfeit_of_def and_then_Inr ok_or_Inr checked_mul_Some BPS_DENOMINATOR_def sdiv_nonneg)
  show "0 \<le> f" "f \<le> x" using share_le[of x "int b"] assms f by simp_all
qed

lemma cash_out_early_Inr:
  assumes "cash_out_early e u s = Inr s'"
  obtains bps r p f t d s2 s3 where "c_early_cashout_bps (s_config s) = Some bps" "0 < bps" "bps \<le> 10000"
    "b_active (s_book s) = Some r" "r_mode r = UpDown" "r_bet_end_ledger r \<le> e_ledger e" "e_ledger e < r_end_ledger r"
    "e_auth e u" "b_positions (s_book s) (r_id r, u) = Some p" "0 < pos_amount p" "forfeit_of (pos_amount p) bps = Inr f"
    "(if 0 < pos_amount p - f
      then accumulate_pending e u (pos_amount p - f) (upd_book (\<lambda>b. b\<lparr>b_active := Some (credit_pool (pos_side p) (- pos_amount p) r)\<rparr>) s)
      else Inr (upd_book (\<lambda>b. b\<lparr>b_active := Some (credit_pool (pos_side p) (- pos_amount p) r)\<rparr>) s)) = Inr s2"
    "(if 0 < f then collect_protocol_fee (r_id r) f (Some bps) (read_fee_model s2) s2 else Inr s2) = Inr s3"
    "s_money s' = s_money s3" "s_config s' = s_config s3"
    "s_book s' = leave_updown r u (credit_pool (pos_side p) (- pos_amount p) r) (s_book s3)"
proof -
  from assms obtain bps r p f r' s2 s3 where r: "c_early_cashout_bps (s_config s) = Some bps" "0 < bps" "bps \<le> 10000"
    "b_active (s_book s) = Some r" "r_mode r = UpDown" "r_bet_end_ledger r \<le> e_ledger e" "e_ledger e < r_end_ledger r"
    "e_auth e u" "b_positions (s_book s) (r_id r, u) = Some p" "0 < pos_amount p" "forfeit_of (pos_amount p) bps = Inr f"
    and r': "take_from_pool (pos_side p) (pos_amount p) r = Inr r'"
    and s2: "(if 0 < pos_amount p - f then accumulate_pending e u (pos_amount p - f) (upd_book (\<lambda>b. b\<lparr>b_active := Some r'\<rparr>) s)
       else Inr (upd_book (\<lambda>b. b\<lparr>b_active := Some r'\<rparr>) s)) = Inr s2"
    and s3: "(if 0 < f then collect_protocol_fee (r_id r) f (Some bps) (read_fee_model s2) s2 else Inr s2) = Inr s3"
    and s': "s' = emit (''cashout'', ''early'')
                [VAddr u, VNat (r_id r), VNat (side_code (pos_side p)), VInt (pos_amount p), VInt (pos_amount p - f), VInt f]
       (upd_book (\<lambda>b. b\<lparr>b_participants := (b_participants b)(r_id r \<mapsto> filter (\<lambda>a. a \<noteq> u) (members (s_book s3) (r_id r)))\<rparr>)
         (upd_book (\<lambda>b. b\<lparr>b_positions := (b_positions b)((r_id r, u) := None)\<rparr>)
           (persist_user_outcome (r_id r) 0 u (side_code (pos_side p)) 0 (pos_amount p) (pos_amount p - f) Refund s3)))"
    by (auto simp: cash_out_early_def and_then_Inr ok_or_Inr bettor_gate_Inr if_Inl_Inr Let_def checked_sub_Some
        members_participants members_def)
  have act: "b_active (s_book s3) = Some r'"
    using s2 s3 by (auto simp: accumulate_pending_Inr collect_protocol_fee_def collect_insurance_fee_def res_simps Let_def
        split: prod.splits if_splits)
  note eq = take_from_pool_eq[OF r']
  have bk: "s_book s' = leave_updown r u (credit_pool (pos_side p) (- pos_amount p) r) (s_book s3)"
    using act by (simp add: s' leave_updown_def eq)
  have fr: "s_money s' = s_money s3" "s_config s' = s_config s3" by (simp_all add: s')
  show thesis by (rule that[OF r s2[unfolded eq] s3 fr bk])
qed

definition protocol_funds :: "store \<Rightarrow> int" where
  "protocol_funds s = treasury_value (k_treasury (s_money s)) + unwrap_or (k_fund (s_money s)) 0"

lemma collect_protocol_fee_funds:
  assumes "collect_protocol_fee rid fee bps model s = Inr s'" "money_ok (s_money s)" "0 \<le> fee"
  shows "protocol_funds s' = protocol_funds s + fee"
  using collect_protocol_fee_Inr[OF assms] by (simp add: held_def protocol_funds_def)

lemma cash_out_effect:
  assumes "cash_out_early e u s = Inr s'" "money_ok (s_money s)" "book_ok (s_book s)"
  shows "(\<exists>r p bps f. b_active (s_book s) = Some r \<and> b_positions (s_book s) (r_id r, u) = Some p \<and>
            c_early_cashout_bps (s_config s) = Some bps \<and> f = pos_amount p * int bps div 10000 \<and>
            0 \<le> f \<and> f \<le> pos_amount p \<and>
            pending_of s' u = pending_of s u + (pos_amount p - f) \<and> protocol_funds s' = protocol_funds s + f \<and>
            at_stake s' = at_stake s - pos_amount p \<and>
            r_bet_end_ledger r \<le> e_ledger e \<and> e_ledger e < r_end_ledger r \<and>
            b_positions (s_book s') (r_id r, u) = None \<and> u \<notin> set (members (s_book s') (r_id r))) \<and>
         e_auth e u \<and> (\<forall>v. balance s' v = balance s v) \<and> (\<forall>v. v \<noteq> u \<longrightarrow> pending_of s' v = pending_of s v) \<and>
         wealth s' = wealth s \<and> money_ok (s_money s') \<and> book_ok (s_book s') \<and>
         cash_out_early e' u s' \<noteq> Inr s''"
proof -
  obtain bps r p f s2 s3 where r: "c_early_cashout_bps (s_config s) = Some bps" "0 < bps" "bps \<le> 10000"
    "b_active (s_book s) = Some r" "r_mode r = UpDown" "r_bet_end_ledger r \<le> e_ledger e" "e_ledger e < r_end_ledger r"
    "e_auth e u" "b_positions (s_book s) (r_id r, u) = Some p" "0 < pos_amount p" "forfeit_of (pos_amount p) bps = Inr f"
    and s2: "(if 0 < pos_amount p - f
      then accumulate_pending e u (pos_amount p - f) (upd_book (\<lambda>b. b\<lparr>b_active := Some (credit_pool (pos_side p) (- pos_amount p) r)\<rparr>) s)
      else Inr (upd_book (\<lambda>b. b\<lparr>b_active := Some (credit_pool (pos_side p) (- pos_amount p) r)\<rparr>) s)) = Inr s2"
    and s3: "(if 0 < f then collect_protocol_fee (r_id r) f (Some bps) (read_fee_model s2) s2 else Inr s2) = Inr s3"
    and s': "s_money s' = s_money s3" "s_config s' = s_config s3"
      "s_book s' = leave_updown r u (credit_pool (pos_side p) (- pos_amount p) r) (s_book s3)"
    by (rule cash_out_early_Inr[OF assms(1)])
  have p0: "0 \<le> pos_amount p" using r(10) by simp
  note f = forfeit_of_bounds[OF r(11) p0 r(3)]
  let ?s1 = "upd_book (\<lambda>b. b\<lparr>b_active := Some (credit_pool (pos_side p) (- pos_amount p) r)\<rparr>) s"
  have ok1: "money_ok (s_money ?s1)" using assms(2) by simp
  have c2: "held s2 = held ?s1 + (pos_amount p - f) \<and> money_ok (s_money s2) \<and> s_book s2 = s_book ?s1 \<and>
      (\<forall>v. pending_of s2 v = pending_of s v + (if v = u then pos_amount p - f else 0)) \<and>
      k_balance (s_money s2) = k_balance (s_money s) \<and> protocol_funds s2 = protocol_funds s"
  proof (cases "0 < pos_amount p - f")
    case True
    then have a: "accumulate_pending e u (pos_amount p - f) ?s1 = Inr s2" using s2 by simp
    have a0: "0 \<le> pos_amount p - f" using True by simp
    note acc = accumulate_pending_pays[OF a ok1 a0]
    have "protocol_funds s2 = protocol_funds s" using a by (auto simp: accumulate_pending_Inr protocol_funds_def)
    then show ?thesis using acc(1-4,6) acc(5) by auto
  next
    case False
    then have "s2 = ?s1" "f = pos_amount p" using s2 f(3) by simp_all
    then show ?thesis using ok1 by (simp add: protocol_funds_def)
  qed
  have c3: "held s3 = held s2 + f \<and> money_ok (s_money s3) \<and> s_book s3 = s_book s2 \<and>
      k_pending (s_money s3) = k_pending (s_money s2) \<and> k_balance (s_money s3) = k_balance (s_money s2) \<and>
      protocol_funds s3 = protocol_funds s2 + f"
  proof (cases "0 < f")
    case True
    then have c: "collect_protocol_fee (r_id r) f (Some bps) (read_fee_model s2) s2 = Inr s3" using s3 by simp
    show ?thesis using collect_protocol_fee_Inr[OF c] collect_protocol_fee_funds[OF c] c2 f(2) by simp
  next
    case False
    then show ?thesis using s3 f(2) c2 by simp
  qed
  have b3: "s_book s3 = s_book ?s1" using c2 c3 by simp
  have bk: "s_book s' = leave_updown r u (credit_pool (pos_side p) (- pos_amount p) r) (s_book s)"
    unfolding s'(3) b3 by (simp add: leave_updown_def members_def)
  have st: "at_stake s' = at_stake s - pos_amount p"
    using stakes_leave[OF book_okD(5)[OF assms(3)] r(9)] by (simp add: at_stake_def bk)
  have hd: "held s' = held s + pos_amount p" using c2 c3 held_cong[OF s'(1)] by simp
  have ok: "book_ok (s_book s')" unfolding bk by (rule book_ok_leave[OF assms(3) r(4,5,9)])
  have again: "cash_out_early e' u s' \<noteq> Inr s''"
    by (auto simp: bk leave_updown_def elim!: cash_out_early_Inr)
  have gone: "b_positions (s_book s') (r_id r, u) = None" "u \<notin> set (members (s_book s') (r_id r))"
    by (simp_all add: bk leave_updown_def members_def get_or_def)
  have pend: "pending_of s' v = pending_of s v + (if v = u then pos_amount p - f else 0)" for v
    using c2 c3 s'(1) by (simp add: pending_of_def)
  have bal: "balance s' v = balance s v" for v using c2 c3 s'(1) by (simp add: balance_def)
  have fund: "protocol_funds s' = protocol_funds s + f" using c2 c3 s'(1) by (simp add: protocol_funds_def)
  have "\<exists>r p bps f. b_active (s_book s) = Some r \<and> b_positions (s_book s) (r_id r, u) = Some p \<and>
            c_early_cashout_bps (s_config s) = Some bps \<and> f = pos_amount p * int bps div 10000 \<and>
            0 \<le> f \<and> f \<le> pos_amount p \<and>
            pending_of s' u = pending_of s u + (pos_amount p - f) \<and> protocol_funds s' = protocol_funds s + f \<and>
            at_stake s' = at_stake s - pos_amount p \<and>
            r_bet_end_ledger r \<le> e_ledger e \<and> e_ledger e < r_end_ledger r \<and>
            b_positions (s_book s') (r_id r, u) = None \<and> u \<notin> set (members (s_book s') (r_id r))"
    using r(1,4,6,7,9) f pend[of u] fund st gone by (intro exI[of _ r] exI[of _ p] exI[of _ bps] exI[of _ f]) simp
  moreover have "wealth s' = wealth s" using st hd by (simp add: wealth_def)
  ultimately show ?thesis using r(8) bal pend ok again c3 s'(1) by simp
qed

text \<open>C16 The early cash-out splits the stake exactly.  With the configured penalty the forfeit is the
  floor of stake times penalty over 10000, the user gets the rest as pending winnings, treasury
  and insurance fund together get the forfeit, the position, its pool share and its entry in
  the participant list are gone, no balance moves, and the total the contract holds is the same;
  the exit is possible only while the round is running, and only once.\<close>

theorem cash_out_splits_stake:
  assumes "cash_out_early e u s = Inr s'" "money_ok (s_money s)" "book_ok (s_book s)"
  shows "(\<exists>r p bps f. b_active (s_book s) = Some r \<and> b_positions (s_book s) (r_id r, u) = Some p \<and>
            c_early_cashout_bps (s_config s) = Some bps \<and> f = pos_amount p * int bps div 10000 \<and>
            0 \<le> f \<and> f \<le> pos_amount p \<and>
            pending_of s' u = pending_of s u + (pos_amount p - f) \<and> protocol_funds s' = protocol_funds s + f \<and>
            at_stake s' = at_stake s - pos_amount p \<and>
            r_bet_end_ledger r \<le> e_ledger e \<and> e_ledger e < r_end_ledger r \<and>
            b_positions (s_book s') (r_id r, u) = None \<and> u \<notin> set (members (s_book s') (r_id r))) \<and>
         e_auth e u \<and> (\<forall>v. balance s' v = balance s v) \<and> (\<forall>v. v \<noteq> u \<longrightarrow> pending_of s' v = pending_of s v) \<and>
         wealth s' = wealth s \<and> money_ok (s_money s') \<and> book_ok (s_book s') \<and>
         cash_out_early e' u s' \<noteq> Inr s''"
  by (rule cash_out_effect[OF assms])

theorem cash_out_splits_stake_witness:
  "let s = (sample_store UpDown)\<lparr>
             s_config := (s_config (sample_store UpDown))\<lparr>c_early_cashout_bps := Some 500\<rparr>,
             s_book := (s_book (sample_store UpDown))\<lparr>
               b_active := Some ((sample_round UpDown)\<lparr>r_pool_up := 300\<rparr>),
               b_positions := [(1, 5) \<mapsto> \<lparr>pos_amount = 300, pos_side = Up\<rparr>], b_participants := [1 \<mapsto> [5]]\<rparr>\<rparr>
   in \<exists>s'. cash_out_early (sample_env 17 90 [5]) 5 s = Inr s' \<and>
        pending_of s' 5 = 285 \<and> protocol_funds s' = 15 \<and> wealth s' = wealth s"
proof -
  let ?s = "(sample_store UpDown)\<lparr>
             s_config := (s_config (sample_store UpDown))\<lparr>c_early_cashout_bps := Some 500\<rparr>,
             s_book := (s_book (sample_store UpDown))\<lparr>
               b_active := Some ((sample_round UpDown)\<lparr>r_pool_up := 300\<rparr>),
               b_positions := [(1, 5) \<mapsto> \<lparr>pos_amount = 300, pos_side = Up\<rparr>], b_participants := [1 \<mapsto> [5]]\<rparr>\<rparr>"
  have ok: "book_ok (s_book ?s)"
    by (auto simp: sample_store_def sample_round_def empty_store_def get_or_def
      book_ok_def stakes_ok_def book_finite_def fresh_ids_def disputes_ok_def active_ok_def round_ok_def members_def
      side_pool_def side_stake_def precision_stake_def)
  have m: "money_ok (s_money ?s)" using sample_store_ok(1)[of UpDown] by simp
  obtain s' where run: "cash_out_early (sample_env 17 90 [5]) 5 ?s = Inr s'"
    by (simp add: cash_out_early_def gate_simps sample_store_def sample_round_def empty_store_def sample_env_def
        protocol_constants forfeit_of_def checked_mul_def sdiv_nonneg take_from_pool_def accumulate_pending_def
        pending_of_def get_or_def payout_add_def upd_book_def collect_protocol_fee_def collect_insurance_fee_def
        get_insurance_split_bps_def read_treasury_def read_fee_model_def Let_def)
  have act: "b_active (s_book ?s) = Some ((sample_round UpDown)\<lparr>r_pool_up := 300\<rparr>)" "r_id (sample_round UpDown) = 1"
    "b_positions (s_book ?s) (1, 5) = Some \<lparr>pos_amount = 300, pos_side = Up\<rparr>" "c_early_cashout_bps (s_config ?s) = Some 500"
    "pending_of ?s 5 = 0" "protocol_funds ?s = 0"
    by (simp_all add: sample_store_def sample_round_def pending_of_def get_or_def empty_store_def protocol_funds_def treasury_value_def)
  note r = cash_out_splits_stake[OF run m ok]
  have "wealth s' = wealth ?s" using r by blast
  moreover have "pending_of s' 5 = 285 \<and> protocol_funds s' = 15" using conjunct1[OF r] act by auto
  ultimately show ?thesis using run unfolding Let_def by blast
qed

text \<open>Mints: what one call does, and what a sequence of calls in one epoch can do.\<close>

definition consumed_in :: "nat \<Rightarrow> store \<Rightarrow> int" where
  "consumed_in epoch s = (if unwrap_or (m_epoch (s_mint s)) 0 = epoch then unwrap_or (m_consumed (s_mint s)) 0 else 0)"

lemma upd_mint_fields [simp]:
  "s_money (upd_mint f s) = s_money s" "s_book (upd_mint f s) = s_book s" "s_config (upd_mint f s) = s_config s"
  "s_mint (upd_mint f s) = f (s_mint s)" "held (upd_mint f s) = held s" "at_stake (upd_mint f s) = at_stake s"
  "balance (upd_mint f s) u = balance s u"
  by (simp_all add: upd_mint_def held_def at_stake_def balance_def)

lemma mint_initial_Inr:
  assumes "mint_initial e u s = Inr (x, s')" "money_ok (s_money s)"
  shows "s_config s' = s_config s \<and> s_book s' = s_book s \<and> money_ok (s_money s') \<and>
    (if k_balance (s_money s) u \<noteq> None then x = balance s u \<and> s' = s
     else x = INITIAL_AMOUNT \<and> wealth s' = wealth s + INITIAL_AMOUNT \<and>
       (\<forall>v. balance s' v = (if v = u then INITIAL_AMOUNT else balance s v)) \<and>
       (\<forall>budget. c_epoch_budget (s_config s) = Some budget \<longrightarrow> 0 < budget \<longrightarrow>
          consumed_in (EPOCH_OF e) s' = consumed_in (EPOCH_OF e) s + INITIAL_AMOUNT \<and>
          consumed_in (EPOCH_OF e) s + INITIAL_AMOUNT \<le> budget))"
proof (cases "k_balance (s_money s) u")
  case (Some b)
  with assms show ?thesis by (auto simp: mint_initial_def and_then_Inr balance_def get_or_def)
next
  case None
  from assms(1) None obtain s1 s2 where s1: "count_mint e s = Inr s1" and s2: "consume_epoch_budget e s1 = Inr s2"
    and s': "x = INITIAL_AMOUNT" "s' = emit (''mint'', ''initial'') [VAddr u, VInt INITIAL_AMOUNT] (set_balance u INITIAL_AMOUNT s2)"
    by (auto simp: mint_initial_def and_then_Inr)
  have c1: "s_money s1 = s_money s" "s_book s1 = s_book s" "s_config s1 = s_config s" "m_epoch (s_mint s1) = m_epoch (s_mint s)"
    "m_consumed (s_mint s1) = m_consumed (s_mint s)"
    using s1 by (auto simp: count_mint_def Let_def split: option.splits if_splits)
  have c2: "s_money s2 = s_money s1" "s_book s2 = s_book s1" "s_config s2 = s_config s1"
    using s2 by (auto simp: consume_epoch_budget_def Let_def split: option.splits if_splits)
  have b: "consumed_in (EPOCH_OF e) s' = consumed_in (EPOCH_OF e) s + INITIAL_AMOUNT \<and>
      consumed_in (EPOCH_OF e) s + INITIAL_AMOUNT \<le> budget"
    if "c_epoch_budget (s_config s) = Some budget" "0 < budget" for budget
    using s2 that c1 s'(2)
    by (auto simp: consume_epoch_budget_def consumed_in_def checked_add_def Let_def split: option.splits if_splits)
  have bal0: "balance s u = 0" using None by (simp add: balance_def get_or_def)
  have m2: "money_ok (s_money s2)" using assms(2) c1 c2 by simp
  have "held s' = held s2 - balance s2 u + INITIAL_AMOUNT"
    using held_set_balance[OF m2] by (simp add: s')
  then have "wealth s' = wealth s + INITIAL_AMOUNT"
    using bal0 c1 c2 by (simp add: s' wealth_def at_stake_def held_def balance_def)
  moreover have "money_ok (s_money s')"
    using money_ok_set_balance[OF m2, of INITIAL_AMOUNT u] by (simp add: s' INITIAL_AMOUNT_def)
  moreover have "\<forall>v. balance s' v = (if v = u then INITIAL_AMOUNT else balance s v)" "s_config s' = s_config s"
    "s_book s' = s_book s"
    using c1 c2 by (simp_all add: s' balance_def)
  moreover have "\<forall>budget. c_epoch_budget (s_config s) = Some budget \<longrightarrow> 0 < budget \<longrightarrow>
      consumed_in (EPOCH_OF e) s' = consumed_in (EPOCH_OF e) s + INITIAL_AMOUNT \<and>
      consumed_in (EPOCH_OF e) s + INITIAL_AMOUNT \<le> budget"
    using b by blast
  ultimately show ?thesis using None s'(1) by simp
qed

definition mint_call :: "env \<times> address \<Rightarrow> store \<Rightarrow> store res" where
  "mint_call c s = and_then (mint_initial (fst c) (snd c) s) (\<lambda>(x, s'). Inr s')"



lemma create_round_Inr:
  assumes "create_round e price mode s = Inr s'"
  obtains r t d where "MIN_START_PRICE \<le> price" "price \<le> MAX_START_PRICE" "unwrap_or mode 0 \<le> 1"
    "\<exists>admin. s_admin s = Some admin \<and> e_auth e admin" "current_mode s \<noteq> FullyPaused" "b_active (s_book s) = None"
    "b_start_ledgers (s_book s) (e_ledger e) = None"
    "r = \<lparr>r_id = Suc (unwrap_or (b_last_id (s_book s)) 0), r_price_start = price, r_start_ledger = e_ledger e,
          r_start_timestamp = e_time e,
          r_bet_end_ledger = e_ledger e + unwrap_or (c_bet_window (s_config s)) DEFAULT_BET_WINDOW_LEDGERS,
          r_end_ledger = e_ledger e + unwrap_or (c_run_window (s_config s)) DEFAULT_RUN_WINDOW_LEDGERS,
          r_pool_up = 0, r_pool_down = 0, r_mode = (if unwrap_or mode 0 = 0 then UpDown else Precision)\<rparr>"
    "s' = emit t d (upd_book (\<lambda>b. b\<lparr>b_last_id := Some (r_id r), b_active := Some r,
             b_start_ledgers := (b_start_ledgers b)(r_start_ledger r \<mapsto> r_id r)\<rparr>) s)"
proof -
  have h: "MIN_START_PRICE \<le> price \<and> price \<le> MAX_START_PRICE \<and> unwrap_or mode 0 \<le> 1 \<and>
    (\<exists>admin. s_admin s = Some admin \<and> e_auth e admin) \<and> current_mode s \<noteq> FullyPaused \<and> b_active (s_book s) = None \<and>
    b_start_ledgers (s_book s) (e_ledger e) = None \<and>
    (let r = \<lparr>r_id = Suc (unwrap_or (b_last_id (s_book s)) 0), r_price_start = price, r_start_ledger = e_ledger e,
          r_start_timestamp = e_time e,
          r_bet_end_ledger = e_ledger e + unwrap_or (c_bet_window (s_config s)) DEFAULT_BET_WINDOW_LEDGERS,
          r_end_ledger = e_ledger e + unwrap_or (c_run_window (s_config s)) DEFAULT_RUN_WINDOW_LEDGERS,
          r_pool_up = 0, r_pool_down = 0, r_mode = (if unwrap_or mode 0 = 0 then UpDown else Precision)\<rparr>
     in \<exists>d. s' = emit (''round'', ''created'') d (upd_book (\<lambda>b. b\<lparr>b_last_id := Some (r_id r), b_active := Some r,
             b_start_ledgers := (b_start_ledgers b)(r_start_ledger r \<mapsto> r_id r)\<rparr>) s))"
    using assms
    by (simp add: create_round_def and_then_Inr ok_or_Inr if_Inl_Inr Let_def admin_unpaused_Inr uchecked_Some
        assert_no_active_round_def ensure_Inr not_less not_le split del: if_split) (elim conjE exE, intro conjI; (assumption | blast | (rule exI, erule sym)))
  then show thesis unfolding Let_def by (elim conjE exE) (rule that[OF _ _ _ _ _ _ _ refl]; (assumption | blast))
qed

lemma create_round_effect:
  assumes "create_round e price mode s = Inr s'" "book_ok (s_book s)" "config_ok s"
  shows "(\<exists>r. b_active (s_book s') = Some r \<and> r_id r = Suc (unwrap_or (b_last_id (s_book s)) 0) \<and>
            r_start_ledger r = e_ledger e \<and> r_price_start r = price \<and> 1 \<le> price \<and> price \<le> 10 ^ 18 \<and>
            r_pool_up r = 0 \<and> r_pool_down r = 0 \<and> members (s_book s') (r_id r) = [] \<and>
            derive_round_phase (e_ledger e) r = Betting \<and> r_bet_end_ledger r < r_end_ledger r) \<and>
         (\<exists>admin. s_admin s = Some admin \<and> e_auth e admin) \<and> b_active (s_book s) = None \<and>
         b_start_ledgers (s_book s) (e_ledger e) = None \<and>
         s_money s' = s_money s \<and> wealth s' = wealth s \<and> book_ok (s_book s') \<and>
         create_round e' price' mode' s' \<noteq> Inr s'' \<and>
         (e_ledger e' = e_ledger e \<longrightarrow> b_start_ledgers (s_book t) (e_ledger e) = b_start_ledgers (s_book s') (e_ledger e) \<longrightarrow>
            create_round e' price' mode' t \<noteq> Inr s'')"
proof -
  obtain r tp d where g: "MIN_START_PRICE \<le> price" "price \<le> MAX_START_PRICE"
    "\<exists>admin. s_admin s = Some admin \<and> e_auth e admin" "b_active (s_book s) = None"
    "b_start_ledgers (s_book s) (e_ledger e) = None"
    and r: "r = \<lparr>r_id = Suc (unwrap_or (b_last_id (s_book s)) 0), r_price_start = price, r_start_ledger = e_ledger e,
          r_start_timestamp = e_time e,
          r_bet_end_ledger = e_ledger e + unwrap_or (c_bet_window (s_config s)) DEFAULT_BET_WINDOW_LEDGERS,
          r_end_ledger = e_ledger e + unwrap_or (c_run_window (s_config s)) DEFAULT_RUN_WINDOW_LEDGERS,
          r_pool_up = 0, r_pool_down = 0, r_mode = (if unwrap_or mode 0 = 0 then UpDown else Precision)\<rparr>"
    and s': "s' = emit tp d (upd_book (\<lambda>b. b\<lparr>b_last_id := Some (r_id r), b_active := Some r,
             b_start_ledgers := (b_start_ledgers b)(r_start_ledger r \<mapsto> r_id r)\<rparr>) s)"
    by (rule create_round_Inr[OF assms(1)])
  have w: "0 < unwrap_or (c_bet_window (s_config s)) DEFAULT_BET_WINDOW_LEDGERS"
    "unwrap_or (c_bet_window (s_config s)) DEFAULT_BET_WINDOW_LEDGERS < unwrap_or (c_run_window (s_config s)) DEFAULT_RUN_WINDOW_LEDGERS"
    using assms(3) by (simp_all add: config_ok_def Let_def)
  have ok: "book_ok (s_book s')"
    using book_ok_open[OF assms(2) g(4), of "r_id r" r] g(5) by (simp add: s' r)
  have "unwrap_or (b_last_id (s_book s)) 0 < r_id r" by (simp add: r)
  then have "b_participants (s_book s) (r_id r) = None"
    using book_okD(2)[OF assms(2)] unfolding fresh_ids_def by blast
  then have mem: "members (s_book s') (r_id r) = []" by (simp add: s' members_def get_or_def)
  have "at_stake s' = at_stake s"
    by (simp add: s' at_stake_def position_stake_def[abs_def] precision_stake_def[abs_def] cong: option.case_cong)
  then have wl: "wealth s' = wealth s" by (simp add: wealth_def s')
  have act: "b_active (s_book s') = Some r" by (simp add: s')
  have again: "create_round e' price' mode' s' \<noteq> Inr s''" using act by (auto elim!: create_round_Inr)
  have used: "b_start_ledgers (s_book s') (e_ledger e) = Some (r_id r)" by (simp add: s' r)
  have reuse: "e_ledger e' = e_ledger e \<longrightarrow> b_start_ledgers (s_book t) (e_ledger e) = b_start_ledgers (s_book s') (e_ledger e) \<longrightarrow>
            create_round e' price' mode' t \<noteq> Inr s''"
    using used by (auto elim!: create_round_Inr)
  have fresh: "r_id r = Suc (unwrap_or (b_last_id (s_book s)) 0) \<and> r_start_ledger r = e_ledger e \<and> r_price_start r = price \<and>
      1 \<le> price \<and> price \<le> 10 ^ 18 \<and> r_pool_up r = 0 \<and> r_pool_down r = 0 \<and>
      derive_round_phase (e_ledger e) r = Betting \<and> r_bet_end_ledger r < r_end_ledger r"
    using g(1,2) w by (simp add: r derive_round_phase_def MIN_START_PRICE_def MAX_START_PRICE_def)
  have money: "s_money s' = s_money s" by (simp add: s')
  have "\<exists>r. b_active (s_book s') = Some r \<and> r_id r = Suc (unwrap_or (b_last_id (s_book s)) 0) \<and>
            r_start_ledger r = e_ledger e \<and> r_price_start r = price \<and> 1 \<le> price \<and> price \<le> 10 ^ 18 \<and>
            r_pool_up r = 0 \<and> r_pool_down r = 0 \<and> members (s_book s') (r_id r) = [] \<and>
            derive_round_phase (e_ledger e) r = Betting \<and> r_bet_end_ledger r < r_end_ledger r"
    by (rule exI[of _ r]) (use act fresh mem in blast)
  then show ?thesis
    using g(3-5) money wl ok again reuse by (intro conjI)
qed

text \<open>C17 A new round is fresh.  It needs the admin's signature and no active round, gets the next id, a
  start ledger no round has used before, empty pools and no participants; its betting window
  is open at once and closes before the round ends.  No second round can be created while it is
  active, and no round can ever again be created in that ledger.\<close>

theorem create_round_is_fresh:
  assumes "create_round e price mode s = Inr s'" "book_ok (s_book s)" "config_ok s"
  shows "(\<exists>r. b_active (s_book s') = Some r \<and> r_id r = Suc (unwrap_or (b_last_id (s_book s)) 0) \<and>
            r_start_ledger r = e_ledger e \<and> r_price_start r = price \<and> 1 \<le> price \<and> price \<le> 10 ^ 18 \<and>
            r_pool_up r = 0 \<and> r_pool_down r = 0 \<and> members (s_book s') (r_id r) = [] \<and>
            derive_round_phase (e_ledger e) r = Betting \<and> r_bet_end_ledger r < r_end_ledger r) \<and>
         (\<exists>admin. s_admin s = Some admin \<and> e_auth e admin) \<and> b_active (s_book s) = None \<and>
         b_start_ledgers (s_book s) (e_ledger e) = None \<and>
         s_money s' = s_money s \<and> wealth s' = wealth s \<and> book_ok (s_book s') \<and>
         create_round e' price' mode' s' \<noteq> Inr s'' \<and>
         (e_ledger e' = e_ledger e \<longrightarrow> b_start_ledgers (s_book t) (e_ledger e) = b_start_ledgers (s_book s') (e_ledger e) \<longrightarrow>
            create_round e' price' mode' t \<noteq> Inr s'')"
  by (rule create_round_effect[OF assms])

theorem create_round_is_fresh_witness:
  "let s = empty_store\<lparr>s_admin := Some 1, s_schema := Some 3\<rparr> in \<exists>s'. create_round (sample_env 10 50 [1]) 100 None s = Inr s' \<and>
     create_round (sample_env 10 50 [1]) 100 None (remove_active_round s') = Inl (Fail RoundStartLedgerReused) \<and> book_ok (s_book s')"
proof -
  let ?s = "empty_store\<lparr>s_admin := Some 1, s_schema := Some 3\<rparr>"
  have ok: "book_ok (s_book ?s)" "config_ok ?s"
    by (simp_all add: empty_store_def book_ok_def stakes_ok_def book_finite_def fresh_ids_def disputes_ok_def active_ok_def
        config_ok_def in_range_def Let_def protocol_constants config_bounds)
  obtain s' where run: "create_round (sample_env 10 50 [1]) 100 None ?s = Inr s'"
    "create_round (sample_env 10 50 [1]) 100 None (remove_active_round s') = Inl (Fail RoundStartLedgerReused)"
    by (simp add: create_round_def admin_unpaused_def admin_auth_def ensure_not_paused_def gate_simps empty_store_def
        sample_env_def protocol_constants assert_no_active_round_def uchecked_add_def remove_active_round_def upd_book_def
        emit_def Let_def)
  then show ?thesis using create_round_is_fresh[OF run(1) ok] unfolding Let_def by blast
qed

text \<open>C33 The commit path into a Precision round is laxer than the open path.  Whenever an open prediction
  would be accepted, so is a commitment of the same stake; but a full round refuses the open
  prediction and accepts the commitment, an unsupported schema likewise, and a reveal may
  open a price beyond the bound of 99999999 that the open path enforces.\<close>

theorem commit_path_is_laxer:
  "(place_precision_prediction e u x price s = Inr s' \<and> hash \<noteq> replicate 32 0 \<longrightarrow>
      (\<exists>t. commit_prediction e u hash x s = Inr t)) \<and>
   (let full = (sample_store Precision)\<lparr>s_config := (s_config (sample_store Precision))\<lparr>c_max_precision_participants := Some 1\<rparr>,
                 s_book := (s_book (sample_store Precision))\<lparr>b_participants := [1 \<mapsto> [6]],
                   b_predictions := [(1, 6) \<mapsto> \<lparr>pp_user = 6, pp_price = 7, pp_amount = 10\<rparr>]\<rparr>\<rparr>;
        old = (sample_store Precision)\<lparr>s_schema := Some 4\<rparr>;
        committed = (sample_store Precision)\<lparr>s_book := (s_book (sample_store Precision))\<lparr>b_participants := [1 \<mapsto> [5]],
                   b_commitments := [(1, 5) \<mapsto> \<lparr>pc_hash = [0, 1, 2], pc_amount = 300, pc_revealed = False\<rparr>]\<rparr>\<rparr>
    in place_precision_prediction (sample_env 12 60 [5]) 5 300 42 full = Inl (Fail PrecisionCapExceeded) \<and>
       (\<exists>t. commit_prediction (sample_env 12 60 [5]) 5 [7] 300 full = Inr t) \<and>
       place_precision_prediction (sample_env 12 60 [5]) 5 300 42 old = Inl (Fail UnsupportedSchemaVersion) \<and>
       (\<exists>t. commit_prediction (sample_env 12 60 [5]) 5 [7] 300 old = Inr t) \<and>
       place_precision_prediction (sample_env 12 60 [5]) 5 300 (2 ^ 40) (sample_store Precision) = Inl (Fail InvalidPrice) \<and>
       (\<exists>t. reveal_prediction (sample_env 17 60 [5]) 5 (2 ^ 40) [1, 2] committed = Inr t))"
proof (intro conjI impI)
  assume "place_precision_prediction e u x price s = Inr s' \<and> hash \<noteq> replicate 32 0"
  then show "\<exists>t. commit_prediction e u hash x s = Inr t"
    by (auto simp: place_precision_prediction_def commit_prediction_def and_then_Inr ok_or_Inr if_Inl_Inr is_zero_bytes32_def Let_def)
qed (simp add: place_precision_prediction_def commit_prediction_def reveal_prediction_def gate_simps sample_store_def
      sample_round_def empty_store_def sample_env_def protocol_constants balance_def get_or_def is_zero_bytes32_sample
      get_max_precision_participants_def participants_of_def salt_has_minimum_entropy_def
      commitment_hash_def Let_def)

theorem commit_path_is_laxer_witness:
  "\<exists>s' t. place_precision_prediction (sample_env 12 60 [5]) 5 300 42 (sample_store Precision) = Inr s' \<and>
     commit_prediction (sample_env 12 60 [5]) 5 [7] 300 (sample_store Precision) = Inr t"
proof -
  obtain s' where run: "place_precision_prediction (sample_env 12 60 [5]) 5 300 42 (sample_store Precision) = Inr s'"
    by (simp add: place_precision_prediction_def gate_simps sample_store_def sample_round_def empty_store_def sample_env_def
        protocol_constants balance_def get_or_def get_max_precision_participants_def participants_of_def Let_def)
  have "[7] \<noteq> (replicate 32 0 :: bytes)" by (auto dest: arg_cong[where f = length])
  with run commit_path_is_laxer[THEN conjunct1, rule_format] show ?thesis by blast
qed

end
