(* ===== verification/Leaderboard.thy ===== *)
theory Leaderboard
  imports Administration
begin

text \<open>
  \<open>contracts/src/leaderboard.rs\<close> and the statistics of \<open>settlement.rs\<close>: win/loss counters
  with streaks, the bounded lifetime and season rankings, the season reset, and the
  paginated queries.  The lemmas show that a ranking is sorted, free of duplicates and
  bounded after every update, that inserting keeps exactly the best entries, and that a
  season reset freezes a ranking without losing it.
\<close>

definition no_stats :: user_stats where
  "no_stats = \<lparr>st_total_wins = 0, st_total_losses = 0, st_current_streak = 0, st_best_streak = 0\<rparr>"

definition lifetime_user_stats :: "store \<Rightarrow> address \<Rightarrow> user_stats" where
  "lifetime_user_stats s u = get_or (l_stats (s_board s)) no_stats u"

definition season_user_stats :: "store \<Rightarrow> nat \<Rightarrow> address \<Rightarrow> user_stats" where
  "season_user_stats s season u = get_or (l_season_stats (s_board s)) no_stats (season, u)"

section \<open>Bounded rankings\<close>

text \<open>The two sorting loops differ only in the counter they compare; \<open>score\<close> is that counter.
  \<open>insert_ranked\<close> is the inner loop: before the first entry that is worse, or at the end.\<close>

fun insert_ranked :: "(address \<Rightarrow> nat) \<Rightarrow> address \<Rightarrow> address list \<Rightarrow> address list" where
  "insert_ranked score a [] = [a]"
| "insert_ranked score a (b # bs) =
     (if score a > score b \<or> (score a = score b \<and> a < b) then a # b # bs
      else b # insert_ranked score a bs)"

definition reinsert_sorted :: "(address \<Rightarrow> nat) \<Rightarrow> address list \<Rightarrow> address list" where
  "reinsert_sorted score addresses = fold (insert_ranked score) addresses []"

definition without_user :: "address \<Rightarrow> address list \<Rightarrow> address list" where
  "without_user user list = filter (\<lambda>a. a \<noteq> user) list"

definition bounded_index :: "address list \<Rightarrow> address list" where
  "bounded_index ranked = take (min LEADERBOARD_LIMIT (length ranked)) ranked"

definition reranked :: "(address \<Rightarrow> nat) \<Rightarrow> address \<Rightarrow> address list \<Rightarrow> address list" where
  "reranked score user list = bounded_index (reinsert_sorted score (without_user user list @ [user]))"

definition upd_board :: "(board \<Rightarrow> board) \<Rightarrow> store \<Rightarrow> store" where
  "upd_board f s = s\<lparr>s_board := f (s_board s)\<rparr>"

definition update_leaderboards :: "address \<Rightarrow> store \<Rightarrow> store" where
  "update_leaderboards user s =
     (let wins = reranked (\<lambda>a. st_total_wins (lifetime_user_stats s a)) user (unwrap_or (l_wins (s_board s)) []);
          streak = reranked (\<lambda>a. st_best_streak (lifetime_user_stats s a)) user (unwrap_or (l_streak (s_board s)) [])
      in upd_board (\<lambda>l. l\<lparr>l_wins := Some wins, l_streak := Some streak\<rparr>) s)"

definition current_season_id :: "store \<Rightarrow> nat" where
  "current_season_id s = unwrap_or (l_season_id (s_board s)) 1"

definition update_season_leaderboards :: "nat \<Rightarrow> address \<Rightarrow> store \<Rightarrow> store" where
  "update_season_leaderboards season user s =
     (let wins = reranked (\<lambda>a. st_total_wins (season_user_stats s season a)) user
                   (unwrap_or (l_season_wins (s_board s)) []);
          streak = reranked (\<lambda>a. st_best_streak (season_user_stats s season a)) user
                     (unwrap_or (l_season_streak (s_board s)) [])
      in upd_board (\<lambda>l. l\<lparr>l_season_wins := Some wins, l_season_streak := Some streak\<rparr>) s)"

section \<open>Counters\<close>

definition won :: "user_stats \<Rightarrow> user_stats res" where
  "won st =
     and_then (ok_or (uchecked_add u32_max (st_total_wins st) 1) Overflow) (\<lambda>wins.
     and_then (ok_or (uchecked_add u32_max (st_current_streak st) 1) Overflow) (\<lambda>streak.
     Inr (st\<lparr>st_total_wins := wins, st_current_streak := streak,
             st_best_streak := (if streak > st_best_streak st then streak else st_best_streak st)\<rparr>)))"

definition lost :: "user_stats \<Rightarrow> user_stats res" where
  "lost st =
     and_then (ok_or (uchecked_add u32_max (st_total_losses st) 1) Overflow) (\<lambda>losses.
     Inr (st\<lparr>st_total_losses := losses, st_current_streak := 0\<rparr>))"

definition update_season_stats :: "(user_stats \<Rightarrow> user_stats res) \<Rightarrow> address \<Rightarrow> store \<Rightarrow> store res" where
  "update_season_stats change user s =
     (let season = current_season_id s in
      and_then (change (season_user_stats s season user)) (\<lambda>st.
      Inr (update_season_leaderboards season user
             (upd_board (\<lambda>l. l\<lparr>l_season_stats := (l_season_stats l)((season, user) \<mapsto> st)\<rparr>) s))))"

definition update_season_stats_win :: "address \<Rightarrow> store \<Rightarrow> store res" where
  "update_season_stats_win = update_season_stats won"

definition update_season_stats_loss :: "address \<Rightarrow> store \<Rightarrow> store res" where
  "update_season_stats_loss = update_season_stats lost"

definition update_stats_win :: "address \<Rightarrow> store \<Rightarrow> store res" where
  "update_stats_win user s =
     and_then (won (lifetime_user_stats s user)) (\<lambda>st.
     update_season_stats_win user
       (update_leaderboards user (upd_board (\<lambda>l. l\<lparr>l_stats := (l_stats l)(user \<mapsto> st)\<rparr>) s)))"

definition update_stats_loss :: "address \<Rightarrow> store \<Rightarrow> store res" where
  "update_stats_loss user s =
     and_then (lost (lifetime_user_stats s user)) (\<lambda>st.
     update_season_stats_loss user
       (update_leaderboards user (upd_board (\<lambda>l. l\<lparr>l_stats := (l_stats l)(user \<mapsto> st)\<rparr>) s)))"

section \<open>Seasons and queries\<close>

definition season_entry_of :: "store \<Rightarrow> nat \<Rightarrow> address \<Rightarrow> season_entry" where
  "season_entry_of s season a =
     (let st = season_user_stats s season a in
      \<lparr>se_user = a, se_wins = st_total_wins st, se_best_streak = st_best_streak st\<rparr>)"

text \<open>The participant count starts from the wins ranking and adds the members of the streak
  ranking it has not seen.\<close>

definition distinct_participants :: "address list \<Rightarrow> address list \<Rightarrow> address list" where
  "distinct_participants wins streak =
     fold (\<lambda>a seen. if a \<in> set seen then seen else seen @ [a]) streak wins"

definition reset_leaderboard_season :: "env \<Rightarrow> store \<Rightarrow> (nat \<times> store) res" where
  "reset_leaderboard_season e s =
     and_then (admin_gate e s) (\<lambda>_.
     let season = current_season_id s;
         wins = unwrap_or (l_season_wins (s_board s)) [];
         streak = unwrap_or (l_season_streak (s_board s)) [];
         count = length (distinct_participants wins streak);
         archive = \<lparr>sa_season_id = season, sa_ended_at_ledger = e_ledger e,
                    sa_wins = map (season_entry_of s season) wins,
                    sa_streak = map (season_entry_of s season) streak, sa_participant_count = count\<rparr>
     in and_then (ok_or (uchecked_add u32_max season 1) Overflow) (\<lambda>new_season.
        Inr (new_season,
          emit (''season'', ''reset'') [VNat season, VNat new_season, VNat (e_ledger e), VNat count]
            (upd_board (\<lambda>l. l\<lparr>l_season_archive := (l_season_archive l)(season \<mapsto> archive),
                              l_season_id := Some new_season,
                              l_season_wins := None, l_season_streak := None\<rparr>) s))))"

definition MAX_PAGE_SIZE :: nat where "MAX_PAGE_SIZE = 100"

definition page :: "nat \<Rightarrow> nat \<Rightarrow> 'a list \<Rightarrow> 'a list" where
  "page offset limit xs =
     (if offset \<ge> length xs then []
      else let fin = min (usaturating_add u32_max offset limit) (length xs) in
        map (\<lambda>i. xs ! i) [offset..<fin])"

definition get_leaderboard_by_wins :: "nat \<Rightarrow> nat \<Rightarrow> store \<Rightarrow> (address \<times> user_stats) list" where
  "get_leaderboard_by_wins offset limit s =
     (let limit' = min limit MAX_PAGE_SIZE in
      if limit' = 0 then []
      else map (\<lambda>u. (u, lifetime_user_stats s u)) (page offset limit' (unwrap_or (l_wins (s_board s)) [])))"

definition get_leaderboard_by_streak :: "nat \<Rightarrow> nat \<Rightarrow> store \<Rightarrow> (address \<times> user_stats) list" where
  "get_leaderboard_by_streak offset limit s =
     (let limit' = min limit MAX_PAGE_SIZE in
      if limit' = 0 then []
      else map (\<lambda>u. (u, lifetime_user_stats s u)) (page offset limit' (unwrap_or (l_streak (s_board s)) [])))"

definition get_season_leaderboard_by_wins :: "nat \<Rightarrow> nat \<Rightarrow> nat \<Rightarrow> store \<Rightarrow> season_entry list" where
  "get_season_leaderboard_by_wins season offset limit s =
     (let limit' = min limit MAX_PAGE_SIZE in
      if limit' = 0 then []
      else if season = current_season_id s
      then map (season_entry_of s season) (page offset limit' (unwrap_or (l_season_wins (s_board s)) []))
      else case l_season_archive (s_board s) season of
             None \<Rightarrow> []
           | Some a \<Rightarrow> page offset limit' (sa_wins a))"

definition get_season_leaderboard_by_streak :: "nat \<Rightarrow> nat \<Rightarrow> nat \<Rightarrow> store \<Rightarrow> season_entry list" where
  "get_season_leaderboard_by_streak season offset limit s =
     (let limit' = min limit MAX_PAGE_SIZE in
      if limit' = 0 then []
      else if season = current_season_id s
      then map (season_entry_of s season) (page offset limit' (unwrap_or (l_season_streak (s_board s)) []))
      else case l_season_archive (s_board s) season of
             None \<Rightarrow> []
           | Some a \<Rightarrow> page offset limit' (sa_streak a))"

section \<open>Ranking\<close>

definition ranks :: "(address \<Rightarrow> nat) \<Rightarrow> address \<Rightarrow> address \<Rightarrow> bool" where
  "ranks score a b \<longleftrightarrow> score a > score b \<or> (score a = score b \<and> a < b)"

lemma ranks_trans: "ranks score a b \<Longrightarrow> ranks score b c \<Longrightarrow> ranks score a c"
  by (auto simp: ranks_def)

lemma ranks_total: "a \<noteq> b \<Longrightarrow> ranks score a b \<or> ranks score b a"
  by (auto simp: ranks_def)

lemma ranks_irrefl [simp]: "\<not> ranks score a a"
  by (simp add: ranks_def)

lemma set_insert_ranked [simp]: "set (insert_ranked score a bs) = insert a (set bs)"
  by (induction bs) auto

lemma length_insert_ranked [simp]: "length (insert_ranked score a bs) = Suc (length bs)"
  by (induction bs) auto

lemma insert_ranked_sorted:
  "sorted_wrt (ranks score) bs \<Longrightarrow> a \<notin> set bs \<Longrightarrow> sorted_wrt (ranks score) (insert_ranked score a bs)"
proof (induction bs)
  case (Cons b bs)
  show ?case
  proof (cases "ranks score a b")
    case True
    then show ?thesis using Cons.prems by (auto simp: ranks_def[symmetric] intro: ranks_trans)
  next
    case False
    then have "ranks score b a" using ranks_total[of a b score] Cons.prems(2) by auto
    with False Cons show ?thesis by (auto simp: ranks_def[symmetric])
  qed
qed simp

lemma reinsert_sorted_gen:
  "sorted_wrt (ranks score) acc \<Longrightarrow> distinct as \<Longrightarrow> set as \<inter> set acc = {} \<Longrightarrow>
   sorted_wrt (ranks score) (fold (insert_ranked score) as acc) \<and>
   set (fold (insert_ranked score) as acc) = set as \<union> set acc \<and>
   length (fold (insert_ranked score) as acc) = length as + length acc"
proof (induction as arbitrary: acc)
  case (Cons a as)
  then show ?case using Cons.IH[of "insert_ranked score a acc"] insert_ranked_sorted[of score acc a] by auto
qed simp

lemma reinsert_sorted:
  assumes "distinct as"
  shows "sorted_wrt (ranks score) (reinsert_sorted score as)" "set (reinsert_sorted score as) = set as"
    "length (reinsert_sorted score as) = length as"
  using reinsert_sorted_gen[of score "[]" as] assms by (auto simp: reinsert_sorted_def)

lemma sorted_ranks_distinct: "sorted_wrt (ranks score) xs \<Longrightarrow> distinct xs"
  by (induction xs) auto

lemma sorted_wrt_take_drop:
  "sorted_wrt R xs \<Longrightarrow> x \<in> set (take n xs) \<Longrightarrow> y \<in> set (drop n xs) \<Longrightarrow> R x y"
  by (metis append_take_drop_id sorted_wrt_append)

text \<open>A bounded index is exact for a population when it is ranked, within the bound, and every
  member of the population it leaves out is outranked by a full index.\<close>

definition exact_index :: "(address \<Rightarrow> nat) \<Rightarrow> address set \<Rightarrow> address list \<Rightarrow> bool" where
  "exact_index score known xs \<longleftrightarrow>
     sorted_wrt (ranks score) xs \<and> length xs \<le> LEADERBOARD_LIMIT \<and> set xs \<subseteq> known \<and>
     (\<forall>u\<in>known - set xs. length xs = LEADERBOARD_LIMIT \<and> (\<forall>x\<in>set xs. ranks score x u))"

lemma exact_index_reranked:
  assumes old: "exact_index score known xs"
    and others: "\<And>v. v \<noteq> u \<Longrightarrow> score' v = score v" and up: "score u \<le> score' u"
  shows "exact_index score' (insert u known) (reranked score' u xs)"
proof -
  let ?c = "without_user u xs @ [u]" and ?n = LEADERBOARD_LIMIT
  let ?r = "reinsert_sorted score' ?c"
  have xs: "distinct xs" "sorted_wrt (ranks score) xs" "length xs \<le> ?n" "set xs \<subseteq> known"
    using old sorted_ranks_distinct by (auto simp: exact_index_def)
  have "distinct ?c" using xs(1) by (simp add: without_user_def)
  note r = reinsert_sorted[OF this, of score']
  have setr: "set ?r = insert u (set xs)" using r(2) by (auto simp: without_user_def)
  have lenr: "length ?r = (if u \<in> set xs then length xs else Suc (length xs))"
  proof -
    have "length ?r = card (set ?r)" using distinct_card[OF sorted_ranks_distinct[OF r(1)]] by simp
    also have "\<dots> = card (insert u (set xs))" by (simp only: setr)
    also have "\<dots> = (if u \<in> set xs then length xs else Suc (length xs))"
      using distinct_card[OF xs(1)] by (simp add: insert_absorb)
    finally show ?thesis .
  qed
  have new: "reranked score' u xs = take ?n ?r" by (simp add: reranked_def bounded_index_def min_def)
  have keep: "ranks score' x v" if "ranks score x v" "v \<noteq> u" for x v
    using that up others[of v] others[of x] by (cases "x = u") (auto simp: ranks_def)
  have left_out: "length (take ?n ?r) = ?n \<and> (\<forall>x\<in>set (take ?n ?r). ranks score' x v)"
    if v: "v \<in> insert u known" "v \<notin> set (take ?n ?r)" for v
  proof (cases "v \<in> set ?r")
    case True
    then have d: "v \<in> set (drop ?n ?r)" using v(2) by (metis UnE append_take_drop_id set_append)
    then have "?n < length ?r" by (metis drop_all empty_iff list.set(1) not_le)
    then show ?thesis using sorted_wrt_take_drop[OF r(1) _ d] by simp
  next
    case False
    then have nv: "v \<noteq> u" "v \<in> known - set xs" using v(1) setr by auto
    then have full: "length xs = ?n" "\<And>x. x \<in> set xs \<Longrightarrow> ranks score' x v"
      using old keep by (auto simp: exact_index_def)
    have "ranks score' u v" if u: "u \<in> set (take ?n ?r)"
    proof (cases "u \<in> set xs")
      case False
      then have "length ?r = Suc ?n" using lenr full(1) by simp
      then obtain y where y: "y \<in> set (drop ?n ?r)"
        by (metis Suc_n_not_le_n drop_eq_Nil list.set_intros(1) neq_Nil_conv)
      then have "y \<noteq> u" using sorted_wrt_take_drop[OF r(1) u y] by auto
      then have "y \<in> set xs" using setr in_set_dropD[OF y] by auto
      then show ?thesis using sorted_wrt_take_drop[OF r(1) u y] full(2) ranks_trans by blast
    qed (use full in blast)
    moreover have "length (take ?n ?r) = ?n" using lenr full(1) by simp
    moreover have "set (take ?n ?r) \<subseteq> insert u (set xs)" using setr set_take_subset by fastforce
    ultimately show ?thesis using full(2) by blast
  qed
  have "sorted_wrt (ranks score') (take ?n ?r)" using r(1) by (rule sorted_wrt_take)
  moreover have "set (take ?n ?r) \<subseteq> insert u known" using setr xs(4) set_take_subset by fastforce
  ultimately show ?thesis unfolding exact_index_def new using left_out by auto
qed

text \<open>What every maintained ranking promises: recording a result re-ranks exactly that user with
  the scores in force after it, and lowers nobody's score.\<close>

locale ranking =
  fixes score :: "store \<Rightarrow> address \<Rightarrow> nat"
    and known :: "store \<Rightarrow> address set"
    and index_of :: "store \<Rightarrow> address list"
    and record_result :: "'r \<Rightarrow> address \<Rightarrow> store \<Rightarrow> store res"
  assumes reranks: "record_result r u s = Inr s' \<Longrightarrow> index_of s' = reranked (score s') u (index_of s)"
    and others_keep: "record_result r u s = Inr s' \<Longrightarrow> v \<noteq> u \<Longrightarrow> score s' v = score s v"
    and never_lowers: "record_result r u s = Inr s' \<Longrightarrow> score s u \<le> score s' u"
    and remembers: "record_result r u s = Inr s' \<Longrightarrow> known s' = insert u (known s)"
begin

lemma stays_exact:
  assumes "exact_index (score s) (known s) (index_of s)" "record_result r u s = Inr s'"
  shows "exact_index (score s') (known s') (index_of s')"
  unfolding reranks[OF assms(2)] remembers[OF assms(2)]
  by (rule exact_index_reranked[OF assms(1)]) (rule others_keep[OF assms(2)] never_lowers[OF assms(2)], assumption?)+

lemma history_exact:
  assumes "exact_index (score s) (known s) (index_of s)"
    and "fold_res (\<lambda>(r, u). record_result r u) results s = Inr s'"
  shows "exact_index (score s') (known s') (index_of s')"
  using fold_res_inv[where P = "\<lambda>s. exact_index (score s) (known s) (index_of s)", OF _ assms]
    stays_exact by fast

end

section \<open>The four rankings\<close>

definition record_result :: "bool \<Rightarrow> address \<Rightarrow> store \<Rightarrow> store res" where
  "record_result win user s = (if win then update_stats_win user s else update_stats_loss user s)"

lemma upd_board_fields [simp]:
  "s_board (upd_board f s) = f (s_board s)" "s_money (upd_board f s) = s_money s"
  "s_book (upd_board f s) = s_book s" "s_config (upd_board f s) = s_config s"
  "s_history (upd_board f s) = s_history s" "s_ins (upd_board f s) = s_ins s"
  "s_orc (upd_board f s) = s_orc s" "s_admin (upd_board f s) = s_admin s"
  by (simp_all add: upd_board_def)

lemma won_Inr:
  "won st = Inr st' \<Longrightarrow> st_total_wins st' = Suc (st_total_wins st) \<and> st_best_streak st \<le> st_best_streak st' \<and>
     st_total_losses st' = st_total_losses st \<and> st_current_streak st' = Suc (st_current_streak st) \<and>
     st_best_streak st' = max (st_best_streak st) (st_current_streak st')"
  by (auto simp: won_def res_simps)

lemma lost_Inr:
  "lost st = Inr st' \<Longrightarrow> st_total_wins st' = st_total_wins st \<and> st_best_streak st' = st_best_streak st \<and>
     st_total_losses st' = Suc (st_total_losses st) \<and> st_current_streak st' = 0"
  by (auto simp: lost_def res_simps)

lemma record_result_Inr:
  assumes "record_result w u s = Inr s'"
  obtains st st2 where
    "(if w then won else lost) (lifetime_user_stats s u) = Inr st"
    "(if w then won else lost) (season_user_stats s (current_season_id s) u) = Inr st2"
    "l_stats (s_board s') = (l_stats (s_board s))(u \<mapsto> st)"
    "l_season_stats (s_board s') = (l_season_stats (s_board s))((current_season_id s, u) \<mapsto> st2)"
    "l_wins (s_board s') = Some (reranked (\<lambda>a. st_total_wins (lifetime_user_stats s' a)) u (unwrap_or (l_wins (s_board s)) []))"
    "l_streak (s_board s') = Some (reranked (\<lambda>a. st_best_streak (lifetime_user_stats s' a)) u (unwrap_or (l_streak (s_board s)) []))"
    "l_season_wins (s_board s') = Some (reranked (\<lambda>a. st_total_wins (season_user_stats s' (current_season_id s) a)) u
       (unwrap_or (l_season_wins (s_board s)) []))"
    "l_season_streak (s_board s') = Some (reranked (\<lambda>a. st_best_streak (season_user_stats s' (current_season_id s) a)) u
       (unwrap_or (l_season_streak (s_board s)) []))"
    "current_season_id s' = current_season_id s" "l_season_archive (s_board s') = l_season_archive (s_board s)"
    "s_money s' = s_money s" "s_book s' = s_book s" "s_config s' = s_config s"
proof -
  let ?change = "if w then won else lost" and ?n = "current_season_id s"
  have run: "and_then (?change (lifetime_user_stats s u)) (\<lambda>st. update_season_stats ?change u
       (update_leaderboards u (upd_board (\<lambda>l. l\<lparr>l_stats := (l_stats l)(u \<mapsto> st)\<rparr>) s))) = Inr s'"
    using assms by (cases w) (simp_all add: record_result_def update_stats_win_def update_stats_loss_def
        update_season_stats_win_def update_season_stats_loss_def)
  then obtain st st2 where st: "?change (lifetime_user_stats s u) = Inr st"
    and st2: "?change (season_user_stats s ?n u) = Inr st2"
    and s': "s' = update_season_leaderboards ?n u (upd_board (\<lambda>l. l\<lparr>l_season_stats := (l_season_stats l)((?n, u) \<mapsto> st2)\<rparr>)
        (update_leaderboards u (upd_board (\<lambda>l. l\<lparr>l_stats := (l_stats l)(u \<mapsto> st)\<rparr>) s)))"
    by (auto simp: update_season_stats_def and_then_Inr Let_def update_leaderboards_def current_season_id_def
        season_user_stats_def)
  show thesis
    by (rule that[OF st st2])
       (simp_all add: s' update_season_leaderboards_def update_leaderboards_def Let_def lifetime_user_stats_def
          season_user_stats_def current_season_id_def)
qed

lemma record_result_scores:
  assumes "record_result w u s = Inr s'"
  shows "v \<noteq> u \<Longrightarrow> lifetime_user_stats s' v = lifetime_user_stats s v"
    "v \<noteq> u \<Longrightarrow> season_user_stats s' n v = season_user_stats s n v"
    "st_total_wins (lifetime_user_stats s u) \<le> st_total_wins (lifetime_user_stats s' u)"
    "st_best_streak (lifetime_user_stats s u) \<le> st_best_streak (lifetime_user_stats s' u)"
    "st_total_wins (season_user_stats s (current_season_id s) u) \<le> st_total_wins (season_user_stats s' (current_season_id s) u)"
    "st_best_streak (season_user_stats s (current_season_id s) u) \<le> st_best_streak (season_user_stats s' (current_season_id s) u)"
proof -
  obtain st st2 where st: "(if w then won else lost) (lifetime_user_stats s u) = Inr st"
    and st2: "(if w then won else lost) (season_user_stats s (current_season_id s) u) = Inr st2"
    and b: "l_stats (s_board s') = (l_stats (s_board s))(u \<mapsto> st)"
      "l_season_stats (s_board s') = (l_season_stats (s_board s))((current_season_id s, u) \<mapsto> st2)"
    by (rule record_result_Inr[OF assms])
  show "v \<noteq> u \<Longrightarrow> lifetime_user_stats s' v = lifetime_user_stats s v"
    "v \<noteq> u \<Longrightarrow> season_user_stats s' n v = season_user_stats s n v"
    by (simp_all add: lifetime_user_stats_def season_user_stats_def b)
  have "lifetime_user_stats s' u = st" "season_user_stats s' (current_season_id s) u = st2"
    by (simp_all add: lifetime_user_stats_def season_user_stats_def b)
  then show "st_total_wins (lifetime_user_stats s u) \<le> st_total_wins (lifetime_user_stats s' u)"
    "st_best_streak (lifetime_user_stats s u) \<le> st_best_streak (lifetime_user_stats s' u)"
    "st_total_wins (season_user_stats s (current_season_id s) u) \<le> st_total_wins (season_user_stats s' (current_season_id s) u)"
    "st_best_streak (season_user_stats s (current_season_id s) u) \<le> st_best_streak (season_user_stats s' (current_season_id s) u)"
    using st st2 by (auto dest: won_Inr lost_Inr split: if_splits)
qed

definition ranked_users :: "store \<Rightarrow> address set" where
  "ranked_users s = dom (l_stats (s_board s))"

definition season_users :: "store \<Rightarrow> address set" where
  "season_users s = {u. l_season_stats (s_board s) (current_season_id s, u) \<noteq> None}"

lemma record_result_known:
  assumes "record_result w u s = Inr s'"
  shows "ranked_users s' = insert u (ranked_users s)" "season_users s' = insert u (season_users s)"
  by (rule record_result_Inr[OF assms], auto simp: ranked_users_def season_users_def)+

interpretation lifetime_wins: ranking "\<lambda>s a. st_total_wins (lifetime_user_stats s a)" ranked_users
  "\<lambda>s. unwrap_or (l_wins (s_board s)) []" record_result
  by unfold_locales (simp_all add: record_result_scores record_result_known, auto elim: record_result_Inr)

interpretation lifetime_streak: ranking "\<lambda>s a. st_best_streak (lifetime_user_stats s a)" ranked_users
  "\<lambda>s. unwrap_or (l_streak (s_board s)) []" record_result
  by unfold_locales (simp_all add: record_result_scores record_result_known, auto elim: record_result_Inr)

lemma record_result_season: "record_result w u s = Inr s' \<Longrightarrow> current_season_id s' = current_season_id s"
  by (erule record_result_Inr)

interpretation season_wins: ranking "\<lambda>s a. st_total_wins (season_user_stats s (current_season_id s) a)" season_users
  "\<lambda>s. unwrap_or (l_season_wins (s_board s)) []" record_result
  by unfold_locales
     (simp_all add: record_result_scores record_result_known record_result_season, auto elim: record_result_Inr)

interpretation season_streak: ranking "\<lambda>s a. st_best_streak (season_user_stats s (current_season_id s) a)" season_users
  "\<lambda>s. unwrap_or (l_season_streak (s_board s)) []" record_result
  by unfold_locales
     (simp_all add: record_result_scores record_result_known record_result_season, auto elim: record_result_Inr)

lemma page_map: "page off lim (map f xs) = map f (page off lim xs)"
  by (auto simp: page_def Let_def)

section \<open>Properties\<close>

definition leaderboards_exact :: "store \<Rightarrow> bool" where
  "leaderboards_exact s \<longleftrightarrow>
     exact_index (\<lambda>a. st_total_wins (lifetime_user_stats s a)) (ranked_users s) (unwrap_or (l_wins (s_board s)) []) \<and>
     exact_index (\<lambda>a. st_best_streak (lifetime_user_stats s a)) (ranked_users s) (unwrap_or (l_streak (s_board s)) []) \<and>
     exact_index (\<lambda>a. st_total_wins (season_user_stats s (current_season_id s) a)) (season_users s)
       (unwrap_or (l_season_wins (s_board s)) []) \<and>
     exact_index (\<lambda>a. st_best_streak (season_user_stats s (current_season_id s) a)) (season_users s)
       (unwrap_or (l_season_streak (s_board s)) [])"

text \<open>C40 The bounded leaderboards are exact.  However many wins and losses are recorded, each of
  the four rankings (wins and best streak, lifetime and season) is sorted by its counter
  with the lower address first among equals, holds at most 100 distinct users who all have
  a record, and leaves a user with a record out only when it is full of users who rank
  before them.\<close>

theorem leaderboards_stay_exact:
  assumes "leaderboards_exact s" "fold_res (\<lambda>(win, u). record_result win u) results s = Inr s'"
  shows "leaderboards_exact s'"
  using assms lifetime_wins.history_exact[OF _ assms(2)] lifetime_streak.history_exact[OF _ assms(2)]
    season_wins.history_exact[OF _ assms(2)] season_streak.history_exact[OF _ assms(2)]
  by (simp add: leaderboards_exact_def)

theorem leaderboards_stay_exact_witness:
  "\<exists>s'. fold_res (\<lambda>(win, u). record_result win u) [(True, 7), (False, 3)] empty_store = Inr s' \<and>
        leaderboards_exact s'"
proof -
  have ex: "leaderboards_exact empty_store"
    by (simp add: leaderboards_exact_def exact_index_def ranked_users_def season_users_def empty_store_def
        LEADERBOARD_LIMIT_def)
  obtain s' where run: "fold_res (\<lambda>(win, u). record_result win u) [(True, 7), (False, 3)] empty_store = Inr s'"
    by (simp add: record_result_def update_stats_win_def update_stats_loss_def update_season_stats_win_def
        update_season_stats_loss_def update_season_stats_def won_def lost_def uchecked_add_def u32_max_def
        lifetime_user_stats_def season_user_stats_def current_season_id_def no_stats_def get_or_def
        empty_store_def Let_def update_leaderboards_def update_season_leaderboards_def upd_board_def)
  with leaderboards_stay_exact[OF ex run] show ?thesis by blast
qed

text \<open>A season reset archives without losing anything: every page of the ended season's two
  leaderboards reads the same after the reset as before it, the lifetime rankings and all
  statistics are untouched, and the new season starts with empty rankings that are exact.\<close>

theorem season_reset_preserves_pages:
  assumes "reset_leaderboard_season e s = Inr (n, s')"
    and "\<forall>m u. current_season_id s < m \<longrightarrow> l_season_stats (s_board s) (m, u) = None"
    and "leaderboards_exact s"
  shows "n = current_season_id s + 1 \<and> current_season_id s' = n \<and>
         get_season_leaderboard_by_wins (current_season_id s) off lim s'
           = get_season_leaderboard_by_wins (current_season_id s) off lim s \<and>
         get_season_leaderboard_by_streak (current_season_id s) off lim s'
           = get_season_leaderboard_by_streak (current_season_id s) off lim s \<and>
         get_leaderboard_by_wins off lim s' = get_leaderboard_by_wins off lim s \<and>
         l_stats (s_board s') = l_stats (s_board s) \<and> l_season_stats (s_board s') = l_season_stats (s_board s) \<and>
         leaderboards_exact s'"
proof -
  from assms(1) have n: "n = current_season_id s + 1"
    and b: "l_stats (s_board s') = l_stats (s_board s)" "l_season_stats (s_board s') = l_season_stats (s_board s)"
      "l_wins (s_board s') = l_wins (s_board s)" "l_streak (s_board s') = l_streak (s_board s)"
      "l_season_wins (s_board s') = None" "l_season_streak (s_board s') = None" "l_season_id (s_board s') = Some n"
    and a: "\<exists>x. l_season_archive (s_board s') (current_season_id s) = Some x \<and>
       sa_wins x = map (season_entry_of s (current_season_id s)) (unwrap_or (l_season_wins (s_board s)) []) \<and>
       sa_streak x = map (season_entry_of s (current_season_id s)) (unwrap_or (l_season_streak (s_board s)) [])"
    by (auto simp: reset_leaderboard_season_def and_then_Inr ok_or_Inr uchecked_Some Let_def)
  have id: "current_season_id s' = n" using b(7) by (simp add: current_season_id_def)
  have "get_season_leaderboard_by_wins (current_season_id s) off lim s'
           = get_season_leaderboard_by_wins (current_season_id s) off lim s"
    "get_season_leaderboard_by_streak (current_season_id s) off lim s'
           = get_season_leaderboard_by_streak (current_season_id s) off lim s"
    using a id n
    by (auto simp: get_season_leaderboard_by_wins_def get_season_leaderboard_by_streak_def Let_def page_map)
  moreover have "get_leaderboard_by_wins off lim s' = get_leaderboard_by_wins off lim s"
    by (simp only: get_leaderboard_by_wins_def b(1,3) lifetime_user_stats_def)
  moreover have "season_users s' = {}" using assms(2) id n b(2) by (simp add: season_users_def)
  then have "leaderboards_exact s'"
    using assms(3) unfolding leaderboards_exact_def
    by (simp add: b ranked_users_def lifetime_user_stats_def exact_index_def)
  ultimately show ?thesis using n id b(1,2) by blast
qed

theorem season_reset_preserves_pages_witness:
  "let s = empty_store\<lparr>s_admin := Some 1, s_schema := Some 3,
             s_board := (s_board empty_store)\<lparr>l_season_wins := Some [7], l_season_streak := Some [7],
               l_season_stats := [(1, 7) \<mapsto> \<lparr>st_total_wins = 4, st_total_losses = 1, st_current_streak = 2, st_best_streak = 2\<rparr>]\<rparr>\<rparr>
   in \<exists>s'. reset_leaderboard_season (sample_env 50 0 [1]) s = Inr (2, s') \<and>
        get_season_leaderboard_by_wins 1 0 10 s' = get_season_leaderboard_by_wins 1 0 10 s"
proof -
  let ?s = "empty_store\<lparr>s_admin := Some 1, s_schema := Some 3,
             s_board := (s_board empty_store)\<lparr>l_season_wins := Some [7], l_season_streak := Some [7],
               l_season_stats := [(1, 7) \<mapsto> \<lparr>st_total_wins = 4, st_total_losses = 1, st_current_streak = 2, st_best_streak = 2\<rparr>]\<rparr>\<rparr>"
  have id: "current_season_id ?s = 1" by (simp add: current_season_id_def empty_store_def)
  obtain s' where run: "reset_leaderboard_season (sample_env 50 0 [1]) ?s = Inr (2, s')"
    by (simp add: reset_leaderboard_season_def admin_gate_def admin_unpaused_def admin_auth_def require_auth_def
        require_supported_schema_def schema_version_def ensure_not_paused_def policy_gate_def current_mode_def
        current_season_id_def uchecked_add_def empty_store_def sample_env_def protocol_constants Let_def)
  have "leaderboards_exact ?s"
    by (auto simp: leaderboards_exact_def exact_index_def ranked_users_def season_users_def empty_store_def
        LEADERBOARD_LIMIT_def current_season_id_def)
  moreover have "\<forall>m u. current_season_id ?s < m \<longrightarrow> l_season_stats (s_board ?s) (m, u) = None"
    unfolding id by simp
  ultimately show ?thesis
    using season_reset_preserves_pages[OF run, of 0 10] run unfolding id Let_def by blast
qed

end
