(* ===== verification/Payouts.thy ===== *)
theory Payouts
  imports Betting Leaderboard
begin

text \<open>
  The payout half of \<open>contracts/src/settlement.rs\<close>: refunds, UpDown winnings, the scan for
  the winners of a Precision round and the split of its pot, as they run on storage.  The
  code is read without the feature \<open>legacy-map-settlement\<close>, which is off by default.  Every
  loop visits participants and credits at most the one it visits; the locale
  \<open>crediting_step\<close> states this contract once, and each loop body is interpreted in it.
\<close>

section \<open>Loops that credit the visited user\<close>

lemma total_of_superset:
  assumes "finite A" "dom m \<subseteq> A"
  shows "total_of m = (\<Sum>k\<in>A. get_or m 0 k)"
proof -
  have "(\<Sum>k\<in>A. get_or m 0 k) = (\<Sum>k\<in>dom m. get_or m 0 k)"
    by (rule sum.mono_neutral_right[OF assms]) (auto simp: get_or_def split: option.splits)
  also have "\<dots> = total_of m" unfolding total_of_def by (rule sum.cong) (auto simp: get_or_def)
  finally show ?thesis by simp
qed

lemma total_of_shift:
  assumes "finite (dom m)" "finite (dom m')" "\<forall>v. get_or m' 0 v = get_or m 0 v + (if v = u then x else 0)"
  shows "total_of m' = total_of m + x"
proof -
  let ?A = "insert u (dom m \<union> dom m')"
  have fin: "finite ?A" using assms by simp
  have "total_of m' = (\<Sum>k\<in>?A. get_or m 0 k + (if k = u then x else 0))"
    using total_of_superset[OF fin, of m'] assms(3) by auto
  also have "\<dots> = (\<Sum>k\<in>?A. get_or m 0 k) + x"
    using fin by (subst sum.distrib) (simp add: sum.delta)
  also have "(\<Sum>k\<in>?A. get_or m 0 k) = total_of m"
    using total_of_superset[OF fin, of m] by (simp add: subset_insertI2)
  finally show ?thesis .
qed

definition credited :: "address \<Rightarrow> int \<Rightarrow> store \<Rightarrow> store \<Rightarrow> bool" where
  "credited u x s s' \<longleftrightarrow>
     (\<forall>v. pending_of s' v = pending_of s v + (if v = u then x else 0)) \<and>
     k_balance (s_money s') = k_balance (s_money s) \<and> k_treasury (s_money s') = k_treasury (s_money s) \<and>
     k_fund (s_money s') = k_fund (s_money s) \<and>
     (finite (dom (k_pending (s_money s))) \<longrightarrow> finite (dom (k_pending (s_money s')))) \<and>
     s_book s' = s_book s \<and> s_config s' = s_config s \<and> s_ins s' = s_ins s"

lemma credited_refl [simp]: "credited u 0 s s"
  by (simp add: credited_def)

lemma credited_trans0:
  "credited u x s t \<Longrightarrow> credited u y t s' \<Longrightarrow> credited u (x + y) s s'"
  unfolding credited_def by auto

lemma accumulate_credited: "accumulate_pending e u x s = Inr s' \<Longrightarrow> credited u x s s'"
  by (auto simp: accumulate_pending_Inr credited_def pending_of_def)

lemma same_money_credited:
  "s_money s' = s_money s \<Longrightarrow> s_book s' = s_book s \<Longrightarrow> s_config s' = s_config s \<Longrightarrow> s_ins s' = s_ins s \<Longrightarrow> credited u 0 s s'"
  by (simp add: credited_def pending_of_def)

lemma credited_emit: "credited u x s s' \<Longrightarrow> credited u x s (emit t d s')"
  by (simp add: credited_def pending_of_def)

lemma credited_from_emit: "credited u x (emit t d s) s' \<Longrightarrow> credited u x s s'"
  by (simp add: credited_def pending_of_def)

lemma credited_persist: "credited u x s s' \<Longrightarrow> credited u x s (persist_user_outcome a b c d f g h i s')"
  by (simp add: credited_def pending_of_def)

lemma record_result_ins: "record_result w u s = Inr s' \<Longrightarrow> s_ins s' = s_ins s"
  by (cases w) (auto simp: record_result_def update_stats_win_def update_stats_loss_def update_season_stats_win_def
      update_season_stats_loss_def update_season_stats_def and_then_Inr Let_def update_leaderboards_def
      update_season_leaderboards_def)

lemma stats_credited:
  "update_stats_win u s = Inr s' \<Longrightarrow> credited v 0 s s'"
  "update_stats_loss u s = Inr s' \<Longrightarrow> credited v 0 s s'"
proof -
  assume "update_stats_win u s = Inr s'"
  then have r: "record_result True u s = Inr s'" by (simp add: record_result_def)
  show "credited v 0 s s'" by (rule record_result_Inr[OF r]) (rule same_money_credited, assumption+, rule record_result_ins[OF r])
next
  assume "update_stats_loss u s = Inr s'"
  then have r: "record_result False u s = Inr s'" by (simp add: record_result_def)
  show "credited v 0 s s'" by (rule record_result_Inr[OF r]) (rule same_money_credited, assumption+, rule record_result_ins[OF r])
qed

lemma credited_held:
  assumes "credited u x s s'" "money_ok (s_money s)" "0 \<le> x"
  shows "held s' = held s + x" "money_ok (s_money s')"
proof -
  have fin: "finite (dom (k_pending (s_money s)))" "finite (dom (k_pending (s_money s')))"
    using assms(1,2) by (simp_all add: credited_def money_ok_def)
  have "total_of (k_pending (s_money s')) = total_of (k_pending (s_money s)) + x"
    by (rule total_of_shift[OF fin, of u]) (use assms(1) in \<open>simp add: credited_def pending_of_def\<close>)
  then show "held s' = held s + x" using assms(1) by (simp add: held_def credited_def)
  show "money_ok (s_money s')"
    using assms fin(2) by (auto simp: credited_def money_ok_def pending_of_def)
qed

locale crediting_step =
  fixes step :: "'a \<Rightarrow> store \<Rightarrow> store res"
    and who :: "'a \<Rightarrow> address"
    and pays :: "book \<Rightarrow> 'a \<Rightarrow> int"
  assumes credits: "step x s = Inr s' \<Longrightarrow> credited (who x) (pays (s_book s) x) s s'"
begin

lemma step_frame:
  "step x s = Inr s' \<Longrightarrow> s_book s' = s_book s \<and> s_config s' = s_config s \<and> s_ins s' = s_ins s \<and>
     k_treasury (s_money s') = k_treasury (s_money s) \<and> k_fund (s_money s') = k_fund (s_money s) \<and>
     k_balance (s_money s') = k_balance (s_money s)"
  using credits[of x s s'] by (simp add: credited_def)

lemma loop_frame:
  "fold_res step xs s = Inr s' \<Longrightarrow> s_book s' = s_book s \<and> s_config s' = s_config s \<and> s_ins s' = s_ins s \<and>
     k_treasury (s_money s') = k_treasury (s_money s) \<and> k_fund (s_money s') = k_fund (s_money s) \<and>
     k_balance (s_money s') = k_balance (s_money s)"
  by (rule fold_res_rel[where R = "\<lambda>s s'. s_book s' = s_book s \<and> s_config s' = s_config s \<and> s_ins s' = s_ins s \<and>
     k_treasury (s_money s') = k_treasury (s_money s) \<and> k_fund (s_money s') = k_fund (s_money s) \<and>
     k_balance (s_money s') = k_balance (s_money s)"]) (auto dest: step_frame)

lemma loop_pending:
  assumes "fold_res step xs s = Inr s'"
  shows "pending_of s' v = pending_of s v + sum_list (map (pays (s_book s)) (filter (\<lambda>x. who x = v) xs))"
  using assms
proof (induction xs arbitrary: s)
  case (Cons x xs)
  from Cons.prems obtain t where t: "step x s = Inr t" "fold_res step xs t = Inr s'"
    by (auto simp: and_then_Inr)
  note c = credits[OF t(1)]
  have "s_book t = s_book s" using step_frame[OF t(1)] by simp
  then show ?case using Cons.IH[OF t(2)] c by (auto simp: credited_def)
qed simp

end

sublocale crediting_step \<subseteq> paying_step step pays
proof unfold_locales
  fix x s s'
  assume "step x s = Inr s'" "money_ok (s_money s)" "0 \<le> pays (s_book s) x"
  then show "held s' = held s + pays (s_book s) x \<and> money_ok (s_money s')"
    using credited_held[OF credits] by blast
qed (use step_frame in blast)

section \<open>Refunds\<close>

text \<open>The body of every UpDown refund loop, and of every Precision refund loop that skips a
  participant without a stake.\<close>

definition refund_position :: "env \<Rightarrow> nat \<Rightarrow> nat \<Rightarrow> outcome_type \<Rightarrow> address \<Rightarrow> store \<Rightarrow> store res" where
  "refund_position e rid mode outcome user s =
     (case b_positions (s_book s) (rid, user) of
        None \<Rightarrow> Inr s
      | Some p \<Rightarrow>
          and_then (accumulate_pending e user (pos_amount p) s) (\<lambda>s1.
          Inr (persist_user_outcome rid mode user (side_code (pos_side p)) 0 (pos_amount p) (pos_amount p) outcome s1)))"

definition precision_amount :: "store \<Rightarrow> nat \<Rightarrow> address \<Rightarrow> int" where
  "precision_amount s rid user =
     (case b_predictions (s_book s) (rid, user) of
        Some p \<Rightarrow> pp_amount p
      | None \<Rightarrow> (case b_commitments (s_book s) (rid, user) of Some c \<Rightarrow> pc_amount c | None \<Rightarrow> 0))"

definition refund_entry :: "env \<Rightarrow> nat \<Rightarrow> nat \<Rightarrow> outcome_type \<Rightarrow> address \<Rightarrow> int \<Rightarrow> store \<Rightarrow> store res" where
  "refund_entry e rid price outcome user stake s =
     (if stake > 0 then
        and_then (accumulate_pending e user stake s) (\<lambda>s1.
        Inr (persist_user_outcome rid 1 user 2 price stake stake outcome s1))
      else Inr s)"

definition record_refunds_indexed :: "env \<Rightarrow> nat \<Rightarrow> nat \<Rightarrow> address list \<Rightarrow> store \<Rightarrow> store res" where
  "record_refunds_indexed e rid mode participants = fold_res (refund_position e rid mode Refund) participants"

definition refund_under_threshold :: "env \<Rightarrow> round \<Rightarrow> address list \<Rightarrow> store \<Rightarrow> store res" where
  "refund_under_threshold e r participants s =
     and_then (case r_mode r of
                 UpDown \<Rightarrow> fold_res (refund_position e (r_id r) 0 Refund) participants s
               | Precision \<Rightarrow>
                   fold_res (\<lambda>user t. refund_entry e (r_id r) 0 Refund user (precision_amount t (r_id r) user) t) participants s)
       (\<lambda>s1. Inr (remove_active_round (remove_participants (r_id r)
                    (fold (clear_user_positions (r_id r)) participants s1))))"

section \<open>UpDown settlement\<close>

definition updown_step :: "env \<Rightarrow> nat \<Rightarrow> bet_side \<Rightarrow> int \<Rightarrow> int \<Rightarrow> address \<Rightarrow> store \<Rightarrow> store res" where
  "updown_step e rid winning_side original_winning_pool total_distributable user s =
     (case b_positions (s_book s) (rid, user) of
        None \<Rightarrow> Inr s
      | Some p \<Rightarrow>
          if pos_side p = winning_side then
            and_then (compute_updown_winner_payout (pos_amount p) original_winning_pool total_distributable) (\<lambda>payout.
            and_then (accumulate_pending e user payout s) (\<lambda>s1.
            and_then (update_stats_win user s1) (\<lambda>s2.
            Inr (persist_user_outcome rid 0 user (side_code (pos_side p)) 0 (pos_amount p) payout Win s2))))
          else
            and_then (update_stats_loss user
                        (emit (''outcome'', ''loss'')
                           [VAddr user, VNat rid, VNat 0, VInt (pos_amount p), VNat (side_code (pos_side p)), VNat 0] s)) (\<lambda>s2.
            Inr (persist_user_outcome rid 0 user (side_code (pos_side p)) 0 (pos_amount p) 0 Loss s2)))"

definition record_winnings_indexed ::
  "env \<Rightarrow> nat \<Rightarrow> address list \<Rightarrow> bet_side \<Rightarrow> int \<Rightarrow> int \<Rightarrow> store \<Rightarrow> (int \<times> store) res" where
  "record_winnings_indexed e rid participants winning_side winning_pool losing_pool s =
     (if winning_pool = 0 then Inr (0, s)
      else
        and_then (apply_protocol_fee_updown rid winning_pool losing_pool s) (\<lambda>((dist_winning, dist_losing, fee_amount), s1).
        and_then (payout_add dist_winning dist_losing) (\<lambda>total_distributable.
        and_then (fold_res (updown_step e rid winning_side winning_pool total_distributable) participants s1) (\<lambda>s2.
        Inr (fee_amount, s2)))))"

definition select_one_sided_policy :: "round \<Rightarrow> one_sided_policy" where
  "select_one_sided_policy r = RefundPolicy"

definition one_sided_code :: "one_sided_policy \<Rightarrow> nat" where
  "one_sided_code p = (case p of RefundPolicy \<Rightarrow> 0 | VoidPolicy \<Rightarrow> 1 | CarryForward \<Rightarrow> 2)"

definition apply_one_sided_policy :: "env \<Rightarrow> round \<Rightarrow> one_sided_policy \<Rightarrow> address list \<Rightarrow> store \<Rightarrow> (int \<times> store) res" where
  "apply_one_sided_policy e r policy participants s =
     (let affected_side = (if r_pool_up r > 0 then 0 else if r_pool_down r > 0 then 1 else 2);
          both = saturating_add (r_pool_up r) (r_pool_down r);
          (refund_amount, carry_amount) = (if policy = CarryForward then (0, both) else (both, 0))
      in and_then (if participants \<noteq> [] then record_refunds_indexed e (r_id r) 0 participants s else Inr s) (\<lambda>s1.
         Inr (0, emit (''pool'', ''onesided'')
                [VNat (r_id r), VNat (one_sided_code policy), VNat affected_side, VInt refund_amount,
                 VInt carry_amount, VInt (r_pool_up r), VInt (r_pool_down r)] s1)))"

definition resolve_updown_mode :: "env \<Rightarrow> round \<Rightarrow> nat \<Rightarrow> store \<Rightarrow> ((bool \<times> int) \<times> store) res" where
  "resolve_updown_mode e r final_price s =
     (let participants = sort_addresses (participants_of s (r_id r));
          direction = classify_price_direction (r_price_start r) final_price;
          one_sided = is_one_sided_pool (r_pool_up r) (r_pool_down r)
      in and_then
           (if one_sided then apply_one_sided_policy e r (select_one_sided_policy r) participants s
            else if participants \<noteq> [] then
              (case direction of
                 Unchanged \<Rightarrow> and_then (record_refunds_indexed e (r_id r) 0 participants s) (\<lambda>s1. Inr (0, s1))
               | PriceUp \<Rightarrow> record_winnings_indexed e (r_id r) participants Up (r_pool_up r) (r_pool_down r) s
               | PriceDown \<Rightarrow> record_winnings_indexed e (r_id r) participants Down (r_pool_down r) (r_pool_up r) s)
            else Inr (0, s)) (\<lambda>(fee_amount, s1).
         Inr ((one_sided, fee_amount), s1)))"

section \<open>Precision settlement\<close>

text \<open>The deployed split of a Precision pot.  The stake-weighted loop is the one of the pure
  engine (multiply, divide, push, add), so it is \<open>weighted_payouts\<close> again.\<close>

fun equal_payouts :: "int \<Rightarrow> nat \<Rightarrow> int \<Rightarrow> (int list \<times> int) res" where
  "equal_payouts per_winner 0 total_paid = Inr ([], total_paid)"
| "equal_payouts per_winner (Suc n) total_paid =
     and_then (payout_add total_paid per_winner) (\<lambda>total_paid'.
     and_then (equal_payouts per_winner n total_paid') (\<lambda>(ps, fin). Inr (per_winner # ps, fin)))"

definition calculate_precision_payouts :: "payout_policy \<Rightarrow> int list \<Rightarrow> int \<Rightarrow> int list res" where
  "calculate_precision_payouts policy winner_stakes payout_pool =
     and_then
       (case policy of
          Equal \<Rightarrow>
            if winner_stakes \<noteq> [] then
              and_then (or_trap (checked_div payout_pool (int (length winner_stakes)))) (\<lambda>per_winner.
              equal_payouts per_winner (length winner_stakes) 0)
            else Inr ([], 0)
        | StakeWeighted \<Rightarrow>
            and_then (sum_stakes winner_stakes 0) (\<lambda>total_winner_stakes.
            if total_winner_stakes > 0 then weighted_payouts payout_pool total_winner_stakes winner_stakes 0
            else Inr (replicate (length winner_stakes) 0, 0))) (\<lambda>(payouts, total_paid).
     and_then (ok_or (checked_sub payout_pool total_paid) PayoutOverflow) (\<lambda>remainder.
     if winner_stakes \<noteq> [] \<and> payouts \<noteq> [] then
       and_then (payout_add (payouts ! 0) remainder) (\<lambda>first. Inr (payouts[0 := first]))
     else Inr payouts))"

text \<open>The scan over the participants, with the parallel vectors the code keeps.\<close>

record precision_scan =
  sc_min_diff :: "nat option"
  sc_winners :: "precision_prediction list"
  sc_pot :: int
  sc_amounts :: "int list"
  sc_prices :: "nat list"
  sc_revealed :: "bool list"
  sc_mask :: "bool list"

definition empty_scan :: precision_scan where
  "empty_scan = \<lparr>sc_min_diff = None, sc_winners = [], sc_pot = 0, sc_amounts = [], sc_prices = [],
                 sc_revealed = [], sc_mask = []\<rparr>"

definition scan_step :: "store \<Rightarrow> nat \<Rightarrow> nat \<Rightarrow> address \<Rightarrow> precision_scan \<Rightarrow> precision_scan res" where
  "scan_step s rid final_price user sc =
     (let pred = b_predictions (s_book s) (rid, user);
          amount = precision_amount s rid user;
          idx = length (sc_mask sc)
      in and_then (payout_add (sc_pot sc) amount) (\<lambda>pot.
         let sc1 = sc\<lparr>sc_pot := pot, sc_amounts := sc_amounts sc @ [amount],
                      sc_prices := sc_prices sc @ [case pred of Some p \<Rightarrow> pp_price p | None \<Rightarrow> 0],
                      sc_revealed := sc_revealed sc @ [pred \<noteq> None], sc_mask := sc_mask sc @ [False]\<rparr>
         in case pred of
              None \<Rightarrow> Inr sc1
            | Some p \<Rightarrow>
                and_then (ok_or (if pp_price p \<ge> final_price then uchecked_sub (pp_price p) final_price
                                 else uchecked_sub final_price (pp_price p)) Overflow) (\<lambda>diff.
                case sc_min_diff sc of
                  None \<Rightarrow>
                    Inr (sc1\<lparr>sc_min_diff := Some diff, sc_winners := sc_winners sc @ [p],
                             sc_mask := (sc_mask sc1)[idx := True]\<rparr>)
                | Some current_min \<Rightarrow>
                    if diff < current_min then
                      Inr (sc1\<lparr>sc_min_diff := Some diff, sc_winners := [p],
                               sc_mask := (replicate idx False @ drop idx (sc_mask sc1))[idx := True]\<rparr>)
                    else if diff = current_min then
                      Inr (sc1\<lparr>sc_winners := sc_winners sc @ [p], sc_mask := (sc_mask sc1)[idx := True]\<rparr>)
                    else Inr sc1)))"

definition pay_winner :: "env \<Rightarrow> nat \<Rightarrow> bool \<Rightarrow> precision_prediction \<times> int \<Rightarrow> store \<Rightarrow> store res" where
  "pay_winner e rid skip_payout = (\<lambda>(w, payout) s.
     and_then (if \<not> skip_payout then
                 and_then (accumulate_pending e (pp_user w) payout s) (\<lambda>s1. update_stats_win (pp_user w) s1)
               else Inr s) (\<lambda>s2.
     Inr (persist_user_outcome rid 1 (pp_user w) 2 (pp_price w) (pp_amount w) payout Win s2)))"

definition note_loser :: "nat \<Rightarrow> precision_scan \<Rightarrow> nat \<times> address \<Rightarrow> store \<Rightarrow> store res" where
  "note_loser rid sc = (\<lambda>(idx, user) s.
     if idx < length (sc_mask sc) \<and> sc_mask sc ! idx then Inr s
     else
       and_then (index_or_trap (sc_amounts sc) idx) (\<lambda>stake.
       and_then (index_or_trap (sc_prices sc) idx) (\<lambda>price.
       and_then (index_or_trap (sc_revealed sc) idx) (\<lambda>revealed.
       let s1 = (if \<not> revealed then emit (''forfeit'', ''predict'') [VAddr user, VNat rid, VInt stake] s else s);
           s2 = emit (''outcome'', ''loss'') [VAddr user, VNat rid, VNat 1, VInt stake, VNat 0, VNat price] s1
       in and_then (update_stats_loss user s2) (\<lambda>s3.
          Inr (persist_user_outcome rid 1 user 2 price stake 0 Loss s3))))))"

definition stake_at :: "precision_scan \<Rightarrow> nat \<Rightarrow> int" where
  "stake_at sc idx = (if idx < length (sc_amounts sc) then sc_amounts sc ! idx else 0)"

definition resolve_precision_mode :: "env \<Rightarrow> nat \<Rightarrow> nat \<Rightarrow> bool \<Rightarrow> store \<Rightarrow> ((int \<times> int) \<times> store) res" where
  "resolve_precision_mode e rid final_price skip_payout s =
     (let participants = sort_addresses (participants_of s rid) in
      if participants = [] then Inr ((0, 0), s)
      else
        and_then (fold_res (scan_step s rid final_price) participants empty_scan) (\<lambda>sc.
        let winners = sc_winners sc; total_pot = sc_pot sc in
        if winners \<noteq> [] \<and> total_pot > 0 then
          and_then (sum_stakes (map pp_amount winners) 0) (\<lambda>winner_stakes.
          and_then (apply_protocol_fee_precision rid total_pot winner_stakes s) (\<lambda>((payout_pool, fee), s1).
          and_then (calculate_precision_payouts (read_precision_payout_policy s1) (map pp_amount winners) payout_pool) (\<lambda>payouts.
          and_then (fold_res (pay_winner e rid skip_payout)
                      (map (\<lambda>i. (winners ! i, if i < length payouts then payouts ! i else 0)) [0..<length winners]) s1) (\<lambda>s2.
          and_then (fold_res (note_loser rid sc) (enumerate 0 participants) s2) (\<lambda>s3.
          Inr ((fee, total_pot), s3))))))
        else if total_pot > 0 then
          and_then (fold_res (\<lambda>(idx, user). refund_entry e rid 0 Refund user (stake_at sc idx))
                      (enumerate 0 participants) s) (\<lambda>s1.
          Inr ((0, total_pot), s1))
        else Inr ((0, total_pot), s)))"

section \<open>The loops keep the crediting contract\<close>

lemma precision_amount_stake: "precision_amount s rid u = get_or (precision_stake (s_book s)) 0 (rid, u)"
  by (simp add: precision_amount_def precision_stake_def get_or_def split: option.splits)

definition share_of :: "int \<Rightarrow> int \<Rightarrow> int \<Rightarrow> int" where
  "share_of stake pool distributable = (if pool = 0 then 0 else stake * distributable sdiv pool)"

lemma winner_payout_Inr: "compute_updown_winner_payout x pool d = Inr y \<Longrightarrow> y = share_of x pool d"
  by (auto simp: compute_updown_winner_payout_def share_of_def and_then_Inr payout_mul_Inr or_trap_Inr checked_div_Some
      split: if_splits)

interpretation refunding: crediting_step "refund_position e rid mode outcome" "\<lambda>u. u"
  "\<lambda>b u. get_or (position_stake b) 0 (rid, u)" for e rid mode outcome
  by unfold_locales
     (auto simp: refund_position_def position_stake_def get_or_def and_then_Inr split: option.splits
       intro: credited_persist accumulate_credited)

interpretation entry_refunding: crediting_step
  "\<lambda>u s. refund_entry e rid (price s u) outcome u (precision_amount s rid u) s" "\<lambda>u. u"
  "\<lambda>b u. max 0 (get_or (precision_stake b) 0 (rid, u))" for e rid price outcome
  by unfold_locales
     (auto simp: refund_entry_def precision_amount_stake and_then_Inr max_def split: if_splits
       intro: credited_persist accumulate_credited)

interpretation known_refunding: crediting_step
  "\<lambda>(idx, u). refund_entry e rid price outcome u (stake idx)" snd
  "\<lambda>b (idx, u). max 0 (stake idx)" for e rid price outcome stake
  by unfold_locales
     (auto simp: refund_entry_def and_then_Inr max_def split: if_splits prod.splits
       intro: credited_persist accumulate_credited)

interpretation winning: crediting_step "updown_step e rid side pool d" "\<lambda>u. u"
  "\<lambda>b u. case b_positions b (rid, u) of
           Some p \<Rightarrow> if pos_side p = side then share_of (pos_amount p) pool d else 0
         | None \<Rightarrow> 0" for e rid side pool d
proof unfold_locales
  fix u s s'
  assume run: "updown_step e rid side pool d u s = Inr s'"
  show "credited u (case b_positions (s_book s) (rid, u) of
           Some p \<Rightarrow> if pos_side p = side then share_of (pos_amount p) pool d else 0 | None \<Rightarrow> 0) s s'"
  proof (cases "b_positions (s_book s) (rid, u)")
    case None
    with run show ?thesis by (simp add: updown_step_def)
  next
    case (Some p)
    show ?thesis
    proof (cases "pos_side p = side")
      case True
      with run Some obtain x s1 s2 where x: "compute_updown_winner_payout (pos_amount p) pool d = Inr x"
        and s1: "accumulate_pending e u x s = Inr s1" and s2: "update_stats_win u s1 = Inr s2"
        and s': "s' = persist_user_outcome rid 0 u (side_code (pos_side p)) 0 (pos_amount p) x Win s2"
        by (auto simp: updown_step_def and_then_Inr)
      have "credited u (x + 0) s s2" by (rule credited_trans0[OF accumulate_credited[OF s1] stats_credited(1)[OF s2]])
      with True Some winner_payout_Inr[OF x] show ?thesis by (simp add: s' credited_persist)
    next
      case False
      with run Some show ?thesis
        by (auto simp: updown_step_def and_then_Inr intro!: credited_persist
            intro: credited_from_emit[OF stats_credited(2)])
    qed
  qed
qed

interpretation precision_winning: crediting_step "pay_winner e rid False" "\<lambda>(w, x). pp_user w" "\<lambda>b (w, x). x" for e rid
proof unfold_locales
  fix c :: "precision_prediction \<times> int" and s s'
  obtain w x where c: "c = (w, x)" by (cases c)
  assume "pay_winner e rid False c s = Inr s'"
  then obtain s1 s2 where s1: "accumulate_pending e (pp_user w) x s = Inr s1" and s2: "update_stats_win (pp_user w) s1 = Inr s2"
    and s': "s' = persist_user_outcome rid 1 (pp_user w) 2 (pp_price w) (pp_amount w) x Win s2"
    by (auto simp: pay_winner_def c and_then_Inr)
  have "credited (pp_user w) (x + 0) s s2" by (rule credited_trans0[OF accumulate_credited[OF s1] stats_credited(1)[OF s2]])
  then show "credited (case c of (w, x) \<Rightarrow> pp_user w) (case c of (w, x) \<Rightarrow> x) s s'" by (simp add: c s' credited_persist)
qed

interpretation losing: crediting_step "note_loser rid sc" snd "\<lambda>b x. 0" for rid sc
  by unfold_locales
     (auto simp: note_loser_def and_then_Inr Let_def split: if_splits prod.splits
       intro!: credited_persist intro: credited_from_emit[OF stats_credited(2)]
         credited_from_emit[OF credited_from_emit[OF stats_credited(2)]])

section \<open>What an UpDown settlement pays\<close>

lemma mset_sort_addresses [simp]: "mset (sort_addresses xs) = mset xs"
  by (simp add: sort_addresses_def)

lemma set_sort_addresses [simp]: "set (sort_addresses xs) = set xs"
  by (metis mset_sort_addresses set_mset_mset)

lemma distinct_sort_addresses [simp]: "distinct (sort_addresses xs) = distinct xs"
  by (simp add: sort_addresses_def)

lemma sort_addresses_Nil [simp]: "sort_addresses xs = [] \<longleftrightarrow> xs = []"
  by (metis mset_sort_addresses mset_zero_iff)

lemma sum_sort_addresses: "sum_list (map f (sort_addresses xs)) = sum_list (map (f :: address \<Rightarrow> int) xs)"
  by (metis mset_map mset_sort_addresses sum_mset_sum_list)

lemma sum_list_if_one: "distinct us \<Longrightarrow> sum_list (map f (filter (\<lambda>x. x = v) us)) = (if v \<in> set us then f v else (0::int))"
  by (induction us) auto

definition side_winners :: "book \<Rightarrow> nat \<Rightarrow> bet_side \<Rightarrow> address list" where
  "side_winners b rid side =
     filter (\<lambda>u. \<exists>p. b_positions b (rid, u) = Some p \<and> pos_side p = side) (members b rid)"

lemma sum_list_filter_zero: "(\<And>x. x \<in> set xs \<Longrightarrow> \<not> P x \<Longrightarrow> f x = (0::int)) \<Longrightarrow> sum_list (map f xs) = sum_list (map f (filter P xs))"
  by (induction xs) auto

lemma side_pool_winners:
  "side_pool b rid side = sum_list (map (side_stake b rid side) (side_winners b rid side))"
  unfolding side_pool_def side_winners_def
  by (rule sum_list_filter_zero) (auto simp: side_stake_def split: option.splits)

text \<open>What a user of an UpDown round is entitled to, from the round record, the final price and
  what is left for distribution after the fee.\<close>

definition updown_winner :: "round \<Rightarrow> nat \<Rightarrow> bet_side option" where
  "updown_winner r final_price =
     (if is_one_sided_pool (r_pool_up r) (r_pool_down r) then None
      else case classify_price_direction (r_price_start r) final_price of
             PriceUp \<Rightarrow> Some Up | PriceDown \<Rightarrow> Some Down | Unchanged \<Rightarrow> None)"

definition pool_of :: "round \<Rightarrow> bet_side \<Rightarrow> int" where
  "pool_of r side = (case side of Up \<Rightarrow> r_pool_up r | Down \<Rightarrow> r_pool_down r)"

definition updown_due :: "book \<Rightarrow> round \<Rightarrow> nat \<Rightarrow> int \<Rightarrow> address \<Rightarrow> int" where
  "updown_due b r final_price distributable u =
     (case updown_winner r final_price of
        None \<Rightarrow> get_or (position_stake b) 0 (r_id r, u)
      | Some side \<Rightarrow> side_stake b (r_id r) side u * distributable div pool_of r side)"

lemma side_stake_nonneg: "stakes_ok b \<Longrightarrow> 0 \<le> side_stake b rid side u"
  by (auto simp: side_stake_def stakes_ok_def split: option.splits intro: less_imp_le)

lemma position_stake_nonneg: "stakes_ok b \<Longrightarrow> 0 \<le> get_or (position_stake b) 0 k"
  by (cases k) (auto simp: position_stake_def get_or_def stakes_ok_def split: option.splits intro: less_imp_le)

lemma side_pool_nonneg: "stakes_ok b \<Longrightarrow> 0 \<le> side_pool b rid side"
  unfolding side_pool_def by (intro sum_list_nonneg) (auto simp: side_stake_nonneg)

lemma record_winnings_Inr:
  assumes run: "record_winnings_indexed e rid us side W L s = Inr (fee, s')"
    and m: "money_ok (s_money s)" and f: "fee_ok s" and st: "stakes_ok (s_book s)"
    and d: "distinct us" "set us = set (members (s_book s) rid)" "distinct (members (s_book s) rid)"
    and W: "W = side_pool (s_book s) rid side" "0 < W" and L: "0 \<le> L"
  shows "0 \<le> fee" "s_book s' = s_book s" "money_ok (s_money s')" "s_config s' = s_config s"
    "k_balance (s_money s') = k_balance (s_money s)" "fee \<le> W + L"
    "\<forall>v. pending_of s' v = pending_of s v + (if v \<in> set us then side_stake (s_book s) rid side v * (W + L - fee) div W else 0)"
    "protocol_funds s' = protocol_funds s + fee"
    "held s' \<le> held s + (W + L)" "held s + (W + L) < held s' + int (length (side_winners (s_book s) rid side))"
proof -
  let ?b = "s_book s"
  from run W(2) obtain dw dl s1 where
    fee: "apply_protocol_fee_updown rid W L s = Inr ((dw, dl, fee), s1)" and
    loop: "fold_res (updown_step e rid side W (dw + dl)) us s1 = Inr s'"
    by (auto simp: record_winnings_indexed_def and_then_Inr payout_add_Inr split: prod.splits)
  have W0: "0 \<le> W" using W(2) by simp
  note a = apply_fee_updown_Inr[OF fee m f W0 L]
  have D: "dw + dl = W + L - fee" using a(2) by simp
  have D0: "0 \<le> dw + dl" using a(3,4) by simp
  have same: "k_pending (s_money s1) = k_pending (s_money s) \<and> k_balance (s_money s1) = k_balance (s_money s) \<and>
      protocol_funds s1 = protocol_funds s + fee"
  proof (cases "0 < fee")
    case True
    with fee have "collect_protocol_fee rid fee (c_fee_bps (s_config s)) (read_fee_model s) s = Inr s1"
      by (auto simp: apply_protocol_fee_updown_def and_then_Inr Let_def split: prod.splits)
    from collect_protocol_fee_Inr[OF this m] collect_protocol_fee_funds[OF this m] a(5) show ?thesis by simp
  next
    case False
    with fee a(5) show ?thesis by (auto simp: apply_protocol_fee_updown_def and_then_Inr Let_def split: prod.splits)
  qed
  note fr = winning.loop_frame[OF loop]
  have pays: "(case b_positions ?b (rid, v) of Some p \<Rightarrow> if pos_side p = side then share_of (pos_amount p) W (dw + dl) else 0 | None \<Rightarrow> 0)
      = side_stake ?b rid side v * (dw + dl) div W" for v
  proof (cases "b_positions ?b (rid, v)")
    case (Some p)
    have "0 \<le> pos_amount p * (dw + dl)" using st Some D0 unfolding stakes_ok_def by (intro mult_nonneg_nonneg) (blast intro: less_imp_le)+
    then show ?thesis using Some W(2) by (simp add: side_stake_def share_of_def sdiv_nonneg)
  qed (simp add: side_stake_def)
  have pays': "(\<lambda>v. case b_positions ?b (rid, v) of Some p \<Rightarrow> if pos_side p = side then share_of (pos_amount p) W (dw + dl) else 0 | None \<Rightarrow> 0)
      = (\<lambda>v. side_stake ?b rid side v * (dw + dl) div W)" by (rule ext) (rule pays)
  have nn: "0 \<le> side_stake ?b rid side v * (dw + dl) div W" for v
    using side_stake_nonneg[OF st] D0 W(2) by (simp add: pos_imp_zdiv_nonneg_iff)
  have b1: "s_book s1 = ?b" using a(8) .
  have lp: "held s' = held s1 + sum_list (map (\<lambda>v. side_stake ?b rid side v * (dw + dl) div W) us) \<and> money_ok (s_money s')"
    using winning.loop_pays[OF loop a(7), unfolded b1 pays] nn by blast
  have perm: "sum_list (map g us) = sum_list (map g (members ?b rid))" for g :: "address \<Rightarrow> int"
    using d by (metis mset_map set_eq_iff_mset_eq_distinct sum_mset_sum_list)
  let ?ws = "side_winners ?b rid side"
  let ?ss = "map (side_stake ?b rid side) ?ws"
  have ssum: "sum_list ?ss = W" using side_pool_winners[of ?b rid side] W(1) by simp
  have "sum_list (map (\<lambda>v. side_stake ?b rid side v * (dw + dl) div W) (members ?b rid))
      = sum_list (map (\<lambda>v. side_stake ?b rid side v * (dw + dl) div W) ?ws)"
    unfolding side_winners_def
    by (rule sum_list_filter_zero) (auto simp: side_stake_def split: option.splits)
  also have "\<dots> = sum_list (map (\<lambda>x. x * (dw + dl) div W) ?ss)" by (simp add: comp_def)
  finally have paid: "held s' = held s1 + sum_list (map (\<lambda>x. x * (dw + dl) div W) ?ss)" using lp perm by simp
  note sh = protocol_fee.shares_within_pot[OF W(2) L fee_ok_bps[OF f] a(1) ssum]
  show "held s' \<le> held s + (W + L)" "held s + (W + L) < held s' + int (length ?ws)"
    using sh paid a(6) by simp_all
  show "0 \<le> fee" "s_book s' = ?b" "money_ok (s_money s')" "s_config s' = s_config s"
    "k_balance (s_money s') = k_balance (s_money s)"
    using a(5,9) fr b1 lp same by simp_all
  show "fee \<le> W + L" using a(2-4) by simp
  show "protocol_funds s' = protocol_funds s + fee" using fr same by (simp add: protocol_funds_def)
  show "\<forall>v. pending_of s' v = pending_of s v + (if v \<in> set us then side_stake ?b rid side v * (W + L - fee) div W else 0)"
    using winning.loop_pending[OF loop] b1 pays' sum_list_if_one[OF d(1)] D same by (simp add: pending_of_def)
qed

lemma record_refunds_Inr:
  assumes run: "record_refunds_indexed e rid mode us s = Inr s'"
    and m: "money_ok (s_money s)" and st: "stakes_ok (s_book s)"
    and d: "distinct us" "set us = set (members (s_book s) rid)" "distinct (members (s_book s) rid)"
  shows "s_book s' = s_book s" "money_ok (s_money s')" "s_config s' = s_config s"
    "k_balance (s_money s') = k_balance (s_money s)"
    "\<forall>v. pending_of s' v = pending_of s v + (if v \<in> set us then get_or (position_stake (s_book s)) 0 (rid, v) else 0)"
    "protocol_funds s' = protocol_funds s"
    "held s' = held s + sum_list (map (\<lambda>u. get_or (position_stake (s_book s)) 0 (rid, u)) (members (s_book s) rid))"
proof -
  note loop = run[unfolded record_refunds_indexed_def]
  note fr = refunding.loop_frame[OF loop]
  have lp: "held s' = held s + sum_list (map (\<lambda>u. get_or (position_stake (s_book s)) 0 (rid, u)) us) \<and> money_ok (s_money s')"
    by (rule refunding.loop_pays[OF loop m]) (simp add: position_stake_nonneg[OF st])
  have "mset us = mset (members (s_book s) rid)" using d by (simp add: set_eq_iff_mset_eq_distinct)
  then have perm: "sum_list (map g us) = sum_list (map g (members (s_book s) rid))" for g :: "address \<Rightarrow> int"
    by (metis mset_map sum_mset_sum_list)
  show "s_book s' = s_book s" "money_ok (s_money s')" "s_config s' = s_config s"
    "k_balance (s_money s') = k_balance (s_money s)" "protocol_funds s' = protocol_funds s"
    "held s' = held s + sum_list (map (\<lambda>u. get_or (position_stake (s_book s)) 0 (rid, u)) (members (s_book s) rid))"
    using fr lp perm by (simp_all add: protocol_funds_def)
  show "\<forall>v. pending_of s' v = pending_of s v + (if v \<in> set us then get_or (position_stake (s_book s)) 0 (rid, v) else 0)"
    using refunding.loop_pending[OF loop] sum_list_if_one[OF d(1)] by simp
qed

text \<open>The refinement of the UpDown resolver to \<open>updown_due\<close>: every participant gets exactly what is
  due, the fee goes to treasury and fund, and less than one unit per winner stays behind.\<close>

lemma resolve_updown_Inr:
  assumes run: "resolve_updown_mode e r fp s = Inr ((one_sided, fee), s')"
    and m: "money_ok (s_money s)" and f: "fee_ok s" and st: "stakes_ok (s_book s)"
    and ok: "round_ok (s_book s) r" and mode: "r_mode r = UpDown"
  shows "s_book s' = s_book s" "money_ok (s_money s')" "s_config s' = s_config s"
    "k_balance (s_money s') = k_balance (s_money s)" "0 \<le> fee" "fee \<le> r_pool_up r + r_pool_down r"
    "protocol_funds s' = protocol_funds s + fee"
    "\<forall>v. pending_of s' v = pending_of s v + updown_due (s_book s) r fp (r_pool_up r + r_pool_down r - fee) v"
    "held s' \<le> held s + (r_pool_up r + r_pool_down r)"
    "updown_winner r fp = None \<Longrightarrow> held s' = held s + (r_pool_up r + r_pool_down r) \<and> fee = 0"
    "updown_winner r fp = Some side \<Longrightarrow>
       held s + (r_pool_up r + r_pool_down r) < held s' + int (length (side_winners (s_book s) (r_id r) side)) \<or>
       members (s_book s) (r_id r) = []"
proof -
  let ?b = "s_book s" and ?rid = "r_id r"
  let ?us = "sort_addresses (members ?b ?rid)"
  have r: "distinct (members ?b ?rid)" "\<forall>u. u \<in> set (members ?b ?rid) \<longleftrightarrow> b_positions ?b (?rid, u) \<noteq> None"
    "r_pool_up r = side_pool ?b ?rid Up" "r_pool_down r = side_pool ?b ?rid Down"
    using ok mode by (simp_all add: round_ok_def)
  have out: "v \<notin> set (members ?b ?rid) \<Longrightarrow> get_or (position_stake ?b) 0 (?rid, v) = 0 \<and> side_stake ?b ?rid sd v = 0" for v sd
    using r(2) by (auto simp: position_stake_def get_or_def side_stake_def split: option.splits)
  have pools: "0 \<le> r_pool_up r" "0 \<le> r_pool_down r" using side_pool_nonneg[OF st] r(3,4) by simp_all
  have total: "r_pool_up r + r_pool_down r = sum_list (map (\<lambda>u. get_or (position_stake ?b) 0 (?rid, u)) (members ?b ?rid))"
    using side_pool_split[of ?b ?rid] r(3,4) by simp
  have d: "distinct ?us" "set ?us = set (members ?b ?rid)" using r(1) by simp_all
  let ?goal = "s_book s' = ?b \<and> money_ok (s_money s') \<and> s_config s' = s_config s \<and>
    k_balance (s_money s') = k_balance (s_money s) \<and> 0 \<le> fee \<and> fee \<le> r_pool_up r + r_pool_down r \<and>
    protocol_funds s' = protocol_funds s + fee \<and>
    (\<forall>v. pending_of s' v = pending_of s v + updown_due ?b r fp (r_pool_up r + r_pool_down r - fee) v) \<and>
    held s' \<le> held s + (r_pool_up r + r_pool_down r) \<and>
    (updown_winner r fp = None \<longrightarrow> held s' = held s + (r_pool_up r + r_pool_down r) \<and> fee = 0) \<and>
    (\<forall>side. updown_winner r fp = Some side \<longrightarrow>
       held s + (r_pool_up r + r_pool_down r) < held s' + int (length (side_winners ?b ?rid side)) \<or> members ?b ?rid = [])"
  have refund: ?goal if "record_refunds_indexed e ?rid 0 ?us s = Inr t" "s_money s' = s_money t" "s_book s' = s_book t"
      "s_config s' = s_config t" "fee = 0" "updown_winner r fp = None" for t
  proof -
    note a = record_refunds_Inr[OF that(1) m st d r(1)]
    have "held s' = held t" "protocol_funds s' = protocol_funds t" "\<forall>v. pending_of s' v = pending_of t v"
      using that(2) by (simp_all add: held_def protocol_funds_def pending_of_def)
    then show ?thesis using a that total pools out by (auto simp: updown_due_def)
  qed
  have empty: ?goal if "s' = s" "fee = 0" "members ?b ?rid = []"
  proof -
    have "updown_due ?b r fp x v = 0" for v x
      using out[of v] that(3) by (simp add: updown_due_def split: option.split)
    then show ?thesis using that m total pools by simp
  qed
  have win: ?goal if rec: "record_winnings_indexed e ?rid ?us side (pool_of r side) L s = Inr (fee, s')"
      and side: "updown_winner r fp = Some side" and L: "pool_of r side + L = r_pool_up r + r_pool_down r" "0 \<le> L"
      and pos: "0 < pool_of r side" for side L
  proof -
    have W: "pool_of r side = side_pool ?b ?rid side" using r(3,4) by (cases side) (simp_all add: pool_of_def)
    note a = record_winnings_Inr[OF rec m f st d r(1) W pos L(2)]
    have "\<forall>v. pending_of s' v = pending_of s v + updown_due ?b r fp (r_pool_up r + r_pool_down r - fee) v"
      using a(7) side out L(1) by (auto simp: updown_due_def)
    then show ?thesis using a side L(1) by auto
  qed
  have ?goal
  proof (cases "is_one_sided_pool (r_pool_up r) (r_pool_down r)")
    case True
    then have w: "updown_winner r fp = None" by (simp add: updown_winner_def)
    have "members ?b ?rid \<noteq> []"
      using True r(3,4) by (auto simp: is_one_sided_pool_def side_pool_def)
    with run True obtain t where "record_refunds_indexed e ?rid 0 ?us s = Inr t" "s_money s' = s_money t" "s_book s' = s_book t"
      "s_config s' = s_config t" "fee = 0"
      by (auto simp: resolve_updown_mode_def apply_one_sided_policy_def members_participants and_then_Inr Let_def split: if_splits)
    from refund[OF this w] show ?thesis .
  next
    case two: False
    show ?thesis
    proof (cases "members ?b ?rid = []")
      case True
      with run two have "s' = s" "fee = 0"
        by (auto simp: resolve_updown_mode_def members_participants and_then_Inr Let_def)
      from empty[OF this True] show ?thesis .
    next
      case False
      have both: "0 < r_pool_up r" "0 < r_pool_down r"
      proof -
        obtain u where u: "u \<in> set (members ?b ?rid)" using False by (cases "members ?b ?rid") auto
        then obtain p where p: "b_positions ?b (?rid, u) = Some p" using r(2) by auto
        have "0 < pos_amount p" using st p unfolding stakes_ok_def by blast
        then have "0 < side_stake ?b ?rid (pos_side p) u" using p by (simp add: side_stake_def)
        then have "0 < side_pool ?b ?rid (pos_side p)"
          unfolding side_pool_def using member_le_sum_list[of "side_stake ?b ?rid (pos_side p) u" "map (side_stake ?b ?rid (pos_side p)) (members ?b ?rid)"]
            u side_stake_nonneg[OF st] by fastforce
        then have "r_pool_up r \<noteq> 0 \<or> r_pool_down r \<noteq> 0" using r(3,4) by (cases "pos_side p") auto
        then show "0 < r_pool_up r" "0 < r_pool_down r" using two pools by (auto simp: is_one_sided_pool_def)
      qed
      show ?thesis
      proof (cases "classify_price_direction (r_price_start r) fp")
        case PriceUp
        with run two False have "record_winnings_indexed e ?rid ?us Up (pool_of r Up) (r_pool_down r) s = Inr (fee, s')"
          by (auto simp: resolve_updown_mode_def members_participants and_then_Inr Let_def pool_of_def)
        from win[OF this] both two PriceUp show ?thesis by (simp add: updown_winner_def pool_of_def)
      next
        case PriceDown
        with run two False have "record_winnings_indexed e ?rid ?us Down (pool_of r Down) (r_pool_up r) s = Inr (fee, s')"
          by (auto simp: resolve_updown_mode_def members_participants and_then_Inr Let_def pool_of_def)
        from win[OF this] both two PriceDown show ?thesis by (simp add: updown_winner_def pool_of_def)
      next
        case Unchanged
        with run two False have "record_refunds_indexed e ?rid 0 ?us s = Inr s'" "fee = 0"
          by (auto simp: resolve_updown_mode_def members_participants and_then_Inr Let_def)
        with refund[OF this(1) refl refl refl this(2)] two Unchanged show ?thesis by (simp add: updown_winner_def)
      qed
    qed
  qed
  then show "s_book s' = ?b" "money_ok (s_money s')" "s_config s' = s_config s"
    "k_balance (s_money s') = k_balance (s_money s)" "0 \<le> fee" "fee \<le> r_pool_up r + r_pool_down r"
    "protocol_funds s' = protocol_funds s + fee"
    "\<forall>v. pending_of s' v = pending_of s v + updown_due ?b r fp (r_pool_up r + r_pool_down r - fee) v"
    "held s' \<le> held s + (r_pool_up r + r_pool_down r)"
    "updown_winner r fp = None \<Longrightarrow> held s' = held s + (r_pool_up r + r_pool_down r) \<and> fee = 0"
    "updown_winner r fp = Some side \<Longrightarrow>
       held s + (r_pool_up r + r_pool_down r) < held s' + int (length (side_winners ?b ?rid side)) \<or> members ?b ?rid = []"
    by auto
qed

end
