(* ===== verification/Precision_Payouts.thy ===== *)
theory Precision_Payouts
  imports Payouts
begin

text \<open>
  What the Precision resolver of \<open>Payouts\<close> does: the scan finds exactly the revealed
  predictions nearest to the final price, the deployed split of the pot keeps the
  pot-splitter contract of the pure engine, and a settled round pays out its whole pot.
\<close>

section \<open>The scan\<close>

definition distance :: "nat \<Rightarrow> precision_prediction \<Rightarrow> nat" where
  "distance final_price p = abs_diff (pp_price p) final_price"

definition revealed_in :: "book \<Rightarrow> nat \<Rightarrow> address list \<Rightarrow> precision_prediction list" where
  "revealed_in b rid us = List.map_filter (\<lambda>u. b_predictions b (rid, u)) us"

definition least_distance :: "nat \<Rightarrow> precision_prediction list \<Rightarrow> nat option" where
  "least_distance final_price ps = (if ps = [] then None else Some (Min (distance final_price ` set ps)))"

definition nearest :: "nat \<Rightarrow> precision_prediction list \<Rightarrow> precision_prediction list" where
  "nearest final_price ps = filter (\<lambda>p. Some (distance final_price p) = least_distance final_price ps) ps"

lemma nearest_simps [simp]:
  "least_distance fp [] = None" "nearest fp [] = []"
  "least_distance fp [p] = Some (distance fp p)" "nearest fp [p] = [p]"
  by (simp_all add: least_distance_def nearest_def)

lemma revealed_in_snoc:
  "revealed_in b rid (us @ [u]) = revealed_in b rid us @ (case b_predictions b (rid, u) of None \<Rightarrow> [] | Some p \<Rightarrow> [p])"
  by (induction us) (auto simp: revealed_in_def List.map_filter_def split: option.splits)

lemma set_revealed_in: "set (revealed_in b rid us) = {p. \<exists>u\<in>set us. b_predictions b (rid, u) = Some p}"
  by (auto simp: revealed_in_def List.map_filter_def) force

lemma least_distance_snoc:
  "least_distance fp (ps @ [p]) = Some (case least_distance fp ps of None \<Rightarrow> distance fp p | Some m \<Rightarrow> min m (distance fp p))"
  by (cases "ps = []") (simp_all add: least_distance_def min.commute)

lemma nearest_snoc:
  "nearest fp (ps @ [p]) =
     (case least_distance fp ps of
        None \<Rightarrow> [p]
      | Some m \<Rightarrow> if distance fp p < m then [p] else if distance fp p = m then nearest fp ps @ [p] else nearest fp ps)"
proof (cases "ps = []")
  case True
  then show ?thesis by (simp add: nearest_def least_distance_def)
next
  case False
  define m where "m = Min (distance fp ` set ps)"
  have l: "least_distance fp ps = Some m" using False by (simp add: least_distance_def m_def)
  have ge: "\<forall>q\<in>set ps. m \<le> distance fp q" by (simp add: m_def)
  have lt: "distance fp p < m \<Longrightarrow> filter (\<lambda>q. distance fp q = distance fp p) ps = []"
    using ge by (auto simp: filter_empty_conv)
  show ?thesis
    using lt by (auto simp: nearest_def least_distance_snoc l min_def)
qed

definition is_nearest :: "book \<Rightarrow> nat \<Rightarrow> nat \<Rightarrow> nat option \<Rightarrow> address \<Rightarrow> bool" where
  "is_nearest b rid final_price least u =
     (case b_predictions b (rid, u) of None \<Rightarrow> False | Some p \<Rightarrow> Some (distance final_price p) = least)"

lemma scan_result:
  assumes "fold_res (scan_step s rid fp) us empty_scan = Inr sc"
  shows "sc_winners sc = nearest fp (revealed_in (s_book s) rid us) \<and>
    sc_pot sc = sum_list (map (precision_amount s rid) us) \<and>
    sc_amounts sc = map (precision_amount s rid) us \<and>
    sc_min_diff sc = least_distance fp (revealed_in (s_book s) rid us) \<and>
    length (sc_prices sc) = length us \<and> length (sc_revealed sc) = length us \<and>
    sc_mask sc = map (is_nearest (s_book s) rid fp (least_distance fp (revealed_in (s_book s) rid us))) us"
  using assms
proof (induction us arbitrary: sc rule: rev_induct)
  case Nil
  then show ?case by (auto simp: empty_scan_def revealed_in_def List.map_filter_def nearest_def least_distance_def)
next
  case (snoc u us)
  let ?rv = "revealed_in (s_book s) rid us"
  from snoc.prems obtain t where t: "fold_res (scan_step s rid fp) us empty_scan = Inr t" "scan_step s rid fp u t = Inr sc"
    by (auto simp: fold_res_append and_then_Inr)
  note ih = snoc.IH[OF t(1)]
  have len: "length (sc_mask t) = length us" using ih by simp
  show ?case
  proof (cases "b_predictions (s_book s) (rid, u)")
    case None
    then have rv: "revealed_in (s_book s) rid (us @ [u]) = ?rv" by (simp add: revealed_in_snoc)
    from None t(2) ih show ?thesis
      unfolding rv by (auto simp: scan_step_def and_then_Inr payout_add_Inr Let_def is_nearest_def)
  next
    case (Some p)
    have diff: "ok_or (if pp_price p \<ge> fp then uchecked_sub (pp_price p) fp else uchecked_sub fp (pp_price p)) Overflow = Inr (distance fp p)"
      by (simp add: uchecked_sub_def distance_def abs_diff_def)
    have rv: "revealed_in (s_book s) rid (us @ [u]) = ?rv @ [p]" using Some by (simp add: revealed_in_snoc)
    show ?thesis
    proof (cases "least_distance fp ?rv")
      case None
      then have e: "?rv = []" by (simp add: least_distance_def split: if_splits)
      then have "\<forall>v\<in>set us. b_predictions (s_book s) (rid, v) = None"
        using set_revealed_in[of "s_book s" rid us] by (auto intro: option.exhaust)
      then have far: "\<not> is_nearest (s_book s) rid fp l v" if "v \<in> set us" for l v
        using that by (simp add: is_nearest_def)
      then have mask: "sc_mask t = replicate (length us) False"
        using ih by (auto simp: map_replicate_const[symmetric])
      have new: "map (is_nearest (s_book s) rid fp (Some (distance fp p))) us = replicate (length us) False"
        unfolding map_replicate_const[symmetric]
        using far by (intro map_cong) simp_all
      have me: "is_nearest (s_book s) rid fp (Some (distance fp p)) u" using Some by (simp add: is_nearest_def)
      show ?thesis using t(2) ih None e Some diff mask new me
        by (auto simp: scan_step_def and_then_Inr payout_add_Inr Let_def rv nearest_snoc least_distance_snoc
            list_update_append len)
    next
      case (Some m)
      have ge: "m \<le> distance fp q" if "v \<in> set us" "b_predictions (s_book s) (rid, v) = Some q" for v q
      proof -
        have "q \<in> set ?rv" using that set_revealed_in[of "s_book s" rid us] by blast
        then show ?thesis using Some by (auto simp: least_distance_def split: if_splits)
      qed
      have new: "map (is_nearest (s_book s) rid fp (Some d)) us = replicate (length us) False" if "d < m" for d
        unfolding map_replicate_const[symmetric]
      proof (intro map_cong refl)
        fix v assume "v \<in> set us"
        with ge[OF this] that show "is_nearest (s_book s) rid fp (Some d) v = False"
          by (cases "b_predictions (s_book s) (rid, v)") (auto simp: is_nearest_def not_le)
      qed
      have me: "is_nearest (s_book s) rid fp (Some d) u \<longleftrightarrow> distance fp p = d" for d
        using \<open>b_predictions (s_book s) (rid, u) = Some p\<close> by (simp add: is_nearest_def)
      have pot: "in_i128 (sc_pot t + precision_amount s rid u)"
        using t(2) by (auto simp: scan_step_def and_then_Inr payout_add_Inr Let_def)
      have least: "least_distance fp (?rv @ [p]) = Some (min m (distance fp p))" by (simp add: least_distance_snoc Some)
      note run = t(2)[unfolded scan_step_def Let_def payout_add_def checked_add_def \<open>b_predictions (s_book s) (rid, u) = Some p\<close>]
      consider "distance fp p < m" | "distance fp p = m" | "m < distance fp p" by linarith
      then show ?thesis
      proof cases
        case 1
        then show ?thesis
          using run pot ih Some diff new[OF 1] me least by (simp add: rv nearest_snoc len list_update_append) auto
      next
        case 2
        then show ?thesis
          using run pot ih Some diff me least by (simp add: rv nearest_snoc len list_update_append) auto
      next
        case 3
        then show ?thesis
          using run pot ih Some diff me least by (simp add: rv nearest_snoc len list_update_append) auto
      qed
    qed
  qed
qed

section \<open>The deployed split\<close>

lemma equal_payouts_Inr: "equal_payouts x n a = Inr (ps, fin) \<Longrightarrow> ps = replicate n x \<and> fin = a + int n * x"
  by (induction x n a arbitrary: ps fin rule: equal_payouts.induct)
     (auto simp: and_then_Inr payout_add_Inr algebra_simps)

definition precision_base :: "payout_policy \<Rightarrow> int list \<Rightarrow> int \<Rightarrow> (int list \<times> int) res" where
  "precision_base policy stakes d =
     (case policy of
        Equal \<Rightarrow>
          if stakes \<noteq> [] then
            and_then (or_trap (checked_div d (int (length stakes)))) (\<lambda>x. equal_payouts x (length stakes) 0)
          else Inr ([], 0)
      | StakeWeighted \<Rightarrow>
          and_then (sum_stakes stakes 0) (\<lambda>t.
          if t > 0 then weighted_payouts d t stakes 0 else Inr (replicate (length stakes) 0, 0)))"

lemma calculate_shape:
  assumes "calculate_precision_payouts policy stakes d = Inr ps" "stakes \<noteq> []"
  obtains qs fin where "precision_base policy stakes d = Inr (qs, fin)"
    "ps = (if qs \<noteq> [] then qs[0 := qs ! 0 + (d - fin)] else qs)"
  using assms unfolding calculate_precision_payouts_def precision_base_def[symmetric]
  by (cases "precision_base policy stakes d")
     (auto simp: and_then_Inr ok_or_Inr checked_sub_Some payout_add_Inr split: if_splits)

lemma calculate_precision_Inr:
  assumes run: "calculate_precision_payouts policy stakes d = Inr ps"
    and d: "0 < d" "stakes \<noteq> []" "\<forall>x\<in>set stakes. 0 \<le> x"
  shows "length ps = length stakes" "sum_list ps = d" "\<forall>p\<in>set ps. 0 \<le> p"
proof -
  let ?n = "length stakes"
  obtain qs fin where q: "length qs = ?n" "fin = sum_list qs" "fin \<le> d" "\<forall>x\<in>set qs. 0 \<le> x"
    and ps: "ps = qs[0 := qs ! 0 + (d - fin)]"
  proof (cases policy)
    case Equal
    let ?x = "d sdiv int ?n"
    obtain qs fin where base: "precision_base policy stakes d = Inr (qs, fin)"
      and ps0: "ps = (if qs \<noteq> [] then qs[0 := qs ! 0 + (d - fin)] else qs)"
      by (rule calculate_shape[OF run d(2)])
    have q: "equal_payouts ?x ?n 0 = Inr (qs, fin)"
      using base Equal d(2) by (auto simp: precision_base_def and_then_Inr or_trap_Inr checked_div_Some)
    then have "qs \<noteq> []" using equal_payouts_Inr[OF q] d(2) by simp
    then have ps: "ps = qs[0 := qs ! 0 + (d - fin)]" using ps0 by simp
    have n: "0 < int ?n" using d(2) by simp
    have x: "?x = d div int ?n" using d(1) by (simp add: sdiv_nonneg)
    have "int ?n * (d div int ?n) \<le> d" using n by (metis mult.commute minus_mod_eq_mult_div pos_mod_sign diff_ge_0_iff_ge minus_mult_div_eq_mod)
    moreover have "0 \<le> d div int ?n" using d(1) n by (simp add: pos_imp_zdiv_nonneg_iff)
    ultimately show thesis
      using that[of qs fin] equal_payouts_Inr[OF q] ps x by (simp add: sum_list_replicate)
  next
    case StakeWeighted
    have s0: "0 \<le> sum_list stakes" using d(3) by (intro sum_list_nonneg) auto
    obtain qs fin where base: "precision_base policy stakes d = Inr (qs, fin)"
      and ps: "ps = (if qs \<noteq> [] then qs[0 := qs ! 0 + (d - fin)] else qs)"
      by (rule calculate_shape[OF run d(2)])
    have base': "(if sum_list stakes > 0 then weighted_payouts d (sum_list stakes) stakes 0 else Inr (replicate ?n 0, 0)) = Inr (qs, fin)"
      using base StakeWeighted by (auto simp: precision_base_def and_then_Inr dest!: sum_stakes_Inr)
    show thesis
    proof (cases "0 < sum_list stakes")
      case True
      then have w: "weighted_payouts d (sum_list stakes) stakes 0 = Inr (qs, fin)" using base' by simp
      have qf: "qs = map (\<lambda>x. x * d div sum_list stakes) stakes \<and> fin = 0 + sum_list qs"
        by (rule weighted_payouts_Inr[OF d(1) s0 d(3) w])
      have "sum_list (map (\<lambda>x. x * d div sum_list stakes) stakes) \<le> d" by (rule floor_shares_upper[OF True refl])
      then have "sum_list qs \<le> d" using qf by simp
      moreover have "\<forall>x\<in>set qs. 0 \<le> x" using qf d(1,3) True by (auto simp: pos_imp_zdiv_nonneg_iff)
      moreover have len: "length qs = ?n" using qf by simp
      moreover have "fin = sum_list qs" using qf by simp
      moreover have "ps = qs[0 := qs ! 0 + (d - fin)]"
      proof -
        have "qs \<noteq> []" using len d(2) by auto
        then show ?thesis using ps by simp
      qed
      ultimately show thesis using that[of qs fin] by simp
    next
      case False
      then have "qs = replicate ?n 0" "fin = 0" using base' by simp_all
      then show thesis using that[of qs fin] d(1,2) ps by (simp add: sum_list_replicate)
    qed
  qed
  have ne: "qs \<noteq> []" using q(1) d(2) by auto
  show "length ps = ?n" using q(1) ps by simp
  show "sum_list ps = d" using sum_list_update0[OF ne, of "d - fin"] q(2) ps by simp
  have "0 \<le> qs ! 0" using q(4) ne by (metis length_greater_0_conv nth_mem)
  then show "\<forall>p\<in>set ps. 0 \<le> p"
    using q(3,4) set_update_subset_insert[of qs 0 "qs ! 0 + (d - fin)"] unfolding ps by force
qed

text \<open>Both policies of the deployed split keep the pot-splitter contract of the pure engine.\<close>

interpretation deployed_split: pot_splitter "\<lambda>d stakes. calculate_precision_payouts policy stakes d" for policy
  by unfold_locales (blast dest: calculate_precision_Inr)+

section \<open>What a Precision settlement pays\<close>

definition round_entries :: "book \<Rightarrow> nat \<Rightarrow> precision_prediction list" where
  "round_entries b rid = revealed_in b rid (sort_addresses (members b rid))"

definition precision_pot :: "book \<Rightarrow> nat \<Rightarrow> int" where
  "precision_pot b rid = sum_list (map (\<lambda>u. get_or (precision_stake b) 0 (rid, u)) (members b rid))"

lemma precision_stake_nonneg: "stakes_ok b \<Longrightarrow> 0 \<le> get_or (precision_stake b) 0 k"
  by (cases k) (auto simp: precision_stake_def get_or_def stakes_ok_def split: option.splits intro: less_imp_le)

lemma calculate_split_pos:
  assumes "calculate_protocol_fee_precision bps model pot ws = Inr (d, f)"
    "pred_option (\<lambda>b. b \<le> MAX_PROTOCOL_FEE_BPS) bps" "0 < pot" "0 \<le> ws"
  shows "0 < d"
proof (cases bps)
  case None
  with assms show ?thesis by (simp add: calculate_protocol_fee_precision_def)
next
  case (Some b)
  have less: "x * int b sdiv 10000 < pot" if "0 \<le> x" "x \<le> pot" for x
  proof -
    have "x * int b \<le> pot * 1000" using that assms(2,3) Some by (intro mult_mono) (auto simp: MAX_PROTOCOL_FEE_BPS_def)
    then have "x * int b div 10000 \<le> pot * 1000 div 10000" by (rule zdiv_mono1) simp
    also have "\<dots> < pot" using assms(3) by linarith
    finally show ?thesis using that(1) by (simp add: sdiv_nonneg)
  qed
  show ?thesis
    using assms Some less[of pot] less[of "pot - ws"]
    by (cases model) (auto simp: calculate_protocol_fee_precision_def BPS_DENOMINATOR_def and_then_Inr ok_or_Inr
        checked_sub_Some checked_mul_Some Let_def split: if_splits)
qed

lemma apply_fee_precision_funds:
  assumes "apply_protocol_fee_precision rid pot ws s = Inr ((d, f), s')" "money_ok (s_money s)" "fee_ok s"
    "0 < pot" "0 \<le> ws"
  shows "k_pending (s_money s') = k_pending (s_money s)" "k_balance (s_money s') = k_balance (s_money s)"
    "protocol_funds s' = protocol_funds s + f" "0 < d"
proof -
  from assms(1) have c: "calculate_protocol_fee_precision (c_fee_bps (s_config s)) (read_fee_model s) pot ws = Inr (d, f)"
    and k: "(if f > 0 then collect_protocol_fee rid f (c_fee_bps (s_config s)) (read_fee_model s) s else Inr s) = Inr s'"
    by (auto simp: apply_protocol_fee_precision_def and_then_Inr Let_def)
  have f0: "0 \<le> f" using apply_fee_precision_Inr(3)[OF assms(1-3) less_imp_le[OF assms(4)] assms(5)] .
  have "k_pending (s_money s') = k_pending (s_money s) \<and> k_balance (s_money s') = k_balance (s_money s) \<and>
      protocol_funds s' = protocol_funds s + f"
  proof (cases "0 < f")
    case True
    with k have c: "collect_protocol_fee rid f (c_fee_bps (s_config s)) (read_fee_model s) s = Inr s'" by simp
    show ?thesis using collect_protocol_fee_Inr[OF c assms(2) f0] collect_protocol_fee_funds[OF c assms(2) f0] by simp
  next
    case False
    with k f0 show ?thesis by simp
  qed
  then show "k_pending (s_money s') = k_pending (s_money s)" "k_balance (s_money s') = k_balance (s_money s)"
    "protocol_funds s' = protocol_funds s + f" by blast+
  have "pred_option (\<lambda>b. b \<le> MAX_PROTOCOL_FEE_BPS) (c_fee_bps (s_config s))"
    using assms(3) by (auto simp: fee_ok_def elim!: option.pred_mono_strong)
  then show "0 < d" by (rule calculate_split_pos[OF c _ assms(4,5)])
qed

text \<open>The refinement of the Precision resolver: with nobody revealed everyone gets the stake back,
  otherwise the pot less the fee is split among the nearest predictions, to the last unit.\<close>

definition precision_due :: "payout_policy \<Rightarrow> book \<Rightarrow> nat \<Rightarrow> nat \<Rightarrow> int \<Rightarrow> (address \<Rightarrow> int) \<Rightarrow> bool" where
  "precision_due policy b rid final_price fee due \<longleftrightarrow>
     (let ws = nearest final_price (round_entries b rid) in
      if ws = [] then due = (\<lambda>u. get_or (precision_stake b) 0 (rid, u)) \<and> fee = 0
      else \<exists>ps. calculate_precision_payouts policy (map pp_amount ws) (precision_pot b rid - fee) = Inr ps \<and>
             length ps = length ws \<and> sum_list ps = precision_pot b rid - fee \<and> (\<forall>p\<in>set ps. 0 \<le> p) \<and>
             due = (\<lambda>u. sum_list (map snd (filter (\<lambda>(w, x). pp_user w = u) (zip ws ps)))))"

lemma payout_list_zip: "length ps = length ws \<Longrightarrow>
  map (\<lambda>i. (ws ! i, if i < length ps then ps ! i else 0)) [0..<length ws] = zip ws ps"
  by (rule nth_equalityI) auto

lemma resolve_precision_Inr:
  assumes run: "resolve_precision_mode e rid fp False s = Inr ((fee, pot), s')"
    and m: "money_ok (s_money s)" and f: "fee_ok s" and st: "stakes_ok (s_book s)"
    and ok: "round_ok (s_book s) r" and mode: "r_mode r = Precision" and rid: "rid = r_id r"
  shows "s_book s' = s_book s" "money_ok (s_money s')" "s_config s' = s_config s"
    "k_balance (s_money s') = k_balance (s_money s)" "0 \<le> fee" "pot = precision_pot (s_book s) rid"
    "protocol_funds s' = protocol_funds s + fee" "held s' = held s + precision_pot (s_book s) rid"
    "\<exists>due. precision_due (read_precision_payout_policy s) (s_book s) rid fp fee due \<and>
       (\<forall>v. pending_of s' v = pending_of s v + due v)"
proof -
  let ?b = "s_book s"
  let ?us = "sort_addresses (members ?b rid)" and ?ws = "nearest fp (round_entries ?b rid)"
  have mem: "distinct (members ?b rid)" "\<forall>u. u \<in> set (members ?b rid) \<longleftrightarrow> precision_stake ?b (rid, u) \<noteq> None"
    using ok mode rid by (simp_all add: round_ok_def)
  have du: "distinct ?us" using mem(1) by simp
  have potsum: "sum_list (map (precision_amount s rid) ?us) = precision_pot ?b rid"
    by (simp add: precision_pot_def sum_sort_addresses precision_amount_stake[abs_def])
  have pot0: "0 \<le> precision_pot ?b rid"
    unfolding precision_pot_def using precision_stake_nonneg[OF st] by (intro sum_list_nonneg) auto
  have out: "v \<notin> set (members ?b rid) \<Longrightarrow> get_or (precision_stake ?b) 0 (rid, v) = 0" for v
    using mem(2) by (simp add: get_or_def)
  let ?goal = "s_book s' = ?b \<and> money_ok (s_money s') \<and> s_config s' = s_config s \<and>
    k_balance (s_money s') = k_balance (s_money s) \<and> 0 \<le> fee \<and> pot = precision_pot ?b rid \<and>
    protocol_funds s' = protocol_funds s + fee \<and> held s' = held s + precision_pot ?b rid \<and>
    (\<exists>due. precision_due (read_precision_payout_policy s) ?b rid fp fee due \<and> (\<forall>v. pending_of s' v = pending_of s v + due v))"
  have ?goal
  proof (cases "?us = []")
    case True
    then have e: "members ?b rid = []" by simp
    have "precision_pot ?b rid = 0" "?ws = []"
      using e by (simp_all add: precision_pot_def round_entries_def revealed_in_def List.map_filter_def sort_addresses_def)
    moreover have "s' = s" "fee = 0" "pot = 0"
      using run True by (auto simp: resolve_precision_mode_def members_participants)
    moreover have "get_or (precision_stake ?b) 0 (rid, v) = 0" for v using out e by simp
    ultimately show ?thesis using m by (simp add: precision_due_def)
  next
    case False
    obtain sc where scan: "fold_res (scan_step s rid fp) ?us empty_scan = Inr sc"
      using run False by (auto simp: resolve_precision_mode_def members_participants Let_def and_then_Inr)
    note sc = scan_result[OF scan]
    have sc_eq: "sc_winners sc = ?ws" "sc_pot sc = precision_pot ?b rid"
      using sc potsum by (simp_all add: round_entries_def)
    show ?thesis
    proof (cases "?ws \<noteq> [] \<and> precision_pot ?b rid > 0")
      case True
      from run False scan True sc_eq obtain ws_sum pool ps s1 s2 s3 where
        ws: "sum_stakes (map pp_amount ?ws) 0 = Inr ws_sum" and
        fee: "apply_protocol_fee_precision rid (precision_pot ?b rid) ws_sum s = Inr ((pool, fee), s1)" and
        calc: "calculate_precision_payouts (read_precision_payout_policy s1) (map pp_amount ?ws) pool = Inr ps" and
        pay: "fold_res (pay_winner e rid False) (map (\<lambda>i. (?ws ! i, if i < length ps then ps ! i else 0)) [0..<length ?ws]) s1 = Inr s2" and
        lose: "fold_res (note_loser rid sc) (enumerate 0 ?us) s2 = Inr s'" and pot: "pot = precision_pot ?b rid"
        by (auto simp: resolve_precision_mode_def members_participants Let_def and_then_Inr split: prod.splits)
      have amt: "\<forall>x\<in>set (map pp_amount ?ws). 0 \<le> x"
        using st set_revealed_in[of ?b rid ?us] by (auto simp: nearest_def round_entries_def stakes_ok_def less_imp_le)
      have "0 \<le> sum_list (map pp_amount ?ws)" by (rule sum_list_nonneg) (use amt in blast)
      then have ws0: "0 \<le> ws_sum" using sum_stakes_Inr[OF ws] by simp
      have pot_pos: "0 < precision_pot ?b rid" using True by simp
      note a = apply_fee_precision_Inr[OF fee m f pot0 ws0]
      note b = apply_fee_precision_funds[OF fee m f pot_pos ws0]
      have pol: "read_precision_payout_policy s1 = read_precision_payout_policy s"
        using a(7) by (simp add: read_precision_payout_policy_def)
      have ne: "map pp_amount ?ws \<noteq> []" using True by simp
      note split = calculate_precision_Inr[OF calc b(4) ne amt]
      have len: "length ps = length ?ws" using split(1) by simp
      note pay' = pay[unfolded payout_list_zip[OF len]]
      have nn: "\<forall>x\<in>set (zip ?ws ps). 0 \<le> (case x of (w, y) \<Rightarrow> y)" using split(3) by (auto dest: set_zip_rightD)
      have "map (\<lambda>x. case x of (w, y) \<Rightarrow> y) (zip ?ws ps) = ps" using len by (simp add: case_prod_unfold)
      then have p: "held s2 = held s1 + sum_list ps \<and> money_ok (s_money s2)"
        using precision_winning.loop_pays[OF pay' a(5) nn] by simp
      note fr = precision_winning.loop_frame[OF pay'] and fr2 = losing.loop_frame[OF lose]
      have l: "held s' = held s2 \<and> money_ok (s_money s')"
        using losing.loop_pays[OF lose conjunct2[OF p]] by (simp add: sum_list_triv)
      have pend: "pending_of s' v = pending_of s v + sum_list (map snd (filter (\<lambda>(w, x). pp_user w = v) (zip ?ws ps)))" for v
      proof -
        have "pending_of s' v = pending_of s2 v" using losing.loop_pending[OF lose, of v] by (simp add: sum_list_triv)
        moreover have "pending_of s1 v = pending_of s v" using b(1) by (simp add: pending_of_def)
        ultimately show ?thesis
          using precision_winning.loop_pending[OF pay', of v] by (simp add: case_prod_unfold)
      qed
      have pool: "pool = precision_pot ?b rid - fee" using a(1) by simp
      have "precision_due (read_precision_payout_policy s) ?b rid fp fee
          (\<lambda>u. sum_list (map snd (filter (\<lambda>(w, x). pp_user w = u) (zip ?ws ps))))"
        unfolding precision_due_def Let_def using True calc split len pol pool by auto
      then show ?thesis
        using a b fr fr2 p l pend pot split(2) pool by (auto simp: protocol_funds_def)
    next
      case no_winner: False
      show ?thesis
      proof (cases "precision_pot ?b rid > 0")
        case True
        then have w: "?ws = []" using no_winner by simp
        from run False scan True w sc_eq have
          loop: "fold_res (\<lambda>(idx, user). refund_entry e rid 0 Refund user (stake_at sc idx)) (enumerate 0 ?us) s = Inr s'"
          and z: "fee = 0" "pot = precision_pot ?b rid"
          by (auto simp: resolve_precision_mode_def members_participants Let_def and_then_Inr)
        have at: "stake_at sc i = get_or (precision_stake ?b) 0 (rid, ?us ! i)" if "i < length ?us" for i
          using sc that by (simp add: stake_at_def precision_amount_stake)
        have pays: "map (\<lambda>(idx, u). max 0 (stake_at sc idx)) (enumerate 0 ?us) = map (\<lambda>u. get_or (precision_stake ?b) 0 (rid, u)) ?us"
          by (rule nth_equalityI) (auto simp: nth_enumerate_eq at precision_stake_nonneg[OF st])
        have nn: "\<forall>x\<in>set (enumerate 0 ?us). 0 \<le> (case x of (idx, u) \<Rightarrow> max 0 (stake_at sc idx))" by auto
        have h: "held s' = held s + precision_pot ?b rid \<and> money_ok (s_money s')"
          using known_refunding.loop_pays[OF loop m nn] pays potsum by (simp add: precision_amount_stake[abs_def])
        note fr = known_refunding.loop_frame[OF loop]
        have pend: "pending_of s' v = pending_of s v + get_or (precision_stake ?b) 0 (rid, v)" for v
        proof -
          have "map (\<lambda>(idx, u). max 0 (stake_at sc idx)) (filter (\<lambda>x. snd x = v) (enumerate 0 ?us))
              = map (\<lambda>x. get_or (precision_stake ?b) 0 (rid, snd x)) (filter (\<lambda>x. snd x = v) (enumerate 0 ?us))"
            by (rule map_cong) (auto simp: in_set_enumerate_eq at precision_stake_nonneg[OF st])
          also have "\<dots> = map (\<lambda>u. get_or (precision_stake ?b) 0 (rid, u)) (filter (\<lambda>u. u = v) (map snd (enumerate 0 ?us)))"
            by (simp only: filter_map map_map comp_def)
          finally show ?thesis
            using known_refunding.loop_pending[OF loop, of v] sum_list_if_one[OF du] out[of v] by simp
        qed
        have "precision_due (read_precision_payout_policy s) ?b rid fp fee (\<lambda>u. get_or (precision_stake ?b) 0 (rid, u))"
          using w z by (simp add: precision_due_def)
        then show ?thesis using h fr pend z by (auto simp: protocol_funds_def)
      next
        case zero: False
        then have p0: "precision_pot ?b rid = 0" using pot0 by simp
        have "\<exists>u. u \<in> set (members ?b rid)" using False by (cases "members ?b rid") auto
        then obtain u where u: "u \<in> set (members ?b rid)" by blast
        then obtain x where x: "precision_stake ?b (rid, u) = Some x" using mem(2) by auto
        have "0 < x" using st x by (auto simp: precision_stake_def stakes_ok_def split: option.splits)
        then have "0 < get_or (precision_stake ?b) 0 (rid, u)" using x by (simp add: get_or_def)
        moreover have "get_or (precision_stake ?b) 0 (rid, u) \<le> precision_pot ?b rid"
          unfolding precision_pot_def using u precision_stake_nonneg[OF st]
          by (intro member_le_sum_list) auto
        ultimately show ?thesis using p0 by simp
      qed
    qed
  qed
  then show "s_book s' = ?b" "money_ok (s_money s')" "s_config s' = s_config s"
    "k_balance (s_money s') = k_balance (s_money s)" "0 \<le> fee" "pot = precision_pot ?b rid"
    "protocol_funds s' = protocol_funds s + fee" "held s' = held s + precision_pot ?b rid"
    "\<exists>due. precision_due (read_precision_payout_policy s) ?b rid fp fee due \<and>
       (\<forall>v. pending_of s' v = pending_of s v + due v)" by blast+
qed

end
