(* ===== verification/Settlement.thy ===== *)
theory Settlement
  imports Precision_Payouts
begin

text \<open>
  The life of a round after betting, as \<open>contracts/src/settlement.rs\<close> has it: the settlement
  with a price, its fallback for too few participants, the dispute window with void and
  finalize, the cancellation with insurance coverage, the archive with its retention, and
  the claims.  Reads of the legacy maps are left out, as the feature is off by default; the
  keys the code removes twice are removed once.
\<close>

section \<open>The archive\<close>

definition status_code :: "archive_status \<Rightarrow> nat" where
  "status_code st = (case st of Resolved \<Rightarrow> 0 | Cancelled \<Rightarrow> 1 | FallbackRefund \<Rightarrow> 2 | Voided \<Rightarrow> 3)"

definition upd_history :: "(history \<Rightarrow> history) \<Rightarrow> store \<Rightarrow> store" where
  "upd_history f s = s\<lparr>s_history := f (s_history s)\<rparr>"

definition index_round :: "nat \<Rightarrow> address \<Rightarrow> store \<Rightarrow> store" where
  "index_round rid user =
     upd_history (\<lambda>h. h\<lparr>h_user_rounds := (h_user_rounds h)(user \<mapsto> get_or (h_user_rounds h) [] user @ [rid])\<rparr>)"

definition archived_pot :: "store \<Rightarrow> round \<Rightarrow> int" where
  "archived_pot s r =
     (case r_mode r of
        UpDown \<Rightarrow> total_pot_updown (r_pool_up r) (r_pool_down r)
      | Precision \<Rightarrow>
          fold (\<lambda>user pot. unwrap_or (checked_add pot (precision_amount s (r_id r) user)) pot)
            (participants_of s (r_id r)) 0)"

text \<open>The prune loop: every pass that finds an oldest entry drops two.\<close>

function prune_archive :: "nat \<Rightarrow> nat list \<Rightarrow> store \<Rightarrow> nat list \<times> store" where
  "prune_archive limit [] s = ([], s)"
| "prune_archive limit (oldest # rest) s =
     (if length (oldest # rest) > limit then
        prune_archive limit (drop 1 rest)
          (emit (''archive'', ''pruned'') [VNat oldest, VNat limit]
             (upd_history (\<lambda>h. h\<lparr>h_archived := (h_archived h)(oldest := None),
                                h_cancelled := (h_cancelled h)(oldest := None)\<rparr>) s))
      else (oldest # rest, s))"
  by pat_completeness auto
termination by (relation "measure (\<lambda>(_, recent, _). length recent)") auto

definition archive_round ::
  "env \<Rightarrow> round \<Rightarrow> archive_status \<Rightarrow> nat \<Rightarrow> address list \<Rightarrow> int \<Rightarrow> nat option \<Rightarrow> store \<Rightarrow> store" where
  "archive_round e r status final_price participants fee_amount confidence s =
     (let summary = \<lparr>ar_round_id = r_id r, ar_price_start = r_price_start r, ar_price_final = final_price,
                     ar_mode = r_mode r, ar_status = status, ar_pool_up = r_pool_up r, ar_pool_down = r_pool_down r,
                     ar_participant_count = length participants, ar_settled_at = e_ledger e\<rparr>;
          s1 = fold (index_round (r_id r)) participants s;
          s2 = upd_history (\<lambda>h. h\<lparr>h_archived := (h_archived h)(r_id r \<mapsto> summary)\<rparr>) s1;
          s3 = emit (''round'', ''summary'')
                 [VNat (r_id r), VNat (status_code status), VNat (mode_code (r_mode r)), VNat final_price,
                  VNat (length participants), VInt (archived_pot s2 r), VInt fee_amount, VNat (e_ledger e),
                  VNat (unwrap_or confidence 0), VNat (fee_model_code (read_fee_model s2))] s2;
          recent = unwrap_or (h_recent (s_history s3)) [] @ [r_id r];
          limit = unwrap_or (c_archive_retention (s_config s3)) DEFAULT_ARCHIVE_RETENTION;
          (recent', s4) = prune_archive limit recent s3
      in upd_history (\<lambda>h. h\<lparr>h_recent := Some recent'\<rparr>) s4)"

section \<open>Settling with a price\<close>

definition clear_dispute_round_storage :: "nat \<Rightarrow> address list \<Rightarrow> store \<Rightarrow> store" where
  "clear_dispute_round_storage rid participants s =
     remove_participants rid (fold (clear_user_positions rid) participants s)"

definition write_pending_dispute :: "pending_dispute \<Rightarrow> store \<Rightarrow> store" where
  "write_pending_dispute pd = upd_book (\<lambda>b. b\<lparr>b_disputes := (b_disputes b)(r_id (pd_round pd) \<mapsto> pd)\<rparr>)"

definition remove_pending_dispute :: "nat \<Rightarrow> store \<Rightarrow> store" where
  "remove_pending_dispute rid = upd_book (\<lambda>b. b\<lparr>b_disputes := (b_disputes b)(rid := None)\<rparr>)"

definition confidence_value :: "nat option \<Rightarrow> ev_value" where
  "confidence_value c = (case c of None \<Rightarrow> VNone | Some x \<Rightarrow> VNat x)"

definition complete_settlement ::
  "env \<Rightarrow> round \<Rightarrow> nat \<Rightarrow> nat option \<Rightarrow> store \<Rightarrow> ((int \<times> nat) \<times> store) res" where
  "complete_settlement e r final_price confidence s =
     and_then
       (case r_mode r of
          UpDown \<Rightarrow>
            and_then (resolve_updown_mode e r final_price s) (\<lambda>((one_sided, fee), s1).
            Inr (fee, if one_sided
                      then emit (''pool'', ''onesided'') [VNat (r_id r), VInt (r_pool_up r), VInt (r_pool_down r)] s1
                      else s1))
        | Precision \<Rightarrow>
            and_then (resolve_precision_mode e (r_id r) final_price False s) (\<lambda>((fee, pot), s1). Inr (fee, s1)))
     (\<lambda>(fee_amount, s1).
     let participants = participants_of s1 (r_id r);
         s2 = archive_round e r Resolved final_price participants fee_amount confidence s1;
         s3 = remove_active_round (clear_dispute_round_storage (r_id r) participants s2);
         policy = (if r_mode r = Precision then unwrap_or (c_payout_policy (s_config s3)) 0 else 0)
     in Inr ((fee_amount, length participants),
             emit (''round'', ''resolved'')
               [VNat (r_id r), VNat final_price, VNat (mode_code (r_mode r)), confidence_value confidence, VNat policy] s3))"

definition stage_or_complete :: "env \<Rightarrow> round \<Rightarrow> nat \<Rightarrow> nat option \<Rightarrow> store \<Rightarrow> store res" where
  "stage_or_complete e r final_price confidence s =
     (if get_dispute_ledgers s > 0 then
        and_then (ok_or (uchecked_add u32_max (e_ledger e) (get_dispute_ledgers s)) Overflow) (\<lambda>deadline.
        let s1 = write_pending_dispute
                   \<lparr>pd_round = r, pd_final_price = final_price, pd_confidence = confidence,
                    pd_resolved_at = e_ledger e, pd_deadline = deadline\<rparr> s
        in Inr (emit (''round'', ''pending'') [VNat (r_id r), VNat final_price, VNat (e_ledger e), VNat deadline]
                  (remove_active_round s1)))
      else and_then (complete_settlement e r final_price confidence s) (\<lambda>(_, s1). Inr s1))"

definition settle_round_with_price :: "env \<Rightarrow> round \<Rightarrow> nat \<Rightarrow> nat option \<Rightarrow> store \<Rightarrow> store res" where
  "settle_round_with_price e r final_price confidence s =
     (let participants = participants_of s (r_id r);
          count = length participants
      in case c_min_participants (s_config s) of
           Some least \<Rightarrow>
             if count < least then
               and_then (refund_under_threshold e r participants
                           (archive_round e r FallbackRefund final_price participants 0 confidence s)) (\<lambda>s1.
               Inr (emit (''round'', ''fallback'') [VNat (r_id r), VNat count, VNat least] s1))
             else stage_or_complete e r final_price confidence s
         | None \<Rightarrow> stage_or_complete e r final_price confidence s)"

section \<open>The dispute window\<close>

definition void_refund :: "env \<Rightarrow> round \<Rightarrow> address \<Rightarrow> int \<times> store \<Rightarrow> (int \<times> store) res" where
  "void_refund e r user = (\<lambda>(total_refund, s).
     case r_mode r of
       UpDown \<Rightarrow>
         (case b_positions (s_book s) (r_id r, user) of
            None \<Rightarrow> Inr (total_refund, s)
          | Some p \<Rightarrow>
              and_then (payout_add total_refund (pos_amount p)) (\<lambda>total.
              and_then (refund_position e (r_id r) 0 Void user s) (\<lambda>s1. Inr (total, s1))))
     | Precision \<Rightarrow>
         (let stake = precision_amount s (r_id r) user;
              price = (case b_predictions (s_book s) (r_id r, user) of Some p \<Rightarrow> pp_price p | None \<Rightarrow> 0)
          in if stake > 0 then
               and_then (payout_add total_refund stake) (\<lambda>total.
               and_then (refund_entry e (r_id r) price Void user stake s) (\<lambda>s1. Inr (total, s1)))
             else Inr (total_refund, s)))"

definition void_round :: "env \<Rightarrow> nat \<Rightarrow> store \<Rightarrow> store res" where
  "void_round e rid s =
     and_then (require_supported_schema s) (\<lambda>_.
     and_then (ensure_not_paused s) (\<lambda>_.
     and_then (ok_or (b_disputes (s_book s) rid) RoundNotCancellable) (\<lambda>pd.
     if e_ledger e \<ge> pd_deadline pd then Inl (Fail RoundNotCancellable)
     else
       let participants = participants_of s rid in
       and_then (fold_res (void_refund e (pd_round pd)) participants (0, s)) (\<lambda>(total_refund, s1).
       let s2 = archive_round e (pd_round pd) Voided (pd_final_price pd) participants 0 (pd_confidence pd) s1;
           s3 = remove_pending_dispute rid (clear_dispute_round_storage rid participants s2)
       in Inr (emit (''round'', ''voided'') [VNat rid, VNat (length participants), VInt total_refund] s3)))))"

definition finalize_round :: "env \<Rightarrow> nat \<Rightarrow> store \<Rightarrow> store res" where
  "finalize_round e rid s =
     and_then (require_supported_schema s) (\<lambda>_.
     and_then (ensure_not_paused s) (\<lambda>_.
     and_then (ok_or (b_disputes (s_book s) rid) NoActiveRound) (\<lambda>pd.
     if e_ledger e < pd_deadline pd then Inl (Fail RoundNotEnded)
     else
       and_then (complete_settlement e (pd_round pd) (pd_final_price pd) (pd_confidence pd) s) (\<lambda>((fee, count), s1).
       Inr (emit (''round'', ''finalized'') [VNat rid, VNat (pd_final_price pd), VNat count, VInt fee]
              (remove_pending_dispute rid s1))))))"

section \<open>Cancellation\<close>

text \<open>The refund loop of \<open>cancel_round\<close> collects the stakes it refunds; the position of a stake in
  the vector is taken as the participant's index by the coverage loop.\<close>

definition cancel_refund :: "env \<Rightarrow> round \<Rightarrow> address \<Rightarrow> (int list \<times> int) \<times> store \<Rightarrow> ((int list \<times> int) \<times> store) res" where
  "cancel_refund e r user = (\<lambda>((stakes, total), s).
     case r_mode r of
       UpDown \<Rightarrow>
         (case b_positions (s_book s) (r_id r, user) of
            None \<Rightarrow> Inr ((stakes, total), s)
          | Some p \<Rightarrow>
              and_then (refund_position e (r_id r) 0 Void user s) (\<lambda>s1.
              Inr ((stakes @ [pos_amount p], unwrap_or (checked_add total (pos_amount p)) total), s1)))
     | Precision \<Rightarrow>
         (let amount = precision_amount s (r_id r) user in
          and_then (if amount > 0 then accumulate_pending e user amount s else Inr s) (\<lambda>s1.
          Inr ((stakes @ [amount], unwrap_or (checked_add total amount) total),
               persist_user_outcome (r_id r) 1 user 2 0 amount amount Void s1))))"

definition coverage_total :: "store \<Rightarrow> int list \<Rightarrow> int res" where
  "coverage_total s stakes =
     fold_res (\<lambda>stake total. and_then (calculate_coverage_amount s stake) (\<lambda>cov. payout_add total cov)) stakes 0"

definition cover_participant :: "env \<Rightarrow> int \<Rightarrow> int \<Rightarrow> int list \<Rightarrow> nat \<times> address \<Rightarrow> store \<Rightarrow> store res" where
  "cover_participant e distributed total_stake stakes = (\<lambda>(i, user) s.
     let stake = (if i < length stakes then stakes ! i else 0) in
     and_then (if stake > 0 then
                 and_then (ok_or (checked_mul distributed stake) Overflow) (\<lambda>m.
                 ok_or (checked_div m total_stake) Overflow)
               else Inr 0) (\<lambda>coverage.
     if coverage > 0 then accumulate_pending e user coverage s else Inr s))"

definition pay_coverage :: "env \<Rightarrow> nat \<Rightarrow> bool \<Rightarrow> address list \<Rightarrow> int list \<Rightarrow> int \<Rightarrow> store \<Rightarrow> store res" where
  "pay_coverage e rid eligible participants stakes total_stake s =
     (if eligible \<and> stakes \<noteq> [] then
        and_then (coverage_total s stakes) (\<lambda>total_coverage.
        if total_coverage > 0 then
          and_then (deduct_insurance_coverage rid total_coverage s) (\<lambda>(distributed, s1).
          if distributed > 0 \<and> total_stake > 0
          then fold_res (cover_participant e distributed total_stake stakes) (enumerate 0 participants) s1
          else Inr s1)
        else Inr s)
      else Inr s)"

definition cancel_round :: "env \<Rightarrow> nat \<Rightarrow> store \<Rightarrow> store res" where
  "cancel_round e reason s =
     and_then (require_supported_schema s) (\<lambda>_.
     and_then (admin_auth e s) (\<lambda>admin.
     and_then (ok_or (b_active (s_book s)) RoundNotCancellable) (\<lambda>r.
     let rid = r_id r; participants = participants_of s rid; eligible = is_coverage_eligible s reason in
     and_then (fold_res (cancel_refund e r) participants (([], 0), s)) (\<lambda>((stakes, total_stake), s1).
     and_then (pay_coverage e rid eligible participants stakes total_stake s1) (\<lambda>s2.
     let s3 = clear_round_storage rid participants s2;
         s4 = archive_round e r Cancelled 0 participants 0 None s3;
         s5 = upd_history (\<lambda>h. h\<lparr>h_cancelled := (h_cancelled h)(rid \<mapsto> True)\<rparr>) (remove_participants rid s4)
     in Inr (remove_active_round s5))))))"

definition is_round_cancelled :: "store \<Rightarrow> nat \<Rightarrow> bool" where
  "is_round_cancelled s rid = unwrap_or (h_cancelled (s_history s) rid) False"

section \<open>Claims\<close>

definition pay_out :: "env \<Rightarrow> address \<Rightarrow> store \<Rightarrow> (int \<times> store) res" where
  "pay_out e user s =
     (let pending = pending_of s user in
      if pending = 0 then Inr (0, s)
      else
        and_then (payout_add (balance s user) pending) (\<lambda>new_balance.
        Inr (pending,
             emit (''claim'', ''winnings'') [VAddr user, VInt pending, VInt (balance s user), VInt new_balance]
               (set_balance user new_balance (remove_pending user s)))))"

definition claim_winnings :: "env \<Rightarrow> address \<Rightarrow> store \<Rightarrow> (int \<times> store) res" where
  "claim_winnings e user s =
     and_then (require_supported_schema s) (\<lambda>_.
     and_then (require_auth e user) (\<lambda>_.
     and_then (ensure_not_paused s) (\<lambda>_.
     pay_out e user s)))"

fun adjacent_equal :: "address list \<Rightarrow> bool" where
  "adjacent_equal (x # y # zs) = (y = x \<or> adjacent_equal (y # zs))"
| "adjacent_equal _ = False"

fun pay_out_all :: "env \<Rightarrow> address list \<Rightarrow> int list \<Rightarrow> store \<Rightarrow> (int list \<times> store) res" where
  "pay_out_all e [] amounts s = Inr (amounts, s)"
| "pay_out_all e (user # users) amounts s =
     and_then (require_auth e user) (\<lambda>_.
     and_then (pay_out e user s) (\<lambda>(x, s1). pay_out_all e users (amounts @ [x]) s1))"

definition claim_many :: "env \<Rightarrow> address list \<Rightarrow> store \<Rightarrow> (int list \<times> store) res" where
  "claim_many e users s =
     and_then (require_supported_schema s) (\<lambda>_.
     and_then (ensure_not_paused s) (\<lambda>_.
     if length users > MAX_CLAIM_BATCH_SIZE then Inl (Fail ClaimBatchTooLarge)
     else if adjacent_equal (sort_addresses users) then Inl (Fail DuplicateClaimAddress)
     else pay_out_all e users [] s))"

section \<open>What the archive touches\<close>

lemma upd_history_fields [simp]:
  "s_book (upd_history f s) = s_book s" "s_money (upd_history f s) = s_money s"
  "s_config (upd_history f s) = s_config s" "s_ins (upd_history f s) = s_ins s"
  "s_orc (upd_history f s) = s_orc s" "s_board (upd_history f s) = s_board s"
  "s_access (upd_history f s) = s_access s" "s_gov (upd_history f s) = s_gov s"
  "s_mint (upd_history f s) = s_mint s" "s_admin (upd_history f s) = s_admin s"
  "s_oracle (upd_history f s) = s_oracle s" "s_mode (upd_history f s) = s_mode s"
  "s_schema (upd_history f s) = s_schema s" "s_history (upd_history f s) = f (s_history s)"
  by (simp_all add: upd_history_def)

definition same_but_history :: "store \<Rightarrow> store \<Rightarrow> bool" where
  "same_but_history s s' \<longleftrightarrow> s_book s' = s_book s \<and> s_money s' = s_money s \<and> s_config s' = s_config s \<and>
     s_ins s' = s_ins s \<and> s_orc s' = s_orc s \<and> s_board s' = s_board s \<and> s_access s' = s_access s \<and>
     s_gov s' = s_gov s \<and> s_mint s' = s_mint s \<and> s_admin s' = s_admin s \<and> s_oracle s' = s_oracle s \<and>
     s_mode s' = s_mode s \<and> s_schema s' = s_schema s"

lemma same_but_history_refl: "same_but_history s s"
  by (simp add: same_but_history_def)

lemma same_but_history_trans: "same_but_history s t \<Longrightarrow> same_but_history t u \<Longrightarrow> same_but_history s u"
  by (simp add: same_but_history_def)

lemma same_but_history_steps [simp]:
  "same_but_history s (upd_history f t) = same_but_history s t"
  "same_but_history s (emit x d t) = same_but_history s t"
  "same_but_history s (index_round rid u t) = same_but_history s t"
  by (simp_all add: same_but_history_def index_round_def)

lemma prune_same: "same_but_history s t \<Longrightarrow> same_but_history s (snd (prune_archive limit recent t))"
  by (induction limit recent t rule: prune_archive.induct) simp_all

lemma index_same: "same_but_history s t \<Longrightarrow> same_but_history s (fold (index_round rid) us t)"
  by (induction us arbitrary: t) simp_all

lemma archive_same: "same_but_history s (archive_round e r st fp us fee c s)"
  by (simp add: archive_round_def Let_def prune_same index_same same_but_history_refl case_prod_unfold)

lemma archive_fields [simp]:
  "s_book (archive_round e r st fp us fee c s) = s_book s"
  "s_money (archive_round e r st fp us fee c s) = s_money s"
  "s_config (archive_round e r st fp us fee c s) = s_config s"
  "s_ins (archive_round e r st fp us fee c s) = s_ins s"
  "s_orc (archive_round e r st fp us fee c s) = s_orc s"
  "s_gov (archive_round e r st fp us fee c s) = s_gov s"
  "s_mint (archive_round e r st fp us fee c s) = s_mint s"
  using archive_same[of s e r st fp us fee c] by (simp_all add: same_but_history_def)

lemma participants_archive [simp]: "participants_of (archive_round e r st fp us fee c s) rid = participants_of s rid"
  by (simp add: participants_of_def)

section \<open>Closing a round takes its stakes out of the book\<close>

definition round_stake :: "book \<Rightarrow> nat \<Rightarrow> int" where
  "round_stake b rid = sum_list (map (user_stake b rid) (members b rid))"

lemma clear_dispute_book:
  "clear_dispute_round_storage rid us s = upd_book (close_book rid us) s"
  by (simp add: clear_dispute_round_storage_def remove_participants_def fold_clear_positions upd_book_def close_book_def)

lemma clear_round_book:
  "clear_round_storage rid us s = upd_book (\<lambda>b. (close_book rid us b)\<lparr>b_active := None\<rparr>) s"
  by (simp add: clear_round_storage_def remove_participants_def remove_active_round_def fold_clear_positions upd_book_def close_book_def)

lemma stake_maps_cong:
  "b_positions b' = b_positions b \<Longrightarrow> b_predictions b' = b_predictions b \<Longrightarrow> b_commitments b' = b_commitments b \<Longrightarrow>
   position_stake b' = position_stake b \<and> precision_stake b' = precision_stake b"
  by (simp add: position_stake_def[abs_def] precision_stake_def[abs_def] cong: option.case_cong)

lemma at_stake_close:
  assumes "book_finite (s_book s)" "distinct (members (s_book s) rid)"
    and "s_book s' = (close_book rid (members (s_book s) rid) (s_book s))\<lparr>b_active := a, b_disputes := d\<rparr>"
  shows "at_stake s' = at_stake s - round_stake (s_book s) rid"
proof -
  let ?t = "fold (clear_user_positions rid) (members (s_book s) rid) s"
  have "position_stake (s_book s') = position_stake (s_book ?t) \<and> precision_stake (s_book s') = precision_stake (s_book ?t)"
    by (rule stake_maps_cong) (simp_all add: assms(3) close_book_def fold_clear_positions)
  then have "at_stake s' = at_stake ?t" by (simp add: at_stake_def)
  then show ?thesis using at_stake_clear[OF assms(1,2), of rid] by (simp add: round_stake_def)
qed

lemma user_stake_mode:
  assumes "round_ok b r"
  shows "r_mode r = UpDown \<Longrightarrow> user_stake b (r_id r) u = get_or (position_stake b) 0 (r_id r, u)"
    "r_mode r = Precision \<Longrightarrow> user_stake b (r_id r) u = get_or (precision_stake b) 0 (r_id r, u)"
  using assms by (simp_all add: round_ok_def user_stake_def precision_stake_def position_stake_def get_or_def)

lemma round_stake_mode:
  assumes "round_ok b r"
  shows "r_mode r = UpDown \<Longrightarrow> round_stake b (r_id r) = r_pool_up r + r_pool_down r"
    "r_mode r = Precision \<Longrightarrow> round_stake b (r_id r) = precision_pot b (r_id r)"
proof -
  assume m: "r_mode r = UpDown"
  then have "round_stake b (r_id r) = sum_list (map (\<lambda>u. get_or (position_stake b) 0 (r_id r, u)) (members b (r_id r)))"
    unfolding round_stake_def by (intro arg_cong[where f = sum_list] map_cong) (simp_all add: user_stake_mode(1)[OF assms])
  then show "round_stake b (r_id r) = r_pool_up r + r_pool_down r"
    using assms m side_pool_split[of b "r_id r"] by (simp add: round_ok_def)
next
  assume "r_mode r = Precision"
  then have "round_stake b (r_id r) = sum_list (map (\<lambda>u. get_or (precision_stake b) 0 (r_id r, u)) (members b (r_id r)))"
    unfolding round_stake_def by (intro arg_cong[where f = sum_list] map_cong) (simp_all add: user_stake_mode(2)[OF assms])
  then show "round_stake b (r_id r) = precision_pot b (r_id r)" by (simp add: precision_pot_def)
qed

lemma user_stake_nonneg: "stakes_ok b \<Longrightarrow> 0 \<le> user_stake b rid u"
  by (simp add: user_stake_def position_stake_nonneg precision_stake_nonneg)

lemma round_stake_nonneg: "stakes_ok b \<Longrightarrow> 0 \<le> round_stake b rid"
  unfolding round_stake_def by (rule sum_list_nonneg) (auto simp: user_stake_nonneg)

lemma user_stake_outside:
  assumes "round_ok b r" "u \<notin> set (members b (r_id r))"
  shows "user_stake b (r_id r) u = 0"
  using assms user_stake_mode[OF assms(1), of u]
  by (cases "r_mode r") (auto simp: round_ok_def position_stake_def get_or_def)

lemma round_ok_distinct: "round_ok b r \<Longrightarrow> distinct (members b (r_id r))"
  by (simp add: round_ok_def)

text \<open>A refund loop ran: every user of the round got exactly the stake, nothing else moved.\<close>

definition refunded :: "nat \<Rightarrow> store \<Rightarrow> store \<Rightarrow> bool" where
  "refunded rid s s' \<longleftrightarrow> s_book s' = s_book s \<and> s_config s' = s_config s \<and> s_ins s' = s_ins s \<and> money_ok (s_money s') \<and>
     k_balance (s_money s') = k_balance (s_money s) \<and> k_treasury (s_money s') = k_treasury (s_money s) \<and>
     k_fund (s_money s') = k_fund (s_money s) \<and>
     (\<forall>v. pending_of s' v = pending_of s v + user_stake (s_book s) rid v) \<and>
     held s' = held s + round_stake (s_book s) rid"

text \<open>Any crediting loop over the members whose steps pay the stakes is such a refund.\<close>

context crediting_step
begin

lemma loop_refunds:
  assumes run: "fold_res step us s = Inr s'" and m: "money_ok (s_money s)" and st: "stakes_ok (s_book s)"
    and ok: "round_ok (s_book s) r" and us: "map who us = members (s_book s) (r_id r)"
    and pays: "\<And>x. x \<in> set us \<Longrightarrow> pays (s_book s) x = user_stake (s_book s) (r_id r) (who x)"
  shows "refunded (r_id r) s s'"
proof -
  let ?b = "s_book s" and ?rid = "r_id r"
  have nn: "\<forall>x\<in>set us. 0 \<le> pays ?b x" using pays user_stake_nonneg[OF st] by simp
  have sum: "sum_list (map (pays ?b) us) = round_stake ?b ?rid"
  proof -
    have "map (pays ?b) us = map (user_stake ?b ?rid) (map who us)" using pays by simp
    then show ?thesis by (simp only: us round_stake_def)
  qed
  have pend: "pending_of s' v = pending_of s v + user_stake ?b ?rid v" for v
  proof -
    have "map (pays ?b) (filter (\<lambda>x. who x = v) us) = map (user_stake ?b ?rid) (filter (\<lambda>u. u = v) (map who us))"
      using pays by (simp add: filter_map comp_def)
    then have "sum_list (map (pays ?b) (filter (\<lambda>x. who x = v) us)) = (if v \<in> set (members ?b ?rid) then user_stake ?b ?rid v else 0)"
      using sum_list_if_one[OF round_ok_distinct[OF ok]] us by simp
    also have "\<dots> = user_stake ?b ?rid v" using user_stake_outside[OF ok] by simp
    finally show ?thesis using loop_pending[OF run, of v] by simp
  qed
  show ?thesis
    using loop_frame[OF run] loop_pays[OF run m nn] sum pend by (simp add: refunded_def)
qed

end

lemma fold_res_pair:
  assumes "\<And>x a s a' s'. step x (a, s) = Inr (a', s') \<Longrightarrow> g x s = Inr s'"
  shows "fold_res step xs (a, s) = Inr (a', s') \<Longrightarrow> fold_res g xs s = Inr s'"
  by (induction xs arbitrary: a s) (auto simp: and_then_Inr dest: assms)

lemma fallback_refunds:
  assumes run: "refund_under_threshold e r (members (s_book s) (r_id r)) s = Inr s'"
    and m: "money_ok (s_money s)" and st: "stakes_ok (s_book s)" and ok: "round_ok (s_book s) r"
  obtains t where "refunded (r_id r) s t" "s' = clear_round_storage (r_id r) (members (s_book s) (r_id r)) t"
proof (cases "r_mode r")
  case UpDown
  with run obtain t where "fold_res (refund_position e (r_id r) 0 Refund) (members (s_book s) (r_id r)) s = Inr t"
    and s': "s' = clear_round_storage (r_id r) (members (s_book s) (r_id r)) t"
    by (auto simp: refund_under_threshold_def clear_round_storage_def and_then_Inr)
  from refunding.loop_refunds[OF this(1) m st ok] user_stake_mode(1)[OF ok UpDown] have "refunded (r_id r) s t" by simp
  then show thesis using that s' by blast
next
  case Precision
  with run obtain t where loop: "fold_res (\<lambda>user t. refund_entry e (r_id r) 0 Refund user (precision_amount t (r_id r) user) t)
      (members (s_book s) (r_id r)) s = Inr t"
    and s': "s' = clear_round_storage (r_id r) (members (s_book s) (r_id r)) t"
    by (auto simp: refund_under_threshold_def clear_round_storage_def and_then_Inr)
  from entry_refunding.loop_refunds[OF loop m st ok] user_stake_mode(2)[OF ok Precision] precision_stake_nonneg[OF st]
  have "refunded (r_id r) s t" by simp
  then show thesis using that s' by blast
qed

lemma void_refunds:
  assumes run: "fold_res (void_refund e r) (members (s_book s) (r_id r)) (0, s) = Inr (refund, s')"
    and m: "money_ok (s_money s)" and st: "stakes_ok (s_book s)" and ok: "round_ok (s_book s) r"
  shows "refunded (r_id r) s s'"
proof (cases "r_mode r")
  case UpDown
  have "fold_res (refund_position e (r_id r) 0 Void) (members (s_book s) (r_id r)) s = Inr s'"
    by (rule fold_res_pair[OF _ run])
       (auto simp: void_refund_def UpDown and_then_Inr refund_position_def split: option.splits)
  from refunding.loop_refunds[OF this m st ok] user_stake_mode(1)[OF ok UpDown] show ?thesis by simp
next
  case Precision
  let ?price = "\<lambda>s u. case b_predictions (s_book s) (r_id r, u) of Some p \<Rightarrow> pp_price p | None \<Rightarrow> 0"
  have "fold_res (\<lambda>u s. refund_entry e (r_id r) (?price s u) Void u (precision_amount s (r_id r) u) s)
      (members (s_book s) (r_id r)) s = Inr s'"
    by (rule fold_res_pair[OF _ run])
       (auto simp: void_refund_def Precision and_then_Inr refund_entry_def Let_def split: if_splits)
  from entry_refunding.loop_refunds[OF this m st ok] user_stake_mode(2)[OF ok Precision] precision_stake_nonneg[OF st]
  show ?thesis by simp
qed

end
