(* ===== verification/Round_Closing.thy ===== *)
theory Round_Closing
  imports Settlement
begin

text \<open>
  What closing a round does to the money and to the book.  Every way a round can end, by a
  settlement, by the refund of too small a round, by a void in the dispute window or by a
  cancellation, is shown to take exactly the round's stakes out of the book, to pay exactly
  what is due, and to leave the invariants of money and book in place.
\<close>

section \<open>The completed settlement\<close>

definition settlement_due :: "payout_policy \<Rightarrow> book \<Rightarrow> round \<Rightarrow> nat \<Rightarrow> int \<Rightarrow> (address \<Rightarrow> int) \<Rightarrow> bool" where
  "settlement_due policy b r final_price fee due \<longleftrightarrow>
     (case r_mode r of
        UpDown \<Rightarrow> due = updown_due b r final_price (r_pool_up r + r_pool_down r - fee)
      | Precision \<Rightarrow> precision_due policy b (r_id r) final_price fee due)"

text \<open>The most that flooring can leave behind: less than one unit per participant, nothing in a
  Precision round.\<close>

definition dust_bound :: "book \<Rightarrow> round \<Rightarrow> int" where
  "dust_bound b r = (case r_mode r of UpDown \<Rightarrow> max 1 (int (length (members b (r_id r)))) | Precision \<Rightarrow> 1)"

lemma resolve_updown_empty:
  assumes "resolve_updown_mode e r fp s = Inr ((one_sided, fee), s')" "members (s_book s) (r_id r) = []"
    "round_ok (s_book s) r" "r_mode r = UpDown"
  shows "s' = s"
proof -
  have "r_pool_up r = 0" "r_pool_down r = 0" using assms(2-4) by (simp_all add: round_ok_def side_pool_def)
  then show ?thesis using assms(1,2)
    by (auto simp: resolve_updown_mode_def members_participants and_then_Inr Let_def is_one_sided_pool_def)
qed

lemma resolve_updown_dust:
  assumes run: "resolve_updown_mode e r fp s = Inr ((one_sided, fee), s')"
    and m: "money_ok (s_money s)" "fee_ok s" "stakes_ok (s_book s)" and ok: "round_ok (s_book s) r" "r_mode r = UpDown"
  shows "held s + round_stake (s_book s) (r_id r) < held s' + dust_bound (s_book s) r"
proof -
  let ?ms = "members (s_book s) (r_id r)"
  have rs: "round_stake (s_book s) (r_id r) = r_pool_up r + r_pool_down r" by (rule round_stake_mode(1)[OF ok])
  have db: "dust_bound (s_book s) r = max 1 (int (length ?ms))" by (simp add: dust_bound_def ok(2))
  show ?thesis
  proof (cases "?ms = []")
    case True
    then have "r_pool_up r = 0" "r_pool_down r = 0" using ok by (simp_all add: round_ok_def side_pool_def)
    then show ?thesis using resolve_updown_empty[OF run True ok] rs db by simp
  next
    case False
    note a = resolve_updown_Inr(10,11)[OF run m ok]
    show ?thesis
    proof (cases "updown_winner r fp")
      case None
      then show ?thesis using a(1) rs db by simp
    next
      case (Some side)
      have "length (side_winners (s_book s) (r_id r) side) \<le> length ?ms" by (simp add: side_winners_def)
      then show ?thesis using a(2)[OF Some] False rs db by linarith
    qed
  qed
qed

lemma complete_settlement_Inr:
  assumes run: "complete_settlement e r fp c s = Inr ((fee, n), s')"
    and m: "money_ok (s_money s)" "fee_ok s" "stakes_ok (s_book s)" and ok: "round_ok (s_book s) r"
  shows "s_book s' = (close_book (r_id r) (members (s_book s) (r_id r)) (s_book s))\<lparr>b_active := None\<rparr>"
    "money_ok (s_money s')" "s_config s' = s_config s" "k_balance (s_money s') = k_balance (s_money s)"
    "0 \<le> fee" "n = length (members (s_book s) (r_id r))" "protocol_funds s' = protocol_funds s + fee"
    "\<exists>due. settlement_due (read_precision_payout_policy s) (s_book s) r fp fee due \<and>
       (\<forall>v. pending_of s' v = pending_of s v + due v)"
    "held s' \<le> held s + round_stake (s_book s) (r_id r)"
    "held s + round_stake (s_book s) (r_id r) < held s' + dust_bound (s_book s) r"
proof -
  let ?b = "s_book s" and ?rid = "r_id r"
  let ?goal = "s_book s' = (close_book ?rid (members ?b ?rid) ?b)\<lparr>b_active := None\<rparr> \<and>
    money_ok (s_money s') \<and> s_config s' = s_config s \<and> k_balance (s_money s') = k_balance (s_money s) \<and>
    0 \<le> fee \<and> n = length (members ?b ?rid) \<and> protocol_funds s' = protocol_funds s + fee \<and>
    (\<exists>due. settlement_due (read_precision_payout_policy s) ?b r fp fee due \<and> (\<forall>v. pending_of s' v = pending_of s v + due v)) \<and>
    held s' \<le> held s + round_stake ?b ?rid \<and> held s + round_stake ?b ?rid < held s' + dust_bound ?b r"
  have finish: ?goal if t: "s_book t = ?b" "money_ok (s_money t)" "s_config t = s_config s"
      "k_balance (s_money t) = k_balance (s_money s)" "0 \<le> fee" "protocol_funds t = protocol_funds s + fee"
      "settlement_due (read_precision_payout_policy s) ?b r fp fee due" "\<forall>v. pending_of t v = pending_of s v + due v"
      "held t \<le> held s + round_stake ?b ?rid" "held s + round_stake ?b ?rid < held t + dust_bound ?b r"
    and book: "s_book s' = (close_book ?rid (members (s_book t) ?rid) (s_book t))\<lparr>b_active := None\<rparr>"
    and same: "s_money s' = s_money t" "s_config s' = s_config t" "n = length (members (s_book t) ?rid)" for t due
  proof -
    have "held s' = held t" "protocol_funds s' = protocol_funds t" "\<forall>v. pending_of s' v = pending_of t v"
      using same(1) by (simp_all add: held_def protocol_funds_def pending_of_def)
    then show ?thesis using t book same by auto
  qed
  have ?goal
  proof (cases "r_mode r")
    case UpDown
    from run UpDown obtain one_sided t where res: "resolve_updown_mode e r fp s = Inr ((one_sided, fee), t)"
      and s': "s_book s' = (close_book ?rid (members (s_book t) ?rid) (s_book t))\<lparr>b_active := None\<rparr>"
        "s_money s' = s_money t" "s_config s' = s_config t" "n = length (members (s_book t) ?rid)"
      by (auto simp: complete_settlement_def and_then_Inr Let_def members_participants clear_dispute_book remove_active_round_def)
    note a = resolve_updown_Inr[OF res m ok UpDown] and d = resolve_updown_dust[OF res m ok UpDown]
    have "settlement_due (read_precision_payout_policy s) ?b r fp fee (updown_due ?b r fp (r_pool_up r + r_pool_down r - fee))"
      by (simp add: settlement_due_def UpDown)
    moreover have "held t \<le> held s + round_stake ?b ?rid" using a(9) round_stake_mode(1)[OF ok UpDown] by simp
    ultimately show ?thesis using finish[OF a(1-5,7) _ a(8) _ d s'] by blast
  next
    case Precision
    from run Precision obtain pot t where res: "resolve_precision_mode e ?rid fp False s = Inr ((fee, pot), t)"
      and s': "s_book s' = (close_book ?rid (members (s_book t) ?rid) (s_book t))\<lparr>b_active := None\<rparr>"
        "s_money s' = s_money t" "s_config s' = s_config t" "n = length (members (s_book t) ?rid)"
      by (auto simp: complete_settlement_def and_then_Inr Let_def members_participants clear_dispute_book remove_active_round_def)
    note a = resolve_precision_Inr[OF res m ok Precision refl]
    obtain due where due: "precision_due (read_precision_payout_policy s) ?b ?rid fp fee due"
      "\<forall>v. pending_of t v = pending_of s v + due v" using a(9) by blast
    have "settlement_due (read_precision_payout_policy s) ?b r fp fee due" using due(1) by (simp add: settlement_due_def Precision)
    moreover have "held t \<le> held s + round_stake ?b ?rid" "held s + round_stake ?b ?rid < held t + dust_bound ?b r"
      using a(8) round_stake_mode(2)[OF ok Precision] by (simp_all add: dust_bound_def Precision)
    ultimately show ?thesis using finish[OF a(1-5,7) _ due(2) _ _ s'] by blast
  qed
  then show "s_book s' = (close_book ?rid (members ?b ?rid) ?b)\<lparr>b_active := None\<rparr>"
    "money_ok (s_money s')" "s_config s' = s_config s" "k_balance (s_money s') = k_balance (s_money s)"
    "0 \<le> fee" "n = length (members ?b ?rid)" "protocol_funds s' = protocol_funds s + fee"
    "\<exists>due. settlement_due (read_precision_payout_policy s) ?b r fp fee due \<and> (\<forall>v. pending_of s' v = pending_of s v + due v)"
    "held s' \<le> held s + round_stake ?b ?rid" "held s + round_stake ?b ?rid < held s' + dust_bound ?b r"
    by blast+
qed

section \<open>The invariant and the wealth across the end of a round\<close>

definition contract_ok :: "store \<Rightarrow> bool" where
  "contract_ok s \<longleftrightarrow> money_ok (s_money s) \<and> book_ok (s_book s) \<and> config_ok s"

lemma contract_okD:
  assumes "contract_ok s"
  shows "money_ok (s_money s)" "book_ok (s_book s)" "config_ok s" "fee_ok s" "stakes_ok (s_book s)" "book_finite (s_book s)"
  using assms book_okD[of "s_book s"] config_ok_fee[of s] by (simp_all add: contract_ok_def)

text \<open>The end of a round, whatever the way: its positions leave the book, the active round stays or
  goes, the dispute entry stays or goes, and the money is in order.\<close>

definition round_closed :: "nat \<Rightarrow> store \<Rightarrow> store \<Rightarrow> bool" where
  "round_closed rid s s' \<longleftrightarrow>
     (\<exists>a d. s_book s' = (close_book rid (members (s_book s) rid) (s_book s))\<lparr>b_active := a, b_disputes := d\<rparr> \<and>
        (a = b_active (s_book s) \<or> a = None) \<and> (d = b_disputes (s_book s) \<or> d = (b_disputes (s_book s))(rid := None)) \<and>
        (\<forall>q. a = Some q \<longrightarrow> r_id q \<noteq> rid) \<and> d rid = None) \<and>
     money_ok (s_money s') \<and> s_config s' = s_config s"

lemma round_closedI:
  assumes "s_book s' = (close_book rid (members (s_book s) rid) (s_book s))\<lparr>b_active := a, b_disputes := d\<rparr>"
    "a = b_active (s_book s) \<or> a = None" "d = b_disputes (s_book s) \<or> d = (b_disputes (s_book s))(rid := None)"
    "\<forall>q. a = Some q \<longrightarrow> r_id q \<noteq> rid" "d rid = None" "money_ok (s_money s')" "s_config s' = s_config s"
  shows "round_closed rid s s'"
  unfolding round_closed_def using assms by blast

lemma round_closed_ok: "round_closed rid s s' \<Longrightarrow> contract_ok s \<Longrightarrow> contract_ok s'"
  unfolding round_closed_def contract_ok_def using config_ok_cong[of s' s]
  by (elim conjE exE) (simp add: book_ok_close)

lemma round_closed_stake:
  assumes "round_closed rid s s'" "contract_ok s" "distinct (members (s_book s) rid)"
  shows "at_stake s' = at_stake s - round_stake (s_book s) rid" "user_stake (s_book s') rid u = 0 \<or> u \<notin> set (members (s_book s) rid)"
    "members (s_book s') rid = []"
proof -
  from assms(1) obtain a d where b: "s_book s' = (close_book rid (members (s_book s) rid) (s_book s))\<lparr>b_active := a, b_disputes := d\<rparr>"
    unfolding round_closed_def by blast
  show "at_stake s' = at_stake s - round_stake (s_book s) rid"
    by (rule at_stake_close[OF contract_okD(6)[OF assms(2)] assms(3) b])
  show "user_stake (s_book s') rid u = 0 \<or> u \<notin> set (members (s_book s) rid)"
    by (cases "u \<in> set (members (s_book s) rid)")
       (simp_all add: b user_stake_def position_stake_def precision_stake_def close_book_def clear_keys_def get_or_def)
  show "members (s_book s') rid = []" by (simp add: b members_def close_book_def get_or_def)
qed

lemma completed_closes:
  assumes run: "complete_settlement e r fp c s = Inr ((fee, n), s')" and ok: "contract_ok s" "round_ok (s_book s) r"
    and d: "b_disputes (s_book s) (r_id r) = None \<or> b_disputes (s_book s') (r_id r) = None"
  shows "s_book s' = (close_book (r_id r) (members (s_book s) (r_id r)) (s_book s))\<lparr>b_active := None\<rparr>"
    "0 \<le> held s + round_stake (s_book s) (r_id r) - held s'"
    "held s + round_stake (s_book s) (r_id r) - held s' < dust_bound (s_book s) r"
  using complete_settlement_Inr[OF run contract_okD(1,4,5)[OF ok(1)] ok(2)] by simp_all

lemma refunded_closed:
  assumes "refunded rid s t" "s_money s' = s_money t" "s_config s' = s_config t"
    "s_book s' = (close_book rid (members (s_book t) rid) (s_book t))\<lparr>b_active := a, b_disputes := d\<rparr>"
    "a = b_active (s_book s) \<or> a = None" "d = b_disputes (s_book s) \<or> d = (b_disputes (s_book s))(rid := None)"
    "\<forall>q. a = Some q \<longrightarrow> r_id q \<noteq> rid" "d rid = None"
  shows "round_closed rid s s'" "held s' = held s + round_stake (s_book s) rid"
    "\<forall>v. pending_of s' v = pending_of s v + user_stake (s_book s) rid v" "k_balance (s_money s') = k_balance (s_money s)"
proof -
  have "held s' = held t" "\<forall>v. pending_of s' v = pending_of t v" using assms(2) by (simp_all add: held_def pending_of_def)
  then show "held s' = held s + round_stake (s_book s) rid" "\<forall>v. pending_of s' v = pending_of s v + user_stake (s_book s) rid v"
    "k_balance (s_money s') = k_balance (s_money s)"
    using assms(1,2) by (simp_all add: refunded_def)
  show "round_closed rid s s'" using assms unfolding round_closed_def refunded_def by auto
qed

lemma refunded_archive: "refunded rid (archive_round e r st fp us fee c s) t = refunded rid s t"
  by (simp add: refunded_def pending_of_def held_def)

lemma book_self: "b\<lparr>b_active := a\<rparr> = b\<lparr>b_active := a, b_disputes := b_disputes b\<rparr>"
  "b\<lparr>b_disputes := d\<rparr> = b\<lparr>b_active := b_active b, b_disputes := d\<rparr>"
  by simp_all

lemma close_book_fields [simp]:
  "b_active (close_book rid us b) = b_active b" "b_disputes (close_book rid us b) = b_disputes b"
  "b_last_id (close_book rid us b) = b_last_id b" "b_start_ledgers (close_book rid us b) = b_start_ledgers b"
  by (simp_all add: close_book_def)

text \<open>The three ways a price settles the active round.\<close>

lemma settle_round_cases:
  assumes run: "settle_round_with_price e r fp c s = Inr s'" and ok: "contract_ok s" and act: "b_active (s_book s) = Some r"
  obtains
    (fallback) least where "c_min_participants (s_config s) = Some least" "length (members (s_book s) (r_id r)) < least"
      "round_closed (r_id r) s s'" "held s' = held s + round_stake (s_book s) (r_id r)"
      "\<forall>v. pending_of s' v = pending_of s v + user_stake (s_book s) (r_id r) v" "b_active (s_book s') = None"
      "k_balance (s_money s') = k_balance (s_money s)"
  | (staged) pd where "pred_option (\<lambda>l. l \<le> length (members (s_book s) (r_id r))) (c_min_participants (s_config s))" "0 < get_dispute_ledgers s" "pd_round pd = r" "pd_final_price pd = fp" "pd_confidence pd = c"
      "pd_deadline pd = e_ledger e + get_dispute_ledgers s"
      "s_book s' = (s_book s)\<lparr>b_active := None, b_disputes := (b_disputes (s_book s))(r_id r \<mapsto> pd)\<rparr>"
      "s_money s' = s_money s" "s_config s' = s_config s"
  | (completed) fee n where "pred_option (\<lambda>l. l \<le> length (members (s_book s) (r_id r))) (c_min_participants (s_config s))" "get_dispute_ledgers s = 0" "complete_settlement e r fp c s = Inr ((fee, n), s')"
proof (cases "\<exists>least. c_min_participants (s_config s) = Some least \<and> length (members (s_book s) (r_id r)) < least")
  case True
  then obtain least where least: "c_min_participants (s_config s) = Some least" "length (members (s_book s) (r_id r)) < least" by blast
  let ?a = "archive_round e r FallbackRefund fp (members (s_book s) (r_id r)) 0 c s"
  from run least obtain u where u: "refund_under_threshold e r (members (s_book ?a) (r_id r)) ?a = Inr u"
    and s': "s_money s' = s_money u" "s_book s' = s_book u" "s_config s' = s_config u"
    by (auto simp: settle_round_with_price_def members_participants Let_def and_then_Inr)
  note a = active_okD[OF contract_okD(2)[OF ok] act]
  obtain t where t: "refunded (r_id r) ?a t" "u = clear_round_storage (r_id r) (members (s_book ?a) (r_id r)) t"
    by (rule fallback_refunds[OF u]) (use contract_okD[OF ok] a(1) in simp_all)
  have t': "refunded (r_id r) s t" using t(1) by (simp only: refunded_archive)
  then have b: "s_book t = s_book s" by (simp add: refunded_def)
  have "s_book s' = (close_book (r_id r) (members (s_book t) (r_id r)) (s_book t))\<lparr>b_active := None, b_disputes := b_disputes (s_book s)\<rparr>"
    using s'(2) t(2) by (simp add: clear_round_book b)
  from refunded_closed[OF t' _ _ this] s' t(2) a(2) least
  show thesis by (intro fallback[of least]) (simp_all add: clear_round_book b)
next
  case False
  then have enough: "pred_option (\<lambda>l. l \<le> length (members (s_book s) (r_id r))) (c_min_participants (s_config s))"
    by (cases "c_min_participants (s_config s)") (auto simp: not_less)
  from False have run': "stage_or_complete e r fp c s = Inr s'"
    using run by (auto simp: settle_round_with_price_def members_participants Let_def split: option.splits if_splits)
  show thesis
  proof (cases "0 < get_dispute_ledgers s")
    case True
    let ?pd = "\<lparr>pd_round = r, pd_final_price = fp, pd_confidence = c, pd_resolved_at = e_ledger e,
      pd_deadline = e_ledger e + get_dispute_ledgers s\<rparr>"
    show thesis
      by (rule staged[of ?pd])
         (use run' True enough in \<open>auto simp: stage_or_complete_def and_then_Inr ok_or_Inr uchecked_Some Let_def write_pending_dispute_def remove_active_round_def\<close>)
  next
    case False
    then show thesis using run' completed[OF enough] by (auto simp: stage_or_complete_def and_then_Inr)
  qed
qed

lemma settle_round_ok:
  assumes run: "settle_round_with_price e r fp c s = Inr s'" and ok: "contract_ok s" and act: "b_active (s_book s) = Some r"
  shows "contract_ok s'" "wealth s' \<le> wealth s" "wealth s < wealth s' + dust_bound (s_book s) r" "b_active (s_book s') = None"
proof -
  note a = active_okD[OF contract_okD(2)[OF ok] act]
  have db: "0 < dust_bound (s_book s) r" by (simp add: dust_bound_def less_max_iff_disj split: round_mode.split)
  have "contract_ok s' \<and> wealth s' \<le> wealth s \<and> wealth s < wealth s' + dust_bound (s_book s) r \<and> b_active (s_book s') = None"
  proof (rule settle_round_cases[OF run ok act])
    assume c: "round_closed (r_id r) s s'" "held s' = held s + round_stake (s_book s) (r_id r)" "b_active (s_book s') = None"
    then show ?thesis
      using round_closed_ok[OF c(1) ok] round_closed_stake(1)[OF c(1) ok round_ok_distinct[OF a(1)]] db by (simp add: wealth_def)
  next
    fix pd
    assume c: "pd_round pd = r" "s_book s' = (s_book s)\<lparr>b_active := None, b_disputes := (b_disputes (s_book s))(r_id r \<mapsto> pd)\<rparr>"
      "s_money s' = s_money s" "s_config s' = s_config s"
    have "position_stake (s_book s') = position_stake (s_book s) \<and> precision_stake (s_book s') = precision_stake (s_book s)"
      by (rule stake_maps_cong) (simp_all add: c(2))
    then have "wealth s' = wealth s" using held_cong[OF c(3)] by (simp add: wealth_def at_stake_def)
    moreover have "book_ok (s_book s')" unfolding c(2) by (rule book_ok_stage[OF contract_okD(2)[OF ok] act c(1)])
    ultimately show ?thesis using contract_okD(1,3)[OF ok] config_ok_cong[OF c(4)] c(2,3) db by (simp add: contract_ok_def)
  next
    fix fee n
    assume c: "complete_settlement e r fp c s = Inr ((fee, n), s')"
    note d = complete_settlement_Inr[OF c contract_okD(1,4,5)[OF ok] a(1)]
    have cl: "round_closed (r_id r) s s'"
      by (rule round_closedI[where a = None and d = "b_disputes (s_book s)"]) (use d(1-3) a(2) in simp_all)
    show ?thesis
      using round_closed_ok[OF cl ok] round_closed_stake(1)[OF cl ok round_ok_distinct[OF a(1)]] d(1,9,10)
      by (simp add: wealth_def)
  qed
  then show "contract_ok s'" "wealth s' \<le> wealth s" "wealth s < wealth s' + dust_bound (s_book s) r" "b_active (s_book s') = None"
    by simp_all
qed

section \<open>The dispute window\<close>

lemma void_round_Inr:
  assumes run: "void_round e rid s = Inr s'" and ok: "contract_ok s"
  obtains pd where "b_disputes (s_book s) rid = Some pd" "e_ledger e < pd_deadline pd" "round_closed rid s s'"
    "held s' = held s + round_stake (s_book s) rid"
    "\<forall>v. pending_of s' v = pending_of s v + user_stake (s_book s) rid v" "k_balance (s_money s') = k_balance (s_money s)"
    "b_active (s_book s') = b_active (s_book s)" "b_disputes (s_book s') rid = None"
proof -
  from run obtain pd x t where pd: "b_disputes (s_book s) rid = Some pd" "e_ledger e < pd_deadline pd"
    and loop: "fold_res (void_refund e (pd_round pd)) (members (s_book s) rid) (0, s) = Inr (x, t)"
    and eq: "emit (''round'', ''voided'') [VNat rid, VNat (length (members (s_book s) rid)), VInt x]
        (remove_pending_dispute rid (clear_dispute_round_storage rid (members (s_book s) rid)
          (archive_round e (pd_round pd) Voided (pd_final_price pd) (members (s_book s) rid) 0 (pd_confidence pd) t))) = s'"
    unfolding void_round_def and_then_Inr ok_or_Inr Let_def members_participants if_Inl_Inr case_prod_unfold
    by (clarsimp simp: not_le)
  have s': "s_money s' = s_money t" "s_config s' = s_config t"
    "s_book s' = (close_book rid (members (s_book s) rid) (s_book t))\<lparr>b_disputes := (b_disputes (s_book t))(rid := None)\<rparr>"
    by (simp_all add: eq[symmetric] clear_dispute_book remove_pending_dispute_def)
  note d = disputes_okD[OF contract_okD(2)[OF ok] pd(1)]
  have "refunded rid s t"
    using void_refunds[of e "pd_round pd" s x t] loop contract_okD[OF ok] d by simp
  then have t: "refunded rid s t" "s_book t = s_book s" by (simp_all add: refunded_def)
  have act: "\<forall>q. b_active (s_book s) = Some q \<longrightarrow> r_id q \<noteq> rid" using active_okD(2)[OF contract_okD(2)[OF ok]] pd(1) by force
  have b: "s_book s' = (close_book rid (members (s_book t) rid) (s_book t))
      \<lparr>b_active := b_active (s_book s), b_disputes := (b_disputes (s_book s))(rid := None)\<rparr>"
    by (simp add: s'(3) t(2))
  show thesis
    by (rule that[OF pd]) (use refunded_closed[OF t(1) s'(1,2) b] act in \<open>simp_all add: b\<close>)
qed

lemma finalize_round_Inr:
  assumes run: "finalize_round e rid s = Inr s'" and ok: "contract_ok s"
  obtains pd fee due where "b_disputes (s_book s) rid = Some pd" "pd_deadline pd \<le> e_ledger e" "round_closed rid s s'"
    "r_id (pd_round pd) = rid" "0 \<le> fee"
    "settlement_due (read_precision_payout_policy s) (s_book s) (pd_round pd) (pd_final_price pd) fee due"
    "\<forall>v. pending_of s' v = pending_of s v + due v" "protocol_funds s' = protocol_funds s + fee"
    "k_balance (s_money s') = k_balance (s_money s)"
    "held s' \<le> held s + round_stake (s_book s) rid" "held s + round_stake (s_book s) rid < held s' + dust_bound (s_book s) (pd_round pd)"
    "b_active (s_book s') = None" "b_disputes (s_book s') = (b_disputes (s_book s))(rid := None)"
proof -
  from run obtain pd fee n t where pd: "b_disputes (s_book s) rid = Some pd" "pd_deadline pd \<le> e_ledger e"
    and t: "complete_settlement e (pd_round pd) (pd_final_price pd) (pd_confidence pd) s = Inr ((fee, n), t)"
    and s': "s_money s' = s_money t" "s_config s' = s_config t"
      "s_book s' = (s_book t)\<lparr>b_disputes := (b_disputes (s_book t))(rid := None)\<rparr>"
    by (auto simp: finalize_round_def and_then_Inr ok_or_Inr Let_def remove_pending_dispute_def not_less split: if_splits)
  note d = disputes_okD[OF contract_okD(2)[OF ok] pd(1)]
  note a = complete_settlement_Inr[OF t contract_okD(1,4,5)[OF ok] d(1), unfolded d(2)]
  obtain due where due: "settlement_due (read_precision_payout_policy s) (s_book s) (pd_round pd) (pd_final_price pd) fee due"
    "\<forall>v. pending_of t v = pending_of s v + due v" using a(8) by blast
  have m: "held s' = held t" "protocol_funds s' = protocol_funds t" "\<forall>v. pending_of s' v = pending_of t v"
    using s'(1) by (simp_all add: held_def protocol_funds_def pending_of_def)
  have b: "s_book s' = (close_book rid (members (s_book s) rid) (s_book s))
      \<lparr>b_active := None, b_disputes := (b_disputes (s_book s))(rid := None)\<rparr>"
    by (simp add: s'(3) a(1))
  have "round_closed rid s s'" by (rule round_closedI[OF b]) (use a(2,3) s'(1,2) in simp_all)
  then show thesis
    using pd a due m b s' d(2) by (intro that[of pd fee due]) simp_all
qed

section \<open>Cancellation\<close>

lemma fold_res_acc:
  assumes "\<And>x a s a' s'. step x (a, s) = Inr (a', s') \<Longrightarrow> s_book s' = s_book s \<and> a' = h (s_book s) x a"
  shows "fold_res step xs (a, s) = Inr (a', s') \<Longrightarrow> a' = fold (h (s_book s)) xs a"
proof (induction xs arbitrary: a s)
  case (Cons x xs)
  then obtain a1 s1 where t: "step x (a, s) = Inr (a1, s1)" "fold_res step xs (a1, s1) = Inr (a', s')"
    by (auto simp: and_then_Inr)
  show ?case using Cons.IH[OF t(2)] assms[OF t(1)] by simp
qed simp

definition note_stake :: "int \<Rightarrow> int list \<times> int \<Rightarrow> int list \<times> int" where
  "note_stake x a = (fst a @ [x], unwrap_or (checked_add (snd a) x) (snd a))"

lemma fold_note_stake:
  assumes "\<forall>x\<in>set xs. 0 \<le> x" "0 \<le> t" "in_i128 (t + sum_list xs)"
  shows "fold note_stake xs (ys, t) = (ys @ xs, t + sum_list xs)"
  using assms
proof (induction xs arbitrary: ys t)
  case (Cons x xs)
  have "0 \<le> sum_list xs" using Cons.prems(1) by (intro sum_list_nonneg) auto
  then have "in_i128 (t + x)" using Cons.prems by (auto simp: in_i128_def)
  then have n: "note_stake x (ys, t) = (ys @ [x], t + x)" by (simp add: note_stake_def checked_add_def)
  have "fold note_stake xs (ys @ [x], t + x) = ((ys @ [x]) @ xs, t + x + sum_list xs)"
    by (rule Cons.IH) (use Cons.prems in \<open>simp_all add: add.assoc\<close>)
  then show ?case by (simp add: n)
qed simp

definition cancel_entry :: "env \<Rightarrow> nat \<Rightarrow> address \<Rightarrow> store \<Rightarrow> store res" where
  "cancel_entry e rid user s =
     (let amount = precision_amount s rid user in
      and_then (if amount > 0 then accumulate_pending e user amount s else Inr s) (\<lambda>s1.
      Inr (persist_user_outcome rid 1 user 2 0 amount amount Void s1)))"

interpretation cancelling: crediting_step "cancel_entry e rid" "\<lambda>u. u" "\<lambda>b u. max 0 (get_or (precision_stake b) 0 (rid, u))" for e rid
  by unfold_locales
     (auto simp: cancel_entry_def precision_amount_stake and_then_Inr max_def Let_def split: if_splits
       intro!: credited_persist intro: accumulate_credited)

lemma cancel_refunds:
  assumes run: "fold_res (cancel_refund e r) (members (s_book s) (r_id r)) (([], 0), s) = Inr ((stakes, tot), t)"
    and m: "money_ok (s_money s)" and st: "stakes_ok (s_book s)" and ok: "round_ok (s_book s) r"
    and range: "in_i128 (round_stake (s_book s) (r_id r))"
  shows "refunded (r_id r) s t" "stakes = map (user_stake (s_book s) (r_id r)) (members (s_book s) (r_id r))"
    "tot = round_stake (s_book s) (r_id r)"
proof -
  let ?b = "s_book s" and ?rid = "r_id r" and ?ms = "members (s_book s) (r_id r)"
  have "refunded ?rid s t \<and> (stakes, tot) = fold (\<lambda>u. note_stake (user_stake ?b ?rid u)) ?ms ([], 0)"
  proof (cases "r_mode r")
    case UpDown
    have "fold_res (refund_position e ?rid 0 Void) ?ms s = Inr t"
      by (rule fold_res_pair[OF _ run])
         (auto simp: cancel_refund_def UpDown and_then_Inr refund_position_def split: option.splits)
    from refunding.loop_refunds[OF this m st ok] user_stake_mode(1)[OF ok UpDown] have "refunded ?rid s t" by simp
    moreover have "(stakes, tot) = fold (\<lambda>u a. case b_positions ?b (?rid, u) of None \<Rightarrow> a | Some p \<Rightarrow> note_stake (pos_amount p) a) ?ms ([], 0)"
      by (rule fold_res_acc[OF _ run])
         (auto simp: cancel_refund_def UpDown and_then_Inr note_stake_def dest: refunding.step_frame split: option.splits)
    moreover have "fold (\<lambda>u a. case b_positions ?b (?rid, u) of None \<Rightarrow> a | Some p \<Rightarrow> note_stake (pos_amount p) a) ?ms ([], 0)
        = fold (\<lambda>u. note_stake (user_stake ?b ?rid u)) ?ms ([], 0)"
      using ok UpDown user_stake_mode(1)[OF ok UpDown]
      by (intro List.fold_cong refl) (auto simp: round_ok_def position_stake_def get_or_def fun_eq_iff)
    ultimately show ?thesis by simp
  next
    case Precision
    have "fold_res (cancel_entry e ?rid) ?ms s = Inr t"
      by (rule fold_res_pair[OF _ run])
         (auto simp: cancel_refund_def Precision and_then_Inr cancel_entry_def Let_def)
    from cancelling.loop_refunds[OF this m st ok] user_stake_mode(2)[OF ok Precision] precision_stake_nonneg[OF st]
    have "refunded ?rid s t" by simp
    moreover have "(stakes, tot) = fold (\<lambda>u. note_stake (get_or (precision_stake ?b) 0 (?rid, u))) ?ms ([], 0)"
    proof (rule fold_res_acc[OF _ run])
      fix u a s0 a' s1
      assume c: "cancel_refund e r u (a, s0) = Inr (a', s1)"
      then have "cancel_entry e ?rid u s0 = Inr s1"
        by (cases a) (auto simp: cancel_refund_def Precision and_then_Inr cancel_entry_def Let_def)
      then have "s_book s1 = s_book s0" using cancelling.step_frame by blast
      then show "s_book s1 = s_book s0 \<and> a' = note_stake (get_or (precision_stake (s_book s0)) 0 (?rid, u)) a"
        using c by (cases a) (auto simp: cancel_refund_def Precision and_then_Inr note_stake_def precision_amount_stake Let_def)
    qed
    ultimately show ?thesis using user_stake_mode(2)[OF ok Precision] by simp
  qed
  moreover have "fold (\<lambda>u. note_stake (user_stake ?b ?rid u)) us a = fold note_stake (map (user_stake ?b ?rid) us) a" for us a
    by (simp add: fold_map comp_def)
  moreover have "fold note_stake (map (user_stake ?b ?rid) ?ms) ([], 0) = ([] @ map (user_stake ?b ?rid) ?ms, 0 + round_stake ?b ?rid)"
    using fold_note_stake[of "map (user_stake ?b ?rid) ?ms" 0 "[]"] range user_stake_nonneg[OF st] by (simp add: round_stake_def)
  ultimately show "refunded ?rid s t" "stakes = map (user_stake ?b ?rid) ?ms" "tot = round_stake ?b ?rid" by simp_all
qed

text \<open>What the insurance adds: the drawn amount is the coverage asked for, at most the fund, and each
  participant gets its floored share of it.\<close>

definition coverage_drawn :: "store \<Rightarrow> nat \<Rightarrow> nat \<Rightarrow> int" where
  "coverage_drawn s rid reason =
     (if is_coverage_eligible s reason then
        min (sum_list (map (\<lambda>u. user_stake (s_book s) rid u * int (get_insurance_coverage_bps s) div 10000) (members (s_book s) rid)))
            (get_insurance_fund_balance s)
      else 0)"

definition coverage_share :: "store \<Rightarrow> nat \<Rightarrow> nat \<Rightarrow> address \<Rightarrow> int" where
  "coverage_share s rid reason u =
     user_stake (s_book s) rid u * coverage_drawn s rid reason div round_stake (s_book s) rid"

lemma sum_list_all_0: "\<forall>x\<in>set xs. x = (0::int) \<Longrightarrow> sum_list xs = 0"
  by (induction xs) auto

lemma coverage_share_0: "coverage_drawn s rid reason = 0 \<Longrightarrow> coverage_share s rid reason = (\<lambda>u. 0)"
  by (rule ext) (simp add: coverage_share_def)

lemma calculate_coverage_Inr:
  "calculate_coverage_amount s x = Inr c \<Longrightarrow> 0 \<le> x \<Longrightarrow> c = x * int (get_insurance_coverage_bps s) div 10000"
  by (auto simp: calculate_coverage_amount_def Let_def and_then_Inr ok_or_Inr checked_mul_Some checked_div_Some
      BPS_DENOMINATOR_def sdiv_nonneg split: if_splits)

lemma coverage_total_Inr:
  assumes "fold_res (\<lambda>stake total. and_then (calculate_coverage_amount s stake) (\<lambda>cov. payout_add total cov)) xs t = Inr c"
    "\<forall>x\<in>set xs. 0 \<le> x"
  shows "c = t + sum_list (map (\<lambda>x. x * int (get_insurance_coverage_bps s) div 10000) xs)"
  using assms
proof (induction xs arbitrary: t)
  case (Cons x xs)
  from Cons.prems obtain y where y: "calculate_coverage_amount s x = Inr y"
    "fold_res (\<lambda>stake total. and_then (calculate_coverage_amount s stake) (\<lambda>cov. payout_add total cov)) xs (t + y) = Inr c"
    by (auto simp: and_then_Inr payout_add_Inr)
  then show ?case using Cons.IH[OF y(2)] Cons.prems(2) calculate_coverage_Inr[OF y(1)] by simp
qed simp

interpretation covering: crediting_step "cover_participant e d tot stakes" snd
  "\<lambda>b (i, u). max 0 (if i < length stakes \<and> stakes ! i > 0 then d * stakes ! i sdiv tot else 0)" for e d tot stakes
  by unfold_locales
     (auto simp: cover_participant_def and_then_Inr ok_or_Inr checked_mul_Some checked_div_Some Let_def max_def
       split: if_splits prod.splits intro: accumulate_credited)

lemma deduct_coverage_frame:
  "deduct_insurance_coverage rid req s = Inr (x, s') \<Longrightarrow>
     k_balance (s_money s') = k_balance (s_money s) \<and> k_treasury (s_money s') = k_treasury (s_money s)"
  by (auto simp: deduct_insurance_coverage_def and_then_Inr Let_def set_fund_def split: if_splits)

lemma fund_cong: "k_fund (s_money s') = k_fund (s_money s) \<Longrightarrow> get_insurance_fund_balance s' = get_insurance_fund_balance s"
  by (simp add: get_insurance_fund_balance_def)

lemma pay_coverage_Inr:
  assumes run: "pay_coverage e rid (is_coverage_eligible s reason) ms (map (user_stake (s_book s) rid) ms) (round_stake (s_book s) rid) s = Inr s'"
    and m: "money_ok (s_money s)" and st: "stakes_ok (s_book s)" and ms: "ms = members (s_book s) rid" "distinct ms"
  shows "s_book s' = s_book s" "s_config s' = s_config s" "money_ok (s_money s')" "k_balance (s_money s') = k_balance (s_money s)"
    "\<forall>v. pending_of s' v = pending_of s v + (if v \<in> set ms then coverage_share s rid reason v else 0)"
    "get_insurance_fund_balance s' = get_insurance_fund_balance s - coverage_drawn s rid reason"
    "held s' = held s - coverage_drawn s rid reason + sum_list (map (coverage_share s rid reason) ms)"
proof -
  let ?b = "s_book s" and ?d = "coverage_drawn s rid reason" and ?T = "round_stake (s_book s) rid"
  let ?xs = "map (user_stake ?b rid) ms" and ?share = "coverage_share s rid reason"
  let ?goal = "s_book s' = ?b \<and> s_config s' = s_config s \<and> money_ok (s_money s') \<and> k_balance (s_money s') = k_balance (s_money s) \<and>
    (\<forall>v. pending_of s' v = pending_of s v + (if v \<in> set ms then ?share v else 0)) \<and>
    get_insurance_fund_balance s' = get_insurance_fund_balance s - ?d \<and>
    held s' = held s - ?d + sum_list (map ?share ms)"
  have xs0: "\<forall>x\<in>set ?xs. 0 \<le> x" using user_stake_nonneg[OF st] by simp
  have sumT: "sum_list ?xs = ?T" by (simp add: round_stake_def ms(1))
  have f0: "0 \<le> get_insurance_fund_balance s" by (rule fund_nonneg[OF m])
  have none: ?goal if "s' = s" "?d = 0"
    using that m by (simp add: coverage_share_0 sum_list_triv)
  have ?goal
  proof (cases "is_coverage_eligible s reason \<and> ms \<noteq> []")
    case False
    then have "s' = s" "?d = 0" using run f0 ms(1) by (auto simp: pay_coverage_def coverage_drawn_def)
    then show ?thesis by (rule none)
  next
    case True
    let ?req = "sum_list (map (\<lambda>x. x * int (get_insurance_coverage_bps s) div 10000) ?xs)"
    have drawn: "?d = min ?req (get_insurance_fund_balance s)" using True by (simp add: coverage_drawn_def ms(1) comp_def)
    have tot: "coverage_total s ?xs = Inr c \<Longrightarrow> c = ?req" for c
      unfolding coverage_total_def using coverage_total_Inr[of s ?xs 0 c] xs0 by simp
    show ?thesis
    proof (cases "?req > 0")
      case False
      have "0 \<le> ?req" using xs0 by (intro sum_list_nonneg) (auto simp: pos_imp_zdiv_nonneg_iff)
      then have "?d = 0" using False f0 drawn by simp
      moreover have "s' = s" using run True False tot by (auto simp: pay_coverage_def and_then_Inr)
      ultimately show ?thesis using none by blast
    next
      case req: True
      from run True req tot obtain d t where ded: "deduct_insurance_coverage rid ?req s = Inr (d, t)"
        and rest: "(if d > 0 \<and> ?T > 0 then fold_res (cover_participant e d ?T ?xs) (enumerate 0 ms) t else Inr t) = Inr s'"
        by (auto simp: pay_coverage_def and_then_Inr)
      note a = deduct_coverage_Inr[OF ded m] and fr = deduct_coverage_frame[OF ded]
      have d: "d = ?d" using a(1) req drawn by simp
      have Tpos: "0 < ?T"
      proof (rule ccontr)
        assume "\<not> 0 < ?T"
        then have "?T = 0" using round_stake_nonneg[OF st, of rid] by simp
        then have "\<forall>x\<in>set ?xs. x = 0" using sum_list_nonneg_eq_0_iff[of ?xs] xs0 sumT by auto
        then have "?req = 0" by (intro sum_list_all_0) auto
        then show False using req by simp
      qed
      show ?thesis
      proof (cases "0 < d")
        case False
        then have "d = 0" using a(2) by simp
        then show ?thesis using rest a fr d m by (simp add: coverage_share_0 sum_list_triv pending_of_def)
      next
        case True
        then have loop: "fold_res (cover_participant e d ?T ?xs) (enumerate 0 ms) t = Inr s'" using rest Tpos by simp
        let ?pays = "\<lambda>(i, u). max 0 (if i < length ?xs \<and> ?xs ! i > 0 then d * ?xs ! i sdiv ?T else 0)"
        have one: "?pays (i, ms ! i) = ?share (ms ! i)" if "i < length ms" for i
        proof -
          have "0 \<le> user_stake ?b rid (ms ! i)" by (rule user_stake_nonneg[OF st])
          moreover from this have "0 \<le> user_stake ?b rid (ms ! i) * d div ?T"
            using True Tpos by (simp add: pos_imp_zdiv_nonneg_iff)
          ultimately show ?thesis using that True Tpos
            by (auto simp: coverage_share_def d[symmetric] sdiv_nonneg mult.commute[of d])
        qed
        have each: "?pays x = ?share (snd x)" if "x \<in> set (enumerate 0 ms)" for x
        proof -
          obtain i u where x: "x = (i, u)" by (cases x)
          then have "i < length ms" "u = ms ! i" using that by (auto simp: in_set_enumerate_eq)
          then show ?thesis using one[of i] by (simp add: x)
        qed
        have nn: "\<forall>x\<in>set (enumerate 0 ms). 0 \<le> ?pays x" by auto
        have "map ?pays (enumerate 0 ms) = map (\<lambda>x. ?share (snd x)) (enumerate 0 ms)"
          by (rule map_cong[OF refl]) (rule each)
        also have "\<dots> = map ?share (map snd (enumerate 0 ms))" by (simp only: map_map comp_def)
        finally have sum: "sum_list (map ?pays (enumerate 0 ms)) = sum_list (map ?share ms)" by simp
        have pend: "pending_of s' v = pending_of t v + (if v \<in> set ms then ?share v else 0)" for v
        proof -
          have "map ?pays (filter (\<lambda>x. snd x = v) (enumerate 0 ms)) = map (\<lambda>x. ?share (snd x)) (filter (\<lambda>x. snd x = v) (enumerate 0 ms))"
            by (rule map_cong) (use each in auto)
          also have "\<dots> = map ?share (filter (\<lambda>u. u = v) (map snd (enumerate 0 ms)))"
            by (simp only: filter_map map_map comp_def)
          finally show ?thesis using covering.loop_pending[OF loop, of v] sum_list_if_one[OF ms(2)] by simp
        qed
        show ?thesis
          using covering.loop_frame[OF loop] covering.loop_pays[OF loop a(4) nn] sum pend a fr d
          by (simp add: pending_of_def get_insurance_fund_balance_def)
      qed
    qed
  qed
  then show "s_book s' = s_book s" "s_config s' = s_config s" "money_ok (s_money s')" "k_balance (s_money s') = k_balance (s_money s)"
    "\<forall>v. pending_of s' v = pending_of s v + (if v \<in> set ms then ?share v else 0)"
    "get_insurance_fund_balance s' = get_insurance_fund_balance s - ?d" "held s' = held s - ?d + sum_list (map ?share ms)"
    by blast+
qed

lemma cancel_round_Inr:
  assumes run: "cancel_round e reason s = Inr s'" and ok: "contract_ok s" and act: "b_active (s_book s) = Some r"
    and range: "in_i128 (round_stake (s_book s) (r_id r))"
  shows "round_closed (r_id r) s s'" "b_active (s_book s') = None" "is_round_cancelled s' (r_id r)"
    "k_balance (s_money s') = k_balance (s_money s)"
    "\<forall>v. pending_of s' v = pending_of s v + user_stake (s_book s) (r_id r) v + coverage_share s (r_id r) reason v"
    "get_insurance_fund_balance s' = get_insurance_fund_balance s - coverage_drawn s (r_id r) reason"
    "held s' = held s + round_stake (s_book s) (r_id r) - coverage_drawn s (r_id r) reason
       + sum_list (map (coverage_share s (r_id r) reason) (members (s_book s) (r_id r)))"
proof -
  let ?b = "s_book s" and ?rid = "r_id r" and ?ms = "members (s_book s) (r_id r)"
  note a = active_okD[OF contract_okD(2)[OF ok] act] and st = contract_okD(5)[OF ok]
  from run act obtain stakes tot t u where
    refund: "fold_res (cancel_refund e r) ?ms (([], 0), s) = Inr ((stakes, tot), t)" and
    cover: "pay_coverage e ?rid (is_coverage_eligible s reason) ?ms stakes tot t = Inr u" and
    eq: "remove_active_round (upd_history (\<lambda>h. h\<lparr>h_cancelled := (h_cancelled h)(?rid \<mapsto> True)\<rparr>) (remove_participants ?rid
          (archive_round e r Cancelled 0 ?ms 0 None (clear_round_storage ?rid ?ms u)))) = s'"
    unfolding cancel_round_def and_then_Inr ok_or_Inr Let_def members_participants case_prod_unfold by clarsimp
  note c = cancel_refunds[OF refund contract_okD(1,5)[OF ok] a(1) range]
  have t: "s_book t = ?b" "s_config t = s_config s" "money_ok (s_money t)" "s_ins t = s_ins s" "k_fund (s_money t) = k_fund (s_money s)"
    "k_balance (s_money t) = k_balance (s_money s)" "held t = held s + round_stake ?b ?rid"
    "\<forall>v. pending_of t v = pending_of s v + user_stake ?b ?rid v"
    using c(1) by (simp_all add: refunded_def)
  have el: "is_coverage_eligible t reason = is_coverage_eligible s reason"
    by (simp add: is_coverage_eligible_def is_eligible_event_def get_insurance_eligible_events_def get_insurance_coverage_bps_def t(4))
  have dr: "coverage_drawn t ?rid reason = coverage_drawn s ?rid reason"
    using t(1) fund_cong[OF t(5)] by (simp add: coverage_drawn_def el get_insurance_coverage_bps_def t(4))
  have sh: "coverage_share t ?rid reason = coverage_share s ?rid reason"
    by (simp add: coverage_share_def[abs_def] dr t(1))
  have "pay_coverage e ?rid (is_coverage_eligible t reason) ?ms (map (user_stake (s_book t) ?rid) ?ms) (round_stake (s_book t) ?rid) t = Inr u"
    using cover c(2,3) by (simp add: el t(1))
  note p = pay_coverage_Inr[OF this t(3) _ _ round_ok_distinct[OF a(1)], unfolded t(1) dr sh, OF st refl]
  have s': "s_money s' = s_money u" "s_config s' = s_config u"
    by (simp_all add: eq[symmetric] remove_active_round_def remove_participants_def clear_round_book)
  have b: "s_book s' = (close_book ?rid ?ms ?b)\<lparr>b_active := None, b_disputes := b_disputes ?b\<rparr>"
    by (simp add: eq[symmetric] remove_active_round_def remove_participants_def clear_round_book p(1) close_book_def)
  show "round_closed ?rid s s'"
    by (rule round_closedI[OF b]) (use a(2) p(2,3) s' t(2) in simp_all)
  show "b_active (s_book s') = None" by (simp add: b)
  show "is_round_cancelled s' ?rid"
    by (simp add: is_round_cancelled_def eq[symmetric] remove_active_round_def)
  have out: "v \<notin> set ?ms \<Longrightarrow> coverage_share s ?rid reason v = 0" for v
    using user_stake_outside[OF a(1)] by (simp add: coverage_share_def)
  show "k_balance (s_money s') = k_balance (s_money s)" using p(4) s'(1) t(6) by simp
  show "\<forall>v. pending_of s' v = pending_of s v + user_stake ?b ?rid v + coverage_share s ?rid reason v"
    using p(5) out t(8) s'(1) by (simp add: pending_of_def)
  show "get_insurance_fund_balance s' = get_insurance_fund_balance s - coverage_drawn s ?rid reason"
    using p(6) fund_cong[OF t(5)] s'(1) by (simp add: get_insurance_fund_balance_def)
  show "held s' = held s + round_stake ?b ?rid - coverage_drawn s ?rid reason + sum_list (map (coverage_share s ?rid reason) ?ms)"
    using p(7) t(7) held_cong[OF s'(1)] by simp
qed

lemma coverage_within_drawn:
  assumes "stakes_ok (s_book s)" "money_ok (s_money s)"
  shows "0 \<le> coverage_drawn s rid reason"
    "sum_list (map (coverage_share s rid reason) (members (s_book s) rid)) \<le> coverage_drawn s rid reason"
    "coverage_drawn s rid reason
       < sum_list (map (coverage_share s rid reason) (members (s_book s) rid)) + max 1 (int (length (members (s_book s) rid)))"
proof -
  let ?ms = "members (s_book s) rid" and ?d = "coverage_drawn s rid reason" and ?T = "round_stake (s_book s) rid"
  have nn: "0 \<le> user_stake (s_book s) rid u" for u by (rule user_stake_nonneg[OF assms(1)])
  have req: "0 \<le> sum_list (map (\<lambda>u. user_stake (s_book s) rid u * int (get_insurance_coverage_bps s) div 10000) ?ms)"
    by (intro sum_list_nonneg) (auto simp: nn pos_imp_zdiv_nonneg_iff)
  then show d0: "0 \<le> ?d" using fund_nonneg[OF assms(2)] by (simp add: coverage_drawn_def)
  have sh: "map (coverage_share s rid reason) ?ms = map (\<lambda>x. x * ?d div ?T) (map (user_stake (s_book s) rid) ?ms)"
    by (simp add: coverage_share_def)
  have "sum_list (map (coverage_share s rid reason) ?ms) \<le> ?d \<and>
      ?d < sum_list (map (coverage_share s rid reason) ?ms) + max 1 (int (length ?ms))"
  proof (cases "0 < ?T")
    case True
    show ?thesis
      using floor_shares_upper[OF True, of "map (user_stake (s_book s) rid) ?ms" ?d]
        floor_shares_lower[OF True, of "map (user_stake (s_book s) rid) ?ms" ?d] True
      unfolding sh by (auto simp: round_stake_def less_max_iff_disj)
  next
    case False
    then have T: "?T = 0" using round_stake_nonneg[OF assms(1), of rid] by simp
    then have "\<forall>u\<in>set ?ms. user_stake (s_book s) rid u = 0"
      using sum_list_nonneg_eq_0_iff[of "map (user_stake (s_book s) rid) ?ms"] nn by (auto simp: round_stake_def)
    then have "sum_list (map (\<lambda>u. user_stake (s_book s) rid u * int (get_insurance_coverage_bps s) div 10000) ?ms) = 0"
      by (intro sum_list_all_0) auto
    then have "?d = 0" using fund_nonneg[OF assms(2)] by (simp add: coverage_drawn_def)
    then show ?thesis by (simp add: coverage_share_0 sum_list_triv less_max_iff_disj)
  qed
  then show "sum_list (map (coverage_share s rid reason) ?ms) \<le> ?d"
    "?d < sum_list (map (coverage_share s rid reason) ?ms) + max 1 (int (length ?ms))" by blast+
qed

section \<open>Claims\<close>

lemma pay_out_Inr:
  assumes run: "pay_out e u s = Inr (x, s')" and m: "money_ok (s_money s)"
  shows "x = pending_of s u" "pending_of s' v = (if v = u then 0 else pending_of s v)"
    "balance s' v = balance s v + (if v = u then x else 0)" "held s' = held s" "money_ok (s_money s')"
    "s_book s' = s_book s" "s_config s' = s_config s"
proof -
  have nn: "0 \<le> pending_of s u" by (rule pending_nonneg[OF m])
  have rp: "money_ok (s_money (remove_pending u s))" by (rule money_ok_remove_pending[OF m])
  have "x = pending_of s u \<and> (pending_of s u = 0 \<and> s' = s \<or> pending_of s u \<noteq> 0 \<and>
     s' = emit (''claim'', ''winnings'') [VAddr u, VInt x, VInt (balance s u), VInt (balance s u + x)]
            (set_balance u (balance s u + x) (remove_pending u s)))"
    using run by (auto simp: pay_out_def Let_def and_then_Inr payout_add_Inr split: if_splits)
  then show "x = pending_of s u" "pending_of s' v = (if v = u then 0 else pending_of s v)"
    "balance s' v = balance s v + (if v = u then x else 0)" "held s' = held s" "money_ok (s_money s')"
    "s_book s' = s_book s" "s_config s' = s_config s"
    using held_set_balance[OF rp, of u "balance s u + x"] held_remove_pending[OF m, of u]
      money_ok_set_balance[OF rp, of "balance s u + x" u] balance_nonneg[OF m, of u] nn m
    by (auto simp: emit_def balance_def pending_of_def set_balance_def remove_pending_def held_def)
qed

end
