(* ===== verification/Round_Properties.thy ===== *)
theory Round_Properties
  imports Round_Closing
begin

text \<open>
  The properties of the end of a round: what a settlement pays, the fallback refund, the
  dispute window, the cancellation with insurance coverage, the claims, and the archive.
\<close>

section \<open>Settlement\<close>

text \<open>A round with two bettors of user 5 on Up and user 6 on Down, as the examples settle it.\<close>

definition two_bets :: store where
  "two_bets = (sample_store UpDown)\<lparr>s_book := (s_book (sample_store UpDown))\<lparr>
     b_active := Some ((sample_round UpDown)\<lparr>r_pool_up := 300, r_pool_down := 200\<rparr>),
     b_positions := [(1, 5) \<mapsto> \<lparr>pos_amount = 300, pos_side = Up\<rparr>, (1, 6) \<mapsto> \<lparr>pos_amount = 200, pos_side = Down\<rparr>],
     b_participants := [1 \<mapsto> [5, 6]]\<rparr>\<rparr>"

definition two_bets_round :: round where
  "two_bets_round = (sample_round UpDown)\<lparr>r_pool_up := 300, r_pool_down := 200\<rparr>"

lemma two_bets_book:
  "b_active (s_book two_bets) = Some two_bets_round" "members (s_book two_bets) 1 = [5, 6]"
  "b_positions (s_book two_bets) = [(1, 5) \<mapsto> \<lparr>pos_amount = 300, pos_side = Up\<rparr>, (1, 6) \<mapsto> \<lparr>pos_amount = 200, pos_side = Down\<rparr>]"
  "b_predictions (s_book two_bets) = Map.empty" "b_commitments (s_book two_bets) = Map.empty"
  "b_disputes (s_book two_bets) = Map.empty" "b_last_id (s_book two_bets) = Some 1"
  "b_start_ledgers (s_book two_bets) = [10 \<mapsto> 1]" "b_participants (s_book two_bets) = [1 \<mapsto> [5, 6]]"
  "r_id two_bets_round = 1" "r_mode two_bets_round = UpDown" "r_pool_up two_bets_round = 300" "r_pool_down two_bets_round = 200"
  "r_start_ledger two_bets_round = 10" "r_price_start two_bets_round = 100"
  by (simp_all add: two_bets_def two_bets_round_def sample_store_def sample_round_def empty_store_def members_def get_or_def)

lemma two_bets_round_ok: "round_ok (s_book two_bets) two_bets_round"
  by (auto simp: round_ok_def two_bets_book side_pool_def side_stake_def simp del: One_nat_def)

lemma two_bets_ok: "contract_ok two_bets"
proof -
  have "money_ok (s_money two_bets)" using sample_store_ok(1)[of UpDown] by (simp add: two_bets_def)
  moreover have "config_ok two_bets"
    by (simp add: two_bets_def sample_store_def empty_store_def config_ok_def in_range_def Let_def protocol_constants config_bounds)
  moreover have "stakes_ok (s_book two_bets)"
    by (auto simp: stakes_ok_def two_bets_book book_finite_def split: if_splits)
  moreover have "fresh_ids (s_book two_bets)" by (simp add: fresh_ids_def two_bets_book)
  moreover have "disputes_ok (s_book two_bets)" by (simp add: disputes_ok_def two_bets_book)
  moreover have "active_ok (s_book two_bets)" using two_bets_round_ok by (simp add: active_ok_def two_bets_book)
  ultimately show ?thesis by (simp add: contract_ok_def book_ok_def)
qed

lemma record_result_runs:
  assumes "lifetime_user_stats s u = no_stats" "season_user_stats s (current_season_id s) u = no_stats"
  shows "\<exists>s'. record_result w u s = Inr s'"
  using assms by (cases w)
    (simp_all add: record_result_def update_stats_win_def update_stats_loss_def update_season_stats_win_def update_season_stats_loss_def
      update_season_stats_def won_def lost_def no_stats_def uchecked_add_def u32_max_def update_leaderboards_def upd_board_def Let_def
      season_user_stats_def current_season_id_def)

lemma two_bets_run: "\<exists>s'. resolve_updown_mode (sample_env 30 60 []) two_bets_round 150 two_bets = Inr ((False, 0), s')"
proof -
  let ?e = "sample_env 30 60 []"
  have fresh: "lifetime_user_stats two_bets v = no_stats" "season_user_stats two_bets n v = no_stats" for v n
    by (simp_all add: two_bets_def sample_store_def empty_store_def lifetime_user_stats_def season_user_stats_def get_or_def)
  obtain s1 where s1: "accumulate_pending ?e 5 500 two_bets = Inr s1"
    by (simp add: accumulate_pending_def two_bets_def sample_store_def empty_store_def pending_of_def get_or_def payout_add_def checked_add_def in_i128_def)
  have b1: "s_board s1 = s_board two_bets" using s1 by (auto simp: accumulate_pending_Inr)
  obtain s2 where s2: "record_result True 5 s1 = Inr s2"
    using record_result_runs[of s1 5 True] fresh b1 by (auto simp: lifetime_user_stats_def season_user_stats_def current_season_id_def)
  let ?s3 = "emit (''outcome'', ''loss'') [VAddr 6, VNat 1, VNat 0, VInt 200, VNat 1, VNat 0] (persist_user_outcome 1 0 5 0 0 300 500 Win s2)"
  have "s_board ?s3 = s_board s2" by simp
  then have "lifetime_user_stats ?s3 6 = no_stats" "season_user_stats ?s3 n 6 = no_stats" for n
    using record_result_scores(1,2)[OF s2, of 6] fresh b1 by (simp_all add: lifetime_user_stats_def season_user_stats_def)
  then obtain s4 where s4: "record_result False 6 ?s3 = Inr s4"
    using record_result_runs[of ?s3 6 False] by blast
  have b2: "s_book s1 = s_book two_bets" "s_book s2 = s_book two_bets"
    using s1 record_result_Inr[OF s2] by (auto simp: accumulate_pending_Inr elim: record_result_Inr[OF s2])
  have "updown_step ?e 1 Up 300 500 5 two_bets = Inr (persist_user_outcome 1 0 5 0 0 300 500 Win s2)"
    using s1 s2 by (simp add: updown_step_def two_bets_book compute_updown_winner_payout_def payout_mul_def checked_mul_def
        in_i128_def checked_div_def record_result_def del: One_nat_def)
  moreover have "updown_step ?e 1 Up 300 500 6 (persist_user_outcome 1 0 5 0 0 300 500 Win s2) = Inr (persist_user_outcome 1 0 6 1 0 200 0 Loss s4)"
    using s4 b2 by (simp add: updown_step_def two_bets_book record_result_def del: One_nat_def)
  moreover have "c_fee_bps (s_config two_bets) = None" by (simp add: two_bets_def sample_store_def empty_store_def)
  ultimately show ?thesis
    by (simp add: resolve_updown_mode_def members_participants two_bets_book is_one_sided_pool_def classify_price_direction_def sort_addresses_def
     record_winnings_indexed_def apply_protocol_fee_updown_def calculate_protocol_fee_updown_def Let_def payout_add_def checked_add_def in_i128_def
       del: One_nat_def)
qed

lemma settlement_runs_two_bets:
  obtains s' where "complete_settlement (sample_env 30 60 []) two_bets_round 150 None two_bets = Inr ((0, 2), s')"
  using two_bets_run resolve_updown_Inr(1)[OF _ contract_okD(1,4,5)[OF two_bets_ok] two_bets_round_ok two_bets_book(11)]
  by (fastforce simp: complete_settlement_def two_bets_book members_participants Let_def simp del: One_nat_def)

lemma two_bets_no_money: "k_pending (s_money two_bets) = Map.empty"
  by (simp add: two_bets_def sample_store_def empty_store_def)

lemma two_bets_config: "s_config two_bets = s_config empty_store" "c_max_pending (s_config empty_store) = None"
  "c_min_participants (s_config empty_store) = None" "c_dispute_ledgers (s_config empty_store) = None"
  "c_fee_bps (s_config empty_store) = None"
  by (simp_all add: two_bets_def sample_store_def empty_store_def)

lemma two_bets_gates: "s_schema two_bets = Some 3" "s_mode two_bets = None" "s_admin two_bets = Some 1" "s_oracle two_bets = Some 2"
  by (simp_all add: two_bets_def sample_store_def empty_store_def)



text \<open>C7 A round with too few participants is refunded, not settled: whatever the price and whether or
  not a dispute window is configured, every participant is credited exactly the stake, no fee
  is taken, no value appears or disappears, and the round is closed for good.\<close>

theorem fallback_refunds_stakes:
  assumes "settle_round_with_price e r fp c s = Inr s'" "contract_ok s" "b_active (s_book s) = Some r"
    and "c_min_participants (s_config s) = Some least" "length (members (s_book s) (r_id r)) < least"
  shows "(\<forall>v. pending_of s' v = pending_of s v + user_stake (s_book s) (r_id r) v) \<and>
         k_balance (s_money s') = k_balance (s_money s) \<and> wealth s' = wealth s \<and> contract_ok s' \<and>
         b_active (s_book s') = None \<and> b_disputes (s_book s') (r_id r) = None \<and> members (s_book s') (r_id r) = []"
proof (rule settle_round_cases[OF assms(1-3)])
  note a = active_okD[OF contract_okD(2)[OF assms(2)] assms(3)]
  fix l
  assume f: "round_closed (r_id r) s s'" "held s' = held s + round_stake (s_book s) (r_id r)"
    "\<forall>v. pending_of s' v = pending_of s v + user_stake (s_book s) (r_id r) v" "b_active (s_book s') = None"
    "k_balance (s_money s') = k_balance (s_money s)"
  note c = round_closed_stake[OF f(1) assms(2) round_ok_distinct[OF a(1)]]
  have "b_disputes (s_book s') (r_id r) = None" using f(1) by (auto simp: round_closed_def)
  then show ?thesis using f c(1,3) round_closed_ok[OF f(1) assms(2)] by (simp add: wealth_def)
qed (use assms(4,5) in simp_all)

theorem fallback_refunds_stakes_witness:
  "let s = two_bets\<lparr>s_config := (s_config two_bets)\<lparr>c_min_participants := Some 3\<rparr>\<rparr>
   in \<exists>s'. settle_round_with_price (sample_env 30 60 []) two_bets_round 150 None s = Inr s' \<and>
        pending_of s' 5 = pending_of s 5 + 300 \<and> pending_of s' 6 = pending_of s 6 + 200 \<and> wealth s' = wealth s"
proof -
  let ?s = "two_bets\<lparr>s_config := (s_config two_bets)\<lparr>c_min_participants := Some 3\<rparr>\<rparr>"
  have ok: "contract_ok ?s"
    using two_bets_ok by (simp add: contract_ok_def config_ok_def in_range_def Let_def config_bounds)
  have act: "b_active (s_book ?s) = Some two_bets_round" by (simp add: two_bets_book)
  obtain s' where run: "settle_round_with_price (sample_env 30 60 []) two_bets_round 150 None ?s = Inr s'"
    by (simp add: settle_round_with_price_def members_participants two_bets_book refund_under_threshold_def refund_position_def
        accumulate_pending_def pending_of_def two_bets_no_money payout_add_def checked_add_def in_i128_def Let_def
        two_bets_config get_or_def del: One_nat_def)
  from fallback_refunds_stakes[OF run ok act, of 3]
  have "pending_of s' 5 = pending_of ?s 5 + 300 \<and> pending_of s' 6 = pending_of ?s 6 + 200 \<and> wealth s' = wealth ?s"
    by (simp add: two_bets_book user_stake_def position_stake_def precision_stake_def get_or_def del: One_nat_def)
  with run show ?thesis unfolding Let_def by blast
qed

text \<open>C6 The dispute window separates void from finalize.  Before its deadline anyone may void the staged
  result, which credits every participant exactly the stake and moves nothing else; from the
  deadline on anyone may finalize it, which pays what is due for the staged price; at one
  ledger never both, and after either of them neither can run again.\<close>

theorem dispute_window:
  assumes "contract_ok s"
  shows "(void_round e rid s = Inr s1 \<longrightarrow>
            (\<forall>v. pending_of s1 v = pending_of s v + user_stake (s_book s) rid v) \<and> wealth s1 = wealth s \<and>
            k_balance (s_money s1) = k_balance (s_money s) \<and> b_active (s_book s1) = b_active (s_book s) \<and> contract_ok s1 \<and>
            finalize_round e rid s \<noteq> Inr s2 \<and> void_round e' rid s1 \<noteq> Inr s3 \<and> finalize_round e' rid s1 \<noteq> Inr s3) \<and>
         (finalize_round e rid s = Inr s2 \<longrightarrow>
            (\<exists>pd fee due. b_disputes (s_book s) rid = Some pd \<and> pd_deadline pd \<le> e_ledger e \<and>
               settlement_due (read_precision_payout_policy s) (s_book s) (pd_round pd) (pd_final_price pd) fee due \<and>
               (\<forall>v. pending_of s2 v = pending_of s v + due v) \<and> protocol_funds s2 = protocol_funds s + fee) \<and>
            wealth s2 \<le> wealth s \<and> contract_ok s2 \<and> void_round e rid s \<noteq> Inr s1 \<and>
            void_round e' rid s2 \<noteq> Inr s3 \<and> finalize_round e' rid s2 \<noteq> Inr s3)"
proof (intro conjI impI)
  assume v: "void_round e rid s = Inr s1"
  obtain pd where pd: "b_disputes (s_book s) rid = Some pd" "e_ledger e < pd_deadline pd" and c: "round_closed rid s s1"
    and m: "held s1 = held s + round_stake (s_book s) rid" "\<forall>v. pending_of s1 v = pending_of s v + user_stake (s_book s) rid v"
      "k_balance (s_money s1) = k_balance (s_money s)" "b_active (s_book s1) = b_active (s_book s)" "b_disputes (s_book s1) rid = None"
    by (rule void_round_Inr[OF v assms])
  note d = disputes_okD[OF contract_okD(2)[OF assms] pd(1)]
  note st = round_closed_stake[OF c assms round_ok_distinct[OF d(1), unfolded d(2)]]
  show "\<forall>v. pending_of s1 v = pending_of s v + user_stake (s_book s) rid v" "k_balance (s_money s1) = k_balance (s_money s)"
    "b_active (s_book s1) = b_active (s_book s)" by (rule m)+
  show "wealth s1 = wealth s" using m(1) st(1) by (simp add: wealth_def)
  show "contract_ok s1" by (rule round_closed_ok[OF c assms])
  show "finalize_round e rid s \<noteq> Inr s2" using pd by (auto simp: finalize_round_def and_then_Inr)
  show "void_round e' rid s1 \<noteq> Inr s3" "finalize_round e' rid s1 \<noteq> Inr s3"
    using m(5) by (auto simp: void_round_def finalize_round_def and_then_Inr)
next
  assume f: "finalize_round e rid s = Inr s2"
  obtain pd fee due where pd: "b_disputes (s_book s) rid = Some pd" "pd_deadline pd \<le> e_ledger e" and c: "round_closed rid s s2"
    and m: "r_id (pd_round pd) = rid"
      "settlement_due (read_precision_payout_policy s) (s_book s) (pd_round pd) (pd_final_price pd) fee due"
      "\<forall>v. pending_of s2 v = pending_of s v + due v" "protocol_funds s2 = protocol_funds s + fee"
      "held s2 \<le> held s + round_stake (s_book s) rid" "b_disputes (s_book s2) = (b_disputes (s_book s))(rid := None)"
    by (rule finalize_round_Inr[OF f assms])
  note d = disputes_okD[OF contract_okD(2)[OF assms] pd(1)]
  note st = round_closed_stake[OF c assms round_ok_distinct[OF d(1), unfolded d(2)]]
  show "\<exists>pd fee due. b_disputes (s_book s) rid = Some pd \<and> pd_deadline pd \<le> e_ledger e \<and>
      settlement_due (read_precision_payout_policy s) (s_book s) (pd_round pd) (pd_final_price pd) fee due \<and>
      (\<forall>v. pending_of s2 v = pending_of s v + due v) \<and> protocol_funds s2 = protocol_funds s + fee"
    using pd m by blast
  show "wealth s2 \<le> wealth s" using m(5) st(1) by (simp add: wealth_def)
  show "contract_ok s2" by (rule round_closed_ok[OF c assms])
  show "void_round e rid s \<noteq> Inr s1" using pd by (auto simp: void_round_def and_then_Inr)
  show "void_round e' rid s2 \<noteq> Inr s3" "finalize_round e' rid s2 \<noteq> Inr s3"
    using m(6) by (auto simp: void_round_def finalize_round_def and_then_Inr)
qed

text \<open>The same round staged for dispute until ledger 40, with a round 2 open or not.\<close>

definition staged_bets :: "round option \<Rightarrow> store" where
  "staged_bets newer = two_bets\<lparr>s_book := (s_book two_bets)\<lparr>b_active := newer, b_last_id := Some 2,
     b_start_ledgers := [10 \<mapsto> 1, 31 \<mapsto> 2],
     b_disputes := [1 \<mapsto> \<lparr>pd_round = two_bets_round, pd_final_price = 100, pd_confidence = None, pd_resolved_at = 30, pd_deadline = 40\<rparr>]\<rparr>\<rparr>"

definition newer_round :: round where
  "newer_round = (sample_round UpDown)\<lparr>r_id := 2, r_start_ledger := 31\<rparr>"

lemma staged_bets_ok: "newer = None \<or> newer = Some newer_round \<Longrightarrow> contract_ok (staged_bets newer)"
proof -
  assume newer: "newer = None \<or> newer = Some newer_round"
  let ?s = "staged_bets newer"
  have same: "same_at rid (s_book two_bets) (s_book ?s)" for rid by (simp add: same_at_def staged_bets_def members_def)
  note t = two_bets_ok[unfolded contract_ok_def]
  have "stakes_ok (s_book ?s)" using book_okD(1)[OF conjunct1[OF conjunct2[OF t]]] by (simp add: stakes_ok_def book_finite_def staged_bets_def)
  moreover have "fresh_ids (s_book ?s)" by (simp add: fresh_ids_def two_bets_book staged_bets_def)
  moreover have "disputes_ok (s_book ?s)"
    using round_ok_same[OF same] two_bets_round_ok by (auto simp: disputes_ok_def staged_bets_def two_bets_book split: if_splits)
  moreover have "active_ok (s_book ?s)"
    using newer by (auto simp: active_ok_def staged_bets_def newer_round_def sample_round_def round_ok_def two_bets_book side_pool_def members_def get_or_def)
  ultimately show ?thesis using t by (simp add: contract_ok_def book_ok_def staged_bets_def config_ok_def)
qed

lemma staged_fields:
  "members (s_book (staged_bets newer)) 1 = [5, 6]" "b_positions (s_book (staged_bets newer)) = b_positions (s_book two_bets)"
  "b_disputes (s_book (staged_bets newer)) = [1 \<mapsto> \<lparr>pd_round = two_bets_round, pd_final_price = 100, pd_confidence = None,
     pd_resolved_at = 30, pd_deadline = 40\<rparr>]"
  "s_config (staged_bets newer) = s_config empty_store" "k_pending (s_money (staged_bets newer)) = Map.empty"
  "s_schema (staged_bets newer) = Some 3" "s_mode (staged_bets newer) = None"
  using two_bets_book(2)
  by (simp_all add: staged_bets_def two_bets_book two_bets_config two_bets_no_money two_bets_gates members_def)

lemma staged_bets_runs:
  "\<exists>s'. void_round (sample_env 35 60 []) 1 (staged_bets newer) = Inr s'"
  "\<exists>s'. finalize_round (sample_env 40 60 []) 1 (staged_bets newer) = Inr s'"
  by (simp_all add: void_round_def finalize_round_def complete_settlement_def gate_simps ensure_not_paused_def members_participants
      staged_fields two_bets_book CURRENT_SCHEMA_VERSION_def void_refund_def refund_position_def accumulate_pending_def pending_of_def
      two_bets_config payout_add_def get_or_def resolve_updown_mode_def is_one_sided_pool_def classify_price_direction_def
      sort_addresses_def record_refunds_indexed_def sample_env_def Let_def del: One_nat_def)

theorem dispute_window_witness:
  "\<exists>s1 s2. void_round (sample_env 35 60 []) 1 (staged_bets None) = Inr s1 \<and> wealth s1 = wealth (staged_bets None) \<and>
     finalize_round (sample_env 40 60 []) 1 (staged_bets None) = Inr s2 \<and> void_round (sample_env 35 60 []) 1 s2 \<noteq> Inr s1"
proof -
  have ok: "contract_ok (staged_bets None)" by (rule staged_bets_ok) simp
  obtain s1 s2 where run: "void_round (sample_env 35 60 []) 1 (staged_bets None) = Inr s1"
    "finalize_round (sample_env 40 60 []) 1 (staged_bets None) = Inr s2" using staged_bets_runs by blast
  have "wealth s1 = wealth (staged_bets None)" using dispute_window[OF ok] run(1) by blast
  moreover have "void_round (sample_env 35 60 []) 1 s2 \<noteq> Inr s1" using dispute_window[OF ok] run(2) by blast
  ultimately show ?thesis using run by blast
qed

text \<open>C32 Finalizing an old round destroys a newer active one.  The settlement removes the active
  round whatever its id, so when a new round is open at that moment, it disappears while the
  positions in it stay: they can neither be settled nor cancelled nor voided any more, and
  their stakes are stuck in the book.\<close>

theorem finalize_strands_newer_round:
  assumes "finalize_round e rid s = Inr s'" "contract_ok s" "b_active (s_book s) = Some newer"
  shows "r_id newer \<noteq> rid \<and> b_active (s_book s') = None \<and> b_disputes (s_book s') (r_id newer) = None \<and>
         (\<forall>u. user_stake (s_book s') (r_id newer) u = user_stake (s_book s) (r_id newer) u) \<and>
         members (s_book s') (r_id newer) = members (s_book s) (r_id newer) \<and>
         cancel_round e' reason s' \<noteq> Inr t \<and> void_round e' (r_id newer) s' \<noteq> Inr t \<and> finalize_round e' (r_id newer) s' \<noteq> Inr t"
proof -
  obtain pd where pd: "b_disputes (s_book s) rid = Some pd" and c: "round_closed rid s s'" and a: "b_active (s_book s') = None"
    and d: "b_disputes (s_book s') = (b_disputes (s_book s))(rid := None)"
    by (rule finalize_round_Inr[OF assms(1,2)])
  note ac = active_okD[OF contract_okD(2)[OF assms(2)] assms(3)]
  have ne: "r_id newer \<noteq> rid" using ac(2) pd by auto
  obtain x y where b: "s_book s' = (close_book rid (members (s_book s) rid) (s_book s))\<lparr>b_active := x, b_disputes := y\<rparr>"
    using c by (auto simp: round_closed_def)
  have "user_stake (s_book s') (r_id newer) u = user_stake (s_book s) (r_id newer) u" for u
    using ne by (simp add: b user_stake_def position_stake_def precision_stake_def get_or_def close_book_def clear_keys_other cong: option.case_cong)
  moreover have "members (s_book s') (r_id newer) = members (s_book s) (r_id newer)"
    using ne by (simp add: b members_def close_book_def get_or_def)
  ultimately show ?thesis
    using ne a d ac(2) by (auto simp: cancel_round_def void_round_def finalize_round_def and_then_Inr)
qed

theorem finalize_strands_newer_round_witness:
  "\<exists>s'. finalize_round (sample_env 40 60 []) 1 (staged_bets (Some newer_round)) = Inr s' \<and> b_active (s_book s') = None"
proof -
  have ok: "contract_ok (staged_bets (Some newer_round))" by (rule staged_bets_ok) simp
  obtain s' where run: "finalize_round (sample_env 40 60 []) 1 (staged_bets (Some newer_round)) = Inr s'" using staged_bets_runs by blast
  have "b_active (s_book (staged_bets (Some newer_round))) = Some newer_round" by (simp add: staged_bets_def)
  from finalize_strands_newer_round[OF run ok this] run show ?thesis by blast
qed

section \<open>Cancellation and claims\<close>

lemma total_of_member: "finite (dom m) \<Longrightarrow> (\<And>k. 0 \<le> get_or m 0 k) \<Longrightarrow> get_or m 0 k \<le> total_of (m :: 'a \<rightharpoonup> int)"
proof -
  assume fin: "finite (dom m)" and nn: "\<And>k. 0 \<le> get_or m 0 k"
  have "0 \<le> total_of (m(k := None))"
    by (rule total_of_nonneg) (metis fun_upd_apply get_or_def nn option.distinct(1) option.simps(5))
  then show "get_or m 0 k \<le> total_of m" using total_of_del[OF fin, of k] by simp
qed

text \<open>C8 A cancellation gives every participant of the active round exactly the stake back, and in
  addition a floored share of the insurance coverage when the reason is eligible; the
  coverage is drawn from the fund, at most what the fund holds.  The shares never exceed
  what was drawn, but less than one unit per participant of it is lost: it leaves the fund
  and reaches nobody.  The round is flagged cancelled, no round is active afterwards, and
  no balance moves.\<close>

theorem cancel_refunds_and_covers:
  assumes "cancel_round e reason s = Inr s'" "contract_ok s" "b_active (s_book s) = Some r"
    and "in_i128 (round_stake (s_book s) (r_id r))"
  shows "let rid = r_id r; drawn = coverage_drawn s rid reason; share = coverage_share s rid reason;
             lost = drawn - sum_list (map share (members (s_book s) rid)) in
         (\<forall>v. pending_of s' v = pending_of s v + user_stake (s_book s) rid v + share v) \<and>
         get_insurance_fund_balance s' = get_insurance_fund_balance s - drawn \<and> 0 \<le> drawn \<and>
         drawn \<le> get_insurance_fund_balance s \<and> wealth s' = wealth s - lost \<and>
         0 \<le> lost \<and> lost < max 1 (int (length (members (s_book s) rid))) \<and>
         k_balance (s_money s') = k_balance (s_money s) \<and> is_round_cancelled s' rid \<and>
         b_active (s_book s') = None \<and> contract_ok s'"
proof -
  note c = cancel_round_Inr[OF assms] and a = active_okD[OF contract_okD(2)[OF assms(2)] assms(3)]
  note st = round_closed_stake[OF c(1) assms(2) round_ok_distinct[OF a(1)]]
  note d = coverage_within_drawn[OF contract_okD(5,1)[OF assms(2)], of "r_id r" reason]
  have "coverage_drawn s (r_id r) reason \<le> get_insurance_fund_balance s"
    using fund_nonneg[OF contract_okD(1)[OF assms(2)]] by (simp add: coverage_drawn_def)
  then show ?thesis
    using c(2-7) st(1) d round_closed_ok[OF c(1) assms(2)] by (simp add: Let_def wealth_def)
qed

theorem cancel_refunds_and_covers_witness:
  "let s = two_bets\<lparr>s_money := (s_money two_bets)\<lparr>k_fund := Some 31\<rparr>, s_ins := \<lparr>i_split_bps = None, i_coverage_bps = Some 1000, i_events = Some [0]\<rparr>\<rparr>
   in \<exists>s'. cancel_round (sample_env 13 60 [1]) 1 s = Inr s' \<and> pending_of s' 5 = 318 \<and> pending_of s' 6 = 212 \<and>
        get_insurance_fund_balance s' = 0 \<and> wealth s' = wealth s - 1"
proof -
  let ?s = "two_bets\<lparr>s_money := (s_money two_bets)\<lparr>k_fund := Some 31\<rparr>, s_ins := \<lparr>i_split_bps = None, i_coverage_bps = Some 1000, i_events = Some [0]\<rparr>\<rparr>"
  have ok: "contract_ok ?s" using two_bets_ok by (simp add: contract_ok_def money_ok_def config_ok_def)
  have act: "b_active (s_book ?s) = Some two_bets_round" by (simp add: two_bets_book)
  obtain s' where run: "cancel_round (sample_env 13 60 [1]) 1 ?s = Inr s'"
    by (simp add: cancel_round_def gate_simps admin_auth_def members_participants two_bets_book two_bets_gates CURRENT_SCHEMA_VERSION_def
        cancel_refund_def refund_position_def accumulate_pending_def pending_of_def two_bets_no_money two_bets_config payout_add_def get_or_def
        pay_coverage_def coverage_total_def calculate_coverage_amount_def deduct_insurance_coverage_def cover_participant_def
        is_coverage_eligible_def is_eligible_event_def get_insurance_eligible_events_def get_insurance_coverage_bps_def get_insurance_fund_balance_def
        checked_mul_def checked_div_def BPS_DENOMINATOR_def sample_env_def Let_def del: One_nat_def)
  have us: "user_stake (s_book ?s) 1 5 = 300" "user_stake (s_book ?s) 1 6 = 200"
    by (simp_all add: two_bets_book user_stake_def position_stake_def precision_stake_def get_or_def del: One_nat_def)
  have rs: "round_stake (s_book ?s) 1 = 500" using us by (simp add: round_stake_def two_bets_book del: One_nat_def)
  have dr: "coverage_drawn ?s 1 1 = 31"
    using us by (simp add: coverage_drawn_def two_bets_book is_coverage_eligible_def is_eligible_event_def get_insurance_eligible_events_def
        get_insurance_coverage_bps_def get_insurance_fund_balance_def del: One_nat_def)
  have sh: "coverage_share ?s 1 1 5 = 18" "coverage_share ?s 1 1 6 = 12" using us rs dr by (simp_all add: coverage_share_def del: One_nat_def)
  have p: "pending_of ?s v = 0" for v by (simp add: pending_of_def two_bets_no_money get_or_def)
  have range: "in_i128 (round_stake (s_book ?s) (r_id two_bets_round))" using rs by (simp add: two_bets_book in_i128_def del: One_nat_def)
  from cancel_refunds_and_covers[OF run ok act range]
  have "pending_of s' 5 = 318" "pending_of s' 6 = 212" "get_insurance_fund_balance s' = get_insurance_fund_balance ?s - 31" "wealth s' = wealth ?s - 1"
    using dr sh us p by (simp_all add: two_bets_book Let_def del: One_nat_def)
  with run show ?thesis unfolding Let_def by (auto simp: get_insurance_fund_balance_def)
qed

text \<open>Pending winnings are paid out exactly once, and nobody can hold them back.  A user who signs
  can always claim while the contract is not fully paused, as long as the contract's holdings
  fit an i128; the claim moves exactly the pending amount into the balance, touches no other
  user, keeps the wealth, and a second claim pays nothing and changes nothing.\<close>

theorem claim_pays_once:
  assumes "contract_ok s" "in_i128 (held s)"
    and "e_auth e u" "current_mode s \<noteq> FullyPaused" "require_supported_schema s = Inr v"
  shows "\<exists>s'. claim_winnings e u s = Inr (pending_of s u, s') \<and> balance s' u = balance s u + pending_of s u \<and>
           pending_of s' u = 0 \<and> (\<forall>w. w \<noteq> u \<longrightarrow> balance s' w = balance s w \<and> pending_of s' w = pending_of s w) \<and>
           wealth s' = wealth s \<and> contract_ok s' \<and> claim_winnings e u s' = Inr (0, s')"
proof -
  note m = contract_okD(1)[OF assms(1)]
  have bal: "0 \<le> balance s u" "0 \<le> pending_of s u" by (rule balance_nonneg[OF m], rule pending_nonneg[OF m])
  have "balance s u + pending_of s u \<le> held s"
    using total_of_member[of "k_balance (s_money s)" u] total_of_member[of "k_pending (s_money s)" u] m
    by (auto simp: held_def balance_def pending_of_def money_ok_def)
  then have "in_i128 (balance s u + pending_of s u)" using bal assms(2) by (auto simp: in_i128_def)
  then obtain s' where run: "pay_out e u s = Inr (pending_of s u, s')"
    by (cases "pending_of s u = 0") (auto simp: pay_out_def payout_add_def checked_add_def Let_def)
  note p = pay_out_Inr[OF run m]
  have same: "s_mode s' = s_mode s" "s_schema s' = s_schema s"
    using run by (auto simp: pay_out_def Let_def and_then_Inr payout_add_Inr remove_pending_def emit_def split: if_splits)
  have claim: "claim_winnings e u s = Inr (pending_of s u, s')"
    using run assms(3-5) by (simp add: claim_winnings_def require_auth_def ensure_not_paused_def policy_gate_def)
  have "claim_winnings e u s' = Inr (0, s')"
    using p(2)[of u] same assms(3-5)
    by (simp add: claim_winnings_def require_auth_def ensure_not_paused_def policy_gate_def pay_out_def current_mode_def
        require_supported_schema_def schema_version_def)
  moreover have "contract_ok s'" using assms(1) p(5,6,7) config_ok_cong[OF p(7)] by (simp add: contract_ok_def)
  moreover have "wealth s' = wealth s" using p(4) at_stake_cong[OF p(6)] by (simp add: wealth_def)
  ultimately show ?thesis using claim p(2,3) by auto
qed

theorem claim_pays_once_witness:
  "let s = two_bets\<lparr>s_money := (s_money two_bets)\<lparr>k_pending := [5 \<mapsto> 80]\<rparr>\<rparr>
   in \<exists>s'. claim_winnings (sample_env 30 60 [5]) 5 s = Inr (80, s') \<and> balance s' 5 = 1080 \<and> pending_of s' 5 = 0"
proof -
  let ?s = "two_bets\<lparr>s_money := (s_money two_bets)\<lparr>k_pending := [5 \<mapsto> 80]\<rparr>\<rparr>"
  have bal: "k_balance (s_money two_bets) = [5 \<mapsto> 1000, 6 \<mapsto> 1000]" "k_treasury (s_money two_bets) = None" "k_fund (s_money two_bets) = None"
    by (simp_all add: two_bets_def sample_store_def empty_store_def)
  have ok: "contract_ok ?s" using two_bets_ok by (simp add: contract_ok_def money_ok_def config_ok_def get_or_def)
  have "total_of [5::address \<mapsto> 1000, 6 \<mapsto> 1000::int] = 2000" "total_of [5::address \<mapsto> 80::int] = 80"
    by (simp_all add: total_of_upd get_or_def)
  then have range: "in_i128 (held ?s)" by (simp add: held_def bal treasury_value_def in_i128_def)
  have gates: "e_auth (sample_env 30 60 [5]) 5" "current_mode ?s \<noteq> FullyPaused" "require_supported_schema ?s = Inr 3"
    by (simp_all add: sample_env_def current_mode_def require_supported_schema_def schema_version_def two_bets_gates CURRENT_SCHEMA_VERSION_def)
  have "pending_of ?s 5 = 80" "balance ?s 5 = 1000" by (simp_all add: pending_of_def balance_def bal get_or_def)
  with claim_pays_once[OF ok range gates] show ?thesis unfolding Let_def by auto
qed

fun claim_each :: "env \<Rightarrow> address list \<Rightarrow> store \<Rightarrow> (int list \<times> store) res" where
  "claim_each e [] s = Inr ([], s)"
| "claim_each e (u # us) s =
     and_then (claim_winnings e u s) (\<lambda>(x, s1). and_then (claim_each e us s1) (\<lambda>(xs, s2). Inr (x # xs, s2)))"

text \<open>A batch claim is exactly the sequence of its single claims: for at most fifty distinct users
  it succeeds if and only if each single claim in order does, with the same amounts, the same
  final store and the same error; a larger batch or a repeated user is refused before anything
  is paid.\<close>

theorem claim_many_is_sequence:
  assumes "require_supported_schema s = Inr v" "ensure_not_paused s = Inr ()"
  shows "claim_many e us s =
    (if length us > 50 then Inl (Fail ClaimBatchTooLarge)
     else if \<not> distinct us then Inl (Fail DuplicateClaimAddress)
     else claim_each e us s)"
proof -
  have adj: "sorted xs \<Longrightarrow> adjacent_equal xs \<longleftrightarrow> \<not> distinct xs" for xs :: "address list"
    by (induction xs rule: adjacent_equal.induct) (auto dest: order.antisym)
  have "pay_out_all e us xs t = and_then (claim_each e us t) (\<lambda>(ys, t'). Inr (xs @ ys, t'))"
    if "require_supported_schema t = Inr v" "ensure_not_paused t = Inr ()" for us xs t
    using that
  proof (induction us arbitrary: xs t)
    case (Cons u us)
    have keep: "require_supported_schema t1 = Inr v \<and> ensure_not_paused t1 = Inr ()" if "pay_out e u t = Inr (x, t1)" for x t1
    proof -
      have "s_mode t1 = s_mode t" "s_schema t1 = s_schema t"
        using that by (auto simp: pay_out_def Let_def and_then_Inr payout_add_Inr remove_pending_def emit_def set_balance_def split: if_splits)
      then show ?thesis using Cons.prems
        by (simp add: require_supported_schema_def schema_version_def ensure_not_paused_def policy_gate_def current_mode_def)
    qed
    show ?case
    proof (cases "require_auth e u")
      case (Inr x)
      show ?thesis
      proof (cases "pay_out e u t")
        case p: (Inr q)
        obtain x t1 where q: "q = (x, t1)" by (cases q)
        have k: "require_supported_schema t1 = Inr v" "ensure_not_paused t1 = Inr ()" using keep p q by blast+
        show ?thesis using Inr p q Cons.prems Cons.IH[OF k, of "xs @ [x]"]
          by (cases "claim_each e us t1") (auto simp: claim_winnings_def)
      qed (use Inr Cons.prems in \<open>simp add: claim_winnings_def\<close>)
    qed (use Cons.prems in \<open>simp add: claim_winnings_def\<close>)
  qed simp
  from this[OF assms, of us "[]"] have "pay_out_all e us [] s = claim_each e us s"
    by (cases "claim_each e us s") auto
  moreover have "adjacent_equal (sort_addresses us) \<longleftrightarrow> \<not> distinct us"
  proof -
    have "sorted (sort_addresses us)" by (cases us; cases "tl us") (auto simp: sort_addresses_def sorted_insort)
    from adj[OF this] show ?thesis by simp
  qed
  ultimately show ?thesis using assms by (simp add: claim_many_def MAX_CLAIM_BATCH_SIZE_def)
qed

theorem claim_many_is_sequence_witness:
  "claim_many (sample_env 30 60 [5]) [5, 5] two_bets = Inl (Fail DuplicateClaimAddress) \<and>
   claim_many (sample_env 30 60 [5]) [5] two_bets = Inr ([0], two_bets)"
proof -
  have gates: "require_supported_schema two_bets = Inr 3" "ensure_not_paused two_bets = Inr ()"
    by (simp_all add: ensure_not_paused_def policy_gate_def current_mode_def require_supported_schema_def schema_version_def
        two_bets_gates CURRENT_SCHEMA_VERSION_def)
  show ?thesis
    using claim_many_is_sequence[OF gates] gates
    by (simp add: claim_winnings_def pay_out_def pending_of_def two_bets_no_money get_or_def require_auth_def sample_env_def)
qed

section \<open>The archive\<close>

text \<open>The archive index never grows beyond the retention limit, but its prune loop drops two ids
  where it removes one round: once the index is full, archiving a round drops the two oldest
  ids and deletes the summary of the oldest only.  The other one's summary stays in storage
  with no id in the index, so no later prune can ever reach it.\<close>

theorem archive_drops_two:
  shows "let s' = archive_round e r st fp us fee c s;
             limit = unwrap_or (c_archive_retention (s_config s)) DEFAULT_ARCHIVE_RETENTION
         in length (unwrap_or (h_recent (s_history s')) []) \<le> limit \<and>
            (h_recent (s_history s) = Some (x # y # zs) \<and> length (x # y # zs) = limit \<and> distinct (x # y # zs @ [r_id r]) \<longrightarrow>
               h_recent (s_history s') = Some (zs @ [r_id r]) \<and> h_archived (s_history s') x = None \<and>
               h_archived (s_history s') y = h_archived (s_history s) y \<and> h_archived (s_history s') (r_id r) \<noteq> None)"
proof -
  have len: "length (fst (prune_archive limit recent t)) \<le> limit" for limit recent t
    by (induction limit recent t rule: prune_archive.induct) auto
  have keeps: "s_config (fold (index_round rid) us t) = s_config t \<and> h_archived (s_history (fold (index_round rid) us t)) = h_archived (s_history t) \<and>
      h_recent (s_history (fold (index_round rid) us t)) = h_recent (s_history t)" for rid t
    by (induction us arbitrary: t) (simp_all add: index_round_def)
  have stop: "length xs \<le> limit \<Longrightarrow> prune_archive limit xs t = (xs, t)" for xs limit t by (cases xs) simp_all
  show ?thesis
    by (auto simp: archive_round_def Let_def case_prod_unfold len keeps stop)
qed

theorem archive_drops_two_witness:
  "\<forall>x y. let s = two_bets\<lparr>s_config := (s_config two_bets)\<lparr>c_archive_retention := Some 2\<rparr>,
         s_history := (s_history two_bets)\<lparr>h_recent := Some [7, 8], h_archived := [7 \<mapsto> x, 8 \<mapsto> y]\<rparr>\<rparr>;
       s' = archive_round (sample_env 30 60 []) two_bets_round Resolved 150 [5, 6] 0 None s
   in h_recent (s_history s') = Some [1] \<and> h_archived (s_history s') 7 = None \<and> h_archived (s_history s') 8 = Some y"
  (is "\<forall>x y. ?P x y")
proof (intro allI)
  fix x y :: archived_round
  let ?s = "two_bets\<lparr>s_config := (s_config two_bets)\<lparr>c_archive_retention := Some 2\<rparr>,
     s_history := (s_history two_bets)\<lparr>h_recent := Some [7, 8], h_archived := [7 \<mapsto> x, 8 \<mapsto> y]\<rparr>\<rparr>"
  show "?P x y"
    using archive_drops_two[of "sample_env 30 60 []" two_bets_round Resolved 150 "[5, 6]" 0 None ?s 7 8 "[]"]
    by (simp add: two_bets_book Let_def del: One_nat_def)
qed

end
