(* ===== verification/Control_Frame.thy ===== *)
theory Control_Frame
  imports Settlement
begin

text \<open>
  Settling, refunding, cancelling and claiming move money, positions, history and rankings;
  they leave alone what controls the contract: admin and oracle, runtime mode, schema,
  configuration, the oracle's and the insurance's settings, access lists, mint counters and
  governance.
\<close>

definition same_control :: "store \<Rightarrow> store \<Rightarrow> bool" where
  "same_control s s' \<longleftrightarrow> s_admin s' = s_admin s \<and> s_oracle s' = s_oracle s \<and> s_mode s' = s_mode s \<and>
     s_schema s' = s_schema s \<and> s_config s' = s_config s \<and> s_orc s' = s_orc s \<and> s_ins s' = s_ins s \<and>
     s_access s' = s_access s \<and> s_mint s' = s_mint s \<and> s_gov s' = s_gov s"

named_theorems control_steps \<open>steps that keep the control records\<close>

lemma same_control_refl [control_steps, simp]: "same_control s s"
  by (simp add: same_control_def)

lemma same_control_trans: "same_control s t \<Longrightarrow> same_control t u \<Longrightarrow> same_control s u"
  by (simp add: same_control_def)

lemma same_control_updates [control_steps]:
  "same_control s t \<Longrightarrow> same_control s (emit x d t)"
  "same_control s t \<Longrightarrow> same_control s (persist_user_outcome a b c d' f g h i t)"
  "same_control s t \<Longrightarrow> same_control s (set_balance u v t)"
  "same_control s t \<Longrightarrow> same_control s (remove_pending u t)"
  "same_control s t \<Longrightarrow> same_control s (set_fund w t)"
  "same_control s t \<Longrightarrow> same_control s (set_treasury y t)"
  "same_control s t \<Longrightarrow> same_control s (upd_board fb t)"
  "same_control s t \<Longrightarrow> same_control s (upd_book fk t)"
  "same_control s t \<Longrightarrow> same_control s (upd_history fh t)"
  "same_control s t \<Longrightarrow> same_control s (remove_active_round t)"
  "same_control s t \<Longrightarrow> same_control s (remove_participants rid t)"
  "same_control s t \<Longrightarrow> same_control s (t\<lparr>s_money := m\<rparr>)"
  by (simp_all add: same_control_def set_balance_def remove_pending_def set_fund_def set_treasury_def upd_board_def
      remove_active_round_def remove_participants_def)

lemma same_control_archive [control_steps]: "same_control s t \<Longrightarrow> same_control s (archive_round e r st fp us fee c t)"
  using archive_same[of t e r st fp us fee c] by (simp add: same_control_def same_but_history_def)

lemma same_control_clear [control_steps]:
  "same_control s t \<Longrightarrow> same_control s (clear_dispute_round_storage rid us t)"
  "same_control s t \<Longrightarrow> same_control s (clear_round_storage rid us t)"
  by (simp_all add: clear_dispute_book clear_round_book control_steps)

lemma accumulate_control: "accumulate_pending e u x t = Inr t' \<Longrightarrow> same_control t t'"
  by (auto simp: accumulate_pending_Inr intro: control_steps)

lemma stats_control:
  "update_stats_win u t = Inr t' \<Longrightarrow> same_control t t'"
  "update_stats_loss u t = Inr t' \<Longrightarrow> same_control t t'"
  by (auto simp: update_stats_win_def update_stats_loss_def update_season_stats_win_def update_season_stats_loss_def
      update_season_stats_def and_then_Inr Let_def update_leaderboards_def update_season_leaderboards_def intro!: control_steps)

lemma stats_from_emit:
  "update_stats_loss u (emit x d t) = Inr t' \<Longrightarrow> same_control t t'"
  "update_stats_loss u (emit x d (emit y f t)) = Inr t' \<Longrightarrow> same_control t t'"
  using stats_control(2) by (fastforce simp: same_control_def)+

lemma collect_control: "collect_protocol_fee rid x bps model t = Inr t' \<Longrightarrow> same_control t t'"
  by (auto simp: collect_protocol_fee_def collect_insurance_fee_def and_then_Inr Let_def split: if_splits intro!: control_steps)

lemma fee_control:
  "apply_protocol_fee_updown rid w l t = Inr (x, t') \<Longrightarrow> same_control t t'"
  "apply_protocol_fee_precision rid pot ws t = Inr (y, t') \<Longrightarrow> same_control t t'"
  by (auto simp: apply_protocol_fee_updown_def apply_protocol_fee_precision_def and_then_Inr Let_def split: if_splits
      intro: collect_control)

lemma loop_control:
  assumes "\<And>x t t'. f x t = Inr t' \<Longrightarrow> same_control t t'" "fold_res f xs t = Inr t'"
  shows "same_control t t'"
  by (rule fold_res_rel[where f = f and xs = xs and R = same_control]) (use assms same_control_trans in auto)

text \<open>One step of each loop.\<close>

lemma win_control: "accumulate_pending e u x t = Inr t1 \<Longrightarrow> update_stats_win u t1 = Inr t' \<Longrightarrow> same_control t t'"
  using accumulate_control stats_control(1) same_control_trans by blast

lemma step_control:
  "refund_position e rid mode outcome u t = Inr t' \<Longrightarrow> same_control t t'"
  "refund_entry e rid price outcome u x t = Inr t' \<Longrightarrow> same_control t t'"
  "updown_step e rid side pool d u t = Inr t' \<Longrightarrow> same_control t t'"
  "pay_winner e rid skip c t = Inr t' \<Longrightarrow> same_control t t'"
  "note_loser rid sc iu t = Inr t' \<Longrightarrow> same_control t t'"
  "cover_participant e d tot stakes iu t = Inr t' \<Longrightarrow> same_control t t'"
  by (auto simp: refund_position_def refund_entry_def updown_step_def pay_winner_def note_loser_def cover_participant_def
      and_then_Inr Let_def split: option.splits if_splits prod.splits
      intro!: same_control_updates(2) intro: accumulate_control win_control stats_from_emit)

lemma known_refund_control:
  "(case z of (idx, user) \<Rightarrow> refund_entry e rid price outcome user (stake idx)) t = Inr t' \<Longrightarrow> same_control t t'"
  by (cases z) (auto intro: step_control(2))

lemma refunds_control: "fold_res (refund_position e rid mode outcome) us t = Inr t' \<Longrightarrow> same_control t t'"
  by (rule loop_control[rotated], assumption) (rule step_control)

lemma loops_control:
  "fold_res (pay_winner e rid skip) cs t = Inr t' \<Longrightarrow> same_control t t'"
  "fold_res (note_loser rid sc) ns t = Inr t' \<Longrightarrow> same_control t t'"
  "fold_res (\<lambda>user t. refund_entry e rid price outcome user (precision_amount t rid user) t) us t = Inr t' \<Longrightarrow> same_control t t'"
  by ((rule loop_control[rotated], assumption), rule step_control, assumption)+

lemma updown_control:
  assumes "record_winnings_indexed e rid us side w l t = Inr (x, t')"
  shows "same_control t t'"
proof -
  from assms consider "t' = t" | y t1 d where "apply_protocol_fee_updown rid w l t = Inr (y, t1)" "fold_res (updown_step e rid side w d) us t1 = Inr t'"
    by (auto simp: record_winnings_indexed_def and_then_Inr split: if_splits prod.splits)
  then show ?thesis
  proof cases
    case 2
    have "same_control t1 t'" using 2(2) by (rule loop_control[rotated]) (rule step_control)
    with fee_control(1)[OF 2(1)] show ?thesis using same_control_trans by blast
  qed simp
qed

lemma resolve_updown_control: "resolve_updown_mode e r fp t = Inr (x, t') \<Longrightarrow> same_control t t'"
  by (auto simp: resolve_updown_mode_def apply_one_sided_policy_def record_refunds_indexed_def and_then_Inr Let_def
      split: if_splits price_direction.splits prod.splits
      intro!: same_control_updates(1) intro: refunds_control updown_control)

lemma resolve_precision_control:
  assumes "resolve_precision_mode e rid fp False t = Inr (x, t')"
  shows "same_control t t'"
proof -
  let ?us = "sort_addresses (participants_of t rid)"
  from assms consider "t' = t" | sc where "fold_res (\<lambda>(idx, user). refund_entry e rid 0 Refund user (stake_at sc idx)) (enumerate 0 ?us) t = Inr t'"
    | sc ws y t1 cs t2 where "apply_protocol_fee_precision rid (sc_pot sc) ws t = Inr (y, t1)"
      "fold_res (pay_winner e rid False) cs t1 = Inr t2" "fold_res (note_loser rid sc) (enumerate 0 ?us) t2 = Inr t'"
    by (auto simp: resolve_precision_mode_def and_then_Inr Let_def split: if_splits prod.splits)
  then show ?thesis
  proof cases
    case 2
    then show ?thesis by (rule loop_control[rotated]) (rule known_refund_control)
  next
    case 3
    show ?thesis
      using fee_control(2)[OF 3(1)] loops_control(1)[OF 3(2)] loops_control(2)[OF 3(3)] same_control_trans by blast
  qed simp
qed

lemma complete_control:
  assumes "complete_settlement e r fp c t = Inr (x, t')"
  shows "same_control t t'"
proof (cases "r_mode r")
  case UpDown
  with assms show ?thesis
    by (auto simp: complete_settlement_def and_then_Inr Let_def intro!: control_steps dest: resolve_updown_control)
next
  case Precision
  with assms show ?thesis
    by (auto simp: complete_settlement_def and_then_Inr Let_def intro!: control_steps dest: resolve_precision_control)
qed

lemma refund_under_control:
  assumes "refund_under_threshold e r us t = Inr t'"
  shows "same_control t t'"
proof -
  obtain u where u: "same_control t u" "t' = clear_round_storage (r_id r) us u"
  proof (cases "r_mode r")
    case UpDown
    with assms obtain u where "fold_res (refund_position e (r_id r) 0 Refund) us t = Inr u" "t' = clear_round_storage (r_id r) us u"
      by (auto simp: refund_under_threshold_def and_then_Inr clear_round_storage_def)
    then show thesis using that refunds_control by blast
  next
    case Precision
    with assms obtain u where "fold_res (\<lambda>user t. refund_entry e (r_id r) 0 Refund user (precision_amount t (r_id r) user) t) us t = Inr u"
      "t' = clear_round_storage (r_id r) us u"
      by (auto simp: refund_under_threshold_def and_then_Inr clear_round_storage_def)
    then show thesis using that loops_control(3) by blast
  qed
  then show ?thesis by (simp add: control_steps)
qed

lemma settle_control:
  assumes "settle_round_with_price e r fp c t = Inr t'"
  shows "same_control t t'"
proof -
  have stage: "stage_or_complete e r fp c t = Inr t' \<Longrightarrow> same_control t t'"
    by (auto simp: stage_or_complete_def and_then_Inr Let_def write_pending_dispute_def split: if_splits
        intro!: same_control_updates dest: complete_control)
  from assms consider "stage_or_complete e r fp c t = Inr t'"
    | us u x d where "refund_under_threshold e r us (archive_round e r FallbackRefund fp us 0 c t) = Inr u" "t' = emit x d u"
    by (auto simp: settle_round_with_price_def and_then_Inr Let_def split: option.splits if_splits)
  then show ?thesis
  proof cases
    case 2
    have "same_control t (archive_round e r FallbackRefund fp us 0 c t)" by (simp add: control_steps)
    then have "same_control t u" using refund_under_control[OF 2(1)] same_control_trans by blast
    then show ?thesis by (simp add: 2(2) control_steps)
  qed (rule stage)
qed

end
