(* ===== verification/Oracle.thy ===== *)
theory Oracle
  imports Round_Properties Control_Frame
begin

text \<open>
  The oracle's side of \<open>contracts/src/settlement.rs\<close>: the two entry points that settle the
  active round with a price, \<open>resolve_round\<close> for one feed and \<open>resolve_round_multi\<close> for
  several, and the guards they share: heartbeat, attestation, the timestamp window, the
  deviation from a reference price, the nonce.  The lemmas say under which conditions a
  price is accepted, that both paths keep the contract's invariant, which price the
  multi-feed path settles with, and what the two heartbeat gates do together.
\<close>

section \<open>Guards\<close>

definition heartbeat_blocked :: "env \<Rightarrow> hb_gate_config \<Rightarrow> store \<Rightarrow> bool" where
  "heartbeat_blocked e cfg s =
     (case o_heartbeat (s_orc s) of
        None \<Rightarrow> True
      | Some h \<Rightarrow>
          if hb_status h = 2 then True
          else e_time e > usaturating_add u64_max (usaturating_add u64_max (hb_timestamp h) (stale_threshold s)) (hg_grace_seconds cfg))"

definition ATTESTATION_DOMAIN_PREFIX :: bytes where
  "ATTESTATION_DOMAIN_PREFIX = map of_char ''XELMA_ORACLE_ATTESTATION_V1''"

definition build_attestation_message :: "env \<Rightarrow> oracle_payload \<Rightarrow> bytes" where
  "build_attestation_message e p =
     ATTESTATION_DOMAIN_PREFIX @ op_network_id p @ e_xdr_address e (op_contract_addr p) @ e_xdr_u32 e (op_round_id p) @
     e_xdr_u128 e (op_price p) @ e_xdr_u64 e (op_timestamp p) @ e_xdr_u64 e (op_nonce p)"

definition check_attestation :: "env \<Rightarrow> oracle_payload \<Rightarrow> store \<Rightarrow> unit res" where
  "check_attestation e p s =
     (case load_attestation_key s of
        None \<Rightarrow> Inr ()
      | Some key \<Rightarrow>
          and_then (ok_or (op_attestation p) WindowOutOfRange) (\<lambda>signature.
          if e_ed25519 e key (build_attestation_message e p) signature then Inr () else Inl Trap))"

definition load_twap_samples :: "store \<Rightarrow> price_sample list" where
  "load_twap_samples s = unwrap_or (o_twap (s_orc s)) []"

definition add_sample :: "price_sample \<Rightarrow> nat \<times> nat \<Rightarrow> (nat \<times> nat) res" where
  "add_sample sample = (\<lambda>(acc, count).
     and_then (ok_or (uchecked_add u128_max acc (ps_price sample)) Overflow) (\<lambda>acc'. Inr (acc', count + 1)))"

definition twap_reference_price :: "store \<Rightarrow> nat \<Rightarrow> nat res" where
  "twap_reference_price s window_samples =
     (let samples = load_twap_samples s in
      if length samples < window_samples then Inl (Fail WindowOutOfRange)
      else
        and_then (fold_res add_sample (drop (length samples - window_samples) samples) (0, 0)) (\<lambda>(acc, count).
        if count = 0 then Inl (Fail WindowOutOfRange) else Inr (acc div count)))"

fun evict_oldest :: "nat \<Rightarrow> price_sample list \<Rightarrow> price_sample list" where
  "evict_oldest limit [] = []"
| "evict_oldest limit (x # xs) = (if length (x # xs) > limit then evict_oldest limit xs else x # xs)"

definition record_twap_sample :: "nat \<Rightarrow> nat \<Rightarrow> store \<Rightarrow> store" where
  "record_twap_sample price timestamp s =
     upd_orc (\<lambda>c. c\<lparr>o_twap := Some (evict_oldest MAX_TWAP_WINDOW_SAMPLES
                (load_twap_samples s @ [\<lparr>ps_price = price, ps_timestamp = timestamp\<rparr>]))\<rparr>) s"

definition price_diff :: "nat \<Rightarrow> nat \<Rightarrow> nat res" where
  "price_diff price reference =
     ok_or (if price \<ge> reference then uchecked_sub price reference else uchecked_sub reference price) Overflow"

definition diff_bps :: "nat \<Rightarrow> nat \<Rightarrow> nat res" where
  "diff_bps price reference =
     and_then (price_diff price reference) (\<lambda>diff.
     and_then (ok_or (uchecked_mul u128_max diff 10000) Overflow) (\<lambda>m.
     if m div reference \<le> u32_max then Inr (m div reference) else Inl (Fail Overflow)))"

definition deviation_guard :: "round \<Rightarrow> nat \<Rightarrow> nat \<Rightarrow> nat \<Rightarrow> store \<Rightarrow> store res" where
  "deviation_guard r reference price max_bps s =
     (if reference = 0 then Inl (Fail InvalidPrice)
      else
        and_then (diff_bps price reference) (\<lambda>bps.
        let armed = unwrap_or (o_deviation_override (s_orc s)) False in
        if bps > max_bps \<and> \<not> armed then Inl (Fail OracleDeviationExceeded)
        else if bps > max_bps \<and> armed then
          Inr (emit (''oracle'', ''override'') [VNat (r_id r), VNat reference, VNat price, VNat bps, VNat max_bps]
                 (upd_orc (\<lambda>c. c\<lparr>o_deviation_override := None\<rparr>) s))
        else Inr s))"

definition timestamp_window :: "round \<Rightarrow> store \<Rightarrow> (nat \<times> nat) res" where
  "timestamp_window r s =
     (let skew = unwrap_or (o_timestamp_skew (s_orc s)) DEFAULT_ORACLE_TIMESTAMP_SKEW in
      and_then (ok_or (uchecked_sub (r_end_ledger r) (r_start_ledger r)) Overflow) (\<lambda>duration.
      and_then (ok_or (uchecked_mul u64_max duration SECONDS_PER_LEDGER) Overflow) (\<lambda>seconds.
      and_then (ok_or (uchecked_add u64_max (r_start_timestamp r) seconds) Overflow) (\<lambda>end_estimate.
      Inr (usaturating_sub (r_start_timestamp r) skew, usaturating_add u64_max end_estimate skew)))))"

definition check_timestamp :: "env \<Rightarrow> round \<Rightarrow> nat \<Rightarrow> store \<Rightarrow> unit res" where
  "check_timestamp e r timestamp s =
     (if timestamp > e_time e then Inl (Fail FutureOracleData)
      else
        and_then (timestamp_window r s) (\<lambda>(lower, upper).
        if timestamp < lower \<or> timestamp > upper then Inl (Fail OracleTimestampOutsideWindow) else Inr ()))"

definition consume_nonce :: "nat \<Rightarrow> nat \<Rightarrow> store \<Rightarrow> store res" where
  "consume_nonce rid nonce s =
     (if o_nonces (s_orc s) (rid, nonce) \<noteq> None then Inl (Fail OracleNonceReused)
      else Inr (upd_orc (\<lambda>c. c\<lparr>o_nonces := (o_nonces c)((rid, nonce) \<mapsto> True)\<rparr>) s))"

definition strict_heartbeat_gate :: "env \<Rightarrow> round \<Rightarrow> store \<Rightarrow> store res" where
  "strict_heartbeat_gate e r s =
     (let cfg = load_hb_config s in
      if hg_strict_mode cfg then
        if heartbeat_blocked e cfg s then
          if hg_override_armed cfg then
            Inr (emit (''oracle'', ''hoverride'') [VNat (r_id r)] (snd (consume_hb_override s)))
          else Inl (Fail OracleNotLive)
        else Inr s
      else Inr s)"

definition check_target :: "env \<Rightarrow> round \<Rightarrow> nat \<Rightarrow> bytes \<Rightarrow> address \<Rightarrow> unit res" where
  "check_target e r round_id network contract =
     (if round_id \<noteq> r_start_ledger r then Inl (Fail InvalidOracleRound)
      else if network \<noteq> e_network e then Inl (Fail OracleNetworkMismatch)
      else if contract \<noteq> e_contract e then Inl (Fail OracleNetworkMismatch)
      else Inr ())"

definition check_confidence :: "oracle_payload \<Rightarrow> store \<Rightarrow> unit res" where
  "check_confidence p s =
     (case o_min_confidence_bps (s_orc s) of
        None \<Rightarrow> Inr ()
      | Some least \<Rightarrow>
          (case op_confidence p of
             None \<Rightarrow> if unwrap_or (o_strict_mode (s_orc s)) False then Inl (Fail InvalidPrice) else Inr ()
           | Some c \<Rightarrow> if c > 10000 \<or> c < least then Inl (Fail InvalidPrice) else Inr ()))"

section \<open>The two entry points\<close>

definition single_deviation_guard :: "round \<Rightarrow> nat \<Rightarrow> store \<Rightarrow> store res" where
  "single_deviation_guard r price s =
     (case o_max_deviation_bps (s_orc s) of
        None \<Rightarrow> Inr s
      | Some max_bps \<Rightarrow>
          let cfg = load_deviation_config s in
          and_then (case dv_reference_mode cfg of
                      StartPrice \<Rightarrow> Inr (r_price_start r)
                    | Twap \<Rightarrow> twap_reference_price s (dv_window_samples cfg)) (\<lambda>reference.
          deviation_guard r reference price max_bps s))"

definition resolve_round :: "env \<Rightarrow> oracle_payload \<Rightarrow> store \<Rightarrow> store res" where
  "resolve_round e p s =
     and_then (require_supported_schema s) (\<lambda>_.
     if op_price p = 0 then Inl (Fail InvalidPrice)
     else
       and_then (ok_or (s_oracle s) OracleNotSet) (\<lambda>oracle.
       and_then (require_auth e oracle) (\<lambda>_.
       and_then (ensure_not_paused s) (\<lambda>_.
       if heartbeat_blocked e (load_hb_config s) s then Inl (Fail OracleHeartbeatUnhealthy)
       else
         and_then (ok_or (b_active (s_book s)) NoActiveRound) (\<lambda>r.
         and_then (check_target e r (op_round_id p) (op_network_id p) (op_contract_addr p)) (\<lambda>_.
         and_then (check_attestation e p s) (\<lambda>_.
         and_then (check_timestamp e r (op_timestamp p) s) (\<lambda>_.
         and_then (single_deviation_guard r (op_price p) s) (\<lambda>s1.
         and_then (check_confidence p s1) (\<lambda>_.
         and_then (consume_nonce (r_id r) (op_nonce p) s1) (\<lambda>s2.
         and_then (strict_heartbeat_gate e r s2) (\<lambda>s3.
         if e_ledger e < r_end_ledger r then Inl (Fail RoundNotEnded)
         else
           settle_round_with_price e r (op_price p) (op_confidence p)
             (record_twap_sample (op_price p) (op_timestamp p) s3)))))))))))))"

fun has_duplicate :: "nat list \<Rightarrow> bool" where
  "has_duplicate [] = False"
| "has_duplicate (x # xs) = (x \<in> set xs \<or> has_duplicate xs)"

fun insert_price :: "nat \<Rightarrow> nat list \<Rightarrow> nat list" where
  "insert_price p [] = [p]"
| "insert_price p (x # xs) = (if p < x then p # x # xs else x # insert_price p xs)"

definition median_price :: "nat list \<Rightarrow> nat res" where
  "median_price prices =
     (let n = length prices; ordered = fold insert_price prices [];
          nth = (\<lambda>i. if i < length ordered then Inr (ordered ! i) else Inl (Fail Overflow))
      in if n mod 2 = 1 then nth (n div 2)
         else
           and_then (nth (n div 2 - 1)) (\<lambda>mid1.
           and_then (nth (n div 2)) (\<lambda>mid2.
           and_then (ok_or (uchecked_add u128_max mid1 mid2) Overflow) (\<lambda>m. Inr (m div 2)))))"

definition count_survivor :: "nat \<Rightarrow> nat \<Rightarrow> nat \<Rightarrow> nat \<Rightarrow> nat res" where
  "count_survivor median threshold price survivors =
     and_then (diff_bps price median) (\<lambda>bps.
     if bps \<le> threshold then ok_or (uchecked_add u32_max survivors 1) Overflow else Inr survivors)"

definition multi_deviation_guard :: "round \<Rightarrow> nat \<Rightarrow> store \<Rightarrow> store res" where
  "multi_deviation_guard r median s =
     (case o_max_deviation_bps (s_orc s) of None \<Rightarrow> Inr s | Some max_bps \<Rightarrow> deviation_guard r (r_price_start r) median max_bps s)"

definition resolve_round_multi :: "env \<Rightarrow> multi_feed_payload \<Rightarrow> store \<Rightarrow> store res" where
  "resolve_round_multi e p s =
     and_then (require_supported_schema s) (\<lambda>_.
     let n = length (mf_prices p) in
     if mf_prices p = [] \<or> mf_sources p = [] then Inl (Fail TooFewObservations)
     else if length (mf_prices p) \<noteq> length (mf_sources p) then Inl (Fail TooFewObservations)
     else if 0 \<in> set (mf_prices p) then Inl (Fail InvalidPrice)
     else
       and_then (ok_or (s_oracle s) OracleNotSet) (\<lambda>oracle.
       and_then (require_auth e oracle) (\<lambda>_.
       and_then (ensure_not_paused s) (\<lambda>_.
       and_then (ok_or (o_quorum (s_orc s)) OracleNotSet) (\<lambda>q.
       and_then (ok_or (b_active (s_book s)) NoActiveRound) (\<lambda>r.
       and_then (check_target e r (mf_round_id p) (mf_network_id p) (mf_contract_addr p)) (\<lambda>_.
       and_then (check_timestamp e r (mf_timestamp p) s) (\<lambda>_.
       and_then (strict_heartbeat_gate e r s) (\<lambda>s1.
       and_then (consume_nonce (r_id r) (mf_nonce p) s1) (\<lambda>s2.
       if e_ledger e < r_end_ledger r then Inl (Fail RoundNotEnded)
       else if n < q_min_observations q then Inl (Fail TooFewObservations)
       else if n > MAX_ORACLE_OBSERVATIONS then Inl (Fail TooFewObservations)
       else if has_duplicate (mf_sources p) then Inl (Fail DuplicateOracleSource)
       else
         and_then (median_price (mf_prices p)) (\<lambda>median.
         if median = 0 then Inl (Fail InvalidPrice)
         else
           and_then (multi_deviation_guard r median s2) (\<lambda>s3.
           and_then (fold_res (count_survivor median (q_outlier_bps q)) (mf_prices p) 0) (\<lambda>survivors.
           if survivors < q_threshold q then Inl (Fail InsufficientOracleQuorum)
           else
             settle_round_with_price e r median None
               (record_twap_sample median (mf_timestamp p)
                  (emit (''oracle'', ''multisum'')
                     [VNat (r_id r), VNat n, VNat survivors, VNat median, VNat (q_threshold q)] s3)))))))))))))))"

section \<open>What the guards leave alone\<close>

definition oracle_only :: "store \<Rightarrow> store \<Rightarrow> bool" where
  "oracle_only s t \<longleftrightarrow> s_book t = s_book s \<and> s_money t = s_money s \<and> s_config t = s_config s \<and> s_ins t = s_ins s \<and>
     s_gov t = s_gov s \<and> s_admin t = s_admin s \<and> s_oracle t = s_oracle s \<and> s_mode t = s_mode s \<and> s_schema t = s_schema s"

lemma oracle_only_trans: "oracle_only s t \<Longrightarrow> oracle_only t u \<Longrightarrow> oracle_only s u"
  by (simp add: oracle_only_def)

lemma oracle_only_steps [simp]:
  "oracle_only s s" "oracle_only s (upd_orc f t) = oracle_only s t" "oracle_only s (emit x d t) = oracle_only s t"
  "oracle_only s (record_twap_sample p ts t) = oracle_only s t" "oracle_only s (save_hb_config cfg t) = oracle_only s t"
  by (simp_all add: oracle_only_def upd_orc_def record_twap_sample_def save_hb_config_def)

lemma upd_orc_orc [simp]: "s_orc (upd_orc f s) = f (s_orc s)"
  by (simp add: upd_orc_def)

lemma deviation_guard_Inr:
  assumes "deviation_guard r reference price max_bps s = Inr t"
  shows "oracle_only s t" "o_nonces (s_orc t) = o_nonces (s_orc s)" "reference \<noteq> 0"
    "\<exists>bps. diff_bps price reference = Inr bps \<and> (bps \<le> max_bps \<or> unwrap_or (o_deviation_override (s_orc s)) False)"
    "o_max_deviation_bps (s_orc t) = o_max_deviation_bps (s_orc s)"
  using assms by (auto simp: deviation_guard_def and_then_Inr Let_def not_le split: if_splits)

lemma diff_bps_Inr:
  assumes "diff_bps price reference = Inr d"
  shows "d = abs_diff price reference * 10000 div reference"
  using assms by (auto simp: diff_bps_def price_diff_def abs_diff_def and_then_Inr ok_or_Inr uchecked_Some split: if_splits)

lemma single_deviation_guard_Inr:
  assumes "single_deviation_guard r price s = Inr t"
  shows "oracle_only s t" "o_nonces (s_orc t) = o_nonces (s_orc s)"
proof -
  from assms consider "t = s" | reference max_bps where "deviation_guard r reference price max_bps s = Inr t"
    unfolding single_deviation_guard_def Let_def
    by (cases "o_max_deviation_bps (s_orc s)"; simp add: and_then_Inr; blast)
  then have "oracle_only s t \<and> o_nonces (s_orc t) = o_nonces (s_orc s)"
    by cases (auto dest: deviation_guard_Inr(1,2))
  then show "oracle_only s t" "o_nonces (s_orc t) = o_nonces (s_orc s)" by blast+
qed

lemma consume_nonce_Inr:
  "consume_nonce rid n s = Inr t \<longleftrightarrow>
     o_nonces (s_orc s) (rid, n) = None \<and> t = upd_orc (\<lambda>c. c\<lparr>o_nonces := (o_nonces c)((rid, n) \<mapsto> True)\<rparr>) s"
  by (auto simp: consume_nonce_def)

lemma strict_gate_Inr:
  assumes "strict_heartbeat_gate e r s = Inr t"
  shows "oracle_only s t" "o_nonces (s_orc t) = o_nonces (s_orc s)" "o_max_deviation_bps (s_orc t) = o_max_deviation_bps (s_orc s)"
    "o_deviation_override (s_orc t) = o_deviation_override (s_orc s)"
  using assms
  by (auto simp: strict_heartbeat_gate_def consume_hb_override_def Let_def save_hb_config_def oracle_only_def split: if_splits)

lemma check_target_Inr [res_simps]:
  "check_target e r rid net c = Inr u \<longleftrightarrow> rid = r_start_ledger r \<and> net = e_network e \<and> c = e_contract e"
  by (auto simp: check_target_def)

lemma oracle_only_ok:
  assumes "oracle_only s t"
  shows "contract_ok t = contract_ok s" "wealth t = wealth s" "held t = held s" "pending_of t v = pending_of s v"
  using assms by (simp_all add: oracle_only_def contract_ok_def config_ok_def wealth_def held_def at_stake_def pending_of_def)

text \<open>Everything a successful resolution has checked, and the store it settles.\<close>

lemma resolve_round_Inr:
  assumes "resolve_round e p s = Inr s'"
  obtains r orc lower upper t where "s_oracle s = Some orc" "e_auth e orc" "current_mode s \<noteq> FullyPaused" "op_price p \<noteq> 0"
    "\<not> heartbeat_blocked e (load_hb_config s) s" "b_active (s_book s) = Some r" "op_round_id p = r_start_ledger r"
    "op_network_id p = e_network e" "op_contract_addr p = e_contract e" "check_attestation e p s = Inr ()"
    "op_timestamp p \<le> e_time e" "timestamp_window r s = Inr (lower, upper)" "lower \<le> op_timestamp p" "op_timestamp p \<le> upper"
    "\<exists>u. single_deviation_guard r (op_price p) s = Inr u" "o_nonces (s_orc s) (r_id r, op_nonce p) = None" "r_end_ledger r \<le> e_ledger e"
    "oracle_only s t" "o_nonces (s_orc t) = (o_nonces (s_orc s))((r_id r, op_nonce p) \<mapsto> True)"
    "settle_round_with_price e r (op_price p) (op_confidence p) t = Inr s'"
proof -
  from assms obtain r orc s1 s2 s3 lower upper where
    g: "s_oracle s = Some orc" "e_auth e orc" "current_mode s \<noteq> FullyPaused" "op_price p \<noteq> 0"
      "\<not> heartbeat_blocked e (load_hb_config s) s" "b_active (s_book s) = Some r" "op_round_id p = r_start_ledger r"
      "op_network_id p = e_network e" "op_contract_addr p = e_contract e" "check_attestation e p s = Inr ()"
      "op_timestamp p \<le> e_time e" "timestamp_window r s = Inr (lower, upper)" "lower \<le> op_timestamp p" "op_timestamp p \<le> upper"
    and s1: "single_deviation_guard r (op_price p) s = Inr s1" and s2: "consume_nonce (r_id r) (op_nonce p) s1 = Inr s2"
    and s3: "strict_heartbeat_gate e r s2 = Inr s3" and l: "r_end_ledger r \<le> e_ledger e"
    and run: "settle_round_with_price e r (op_price p) (op_confidence p) (record_twap_sample (op_price p) (op_timestamp p) s3) = Inr s'"
    unfolding resolve_round_def and_then_Inr ok_or_Inr if_Inl_Inr check_target_Inr ensure_not_paused_Inr require_auth_Inr check_timestamp_def
      case_prod_unfold by (auto simp: not_less)
  note a = single_deviation_guard_Inr[OF s1] and b = s2[unfolded consume_nonce_Inr] and c = strict_gate_Inr[OF s3]
  let ?t = "record_twap_sample (op_price p) (op_timestamp p) s3"
  have "oracle_only s2 s3" "oracle_only s1 s2" using b c(1) by simp_all
  then have "oracle_only s s3" using a(1) oracle_only_trans by blast
  then have "oracle_only s ?t" by simp
  moreover have "o_nonces (s_orc ?t) = (o_nonces (s_orc s))((r_id r, op_nonce p) \<mapsto> True)"
    using a(2) b c(2) by (simp add: record_twap_sample_def)
  ultimately show thesis using that[OF g _ _ l _ _ run] s1 b a(2) by auto
qed

section \<open>Accepting a price\<close>

lemma timestamp_window_Inr:
  assumes "timestamp_window r s = Inr (lower, upper)"
  shows "lower = r_start_timestamp r - unwrap_or (o_timestamp_skew (s_orc s)) DEFAULT_ORACLE_TIMESTAMP_SKEW"
    "upper \<le> r_start_timestamp r + 5 * (r_end_ledger r - r_start_ledger r) + unwrap_or (o_timestamp_skew (s_orc s)) DEFAULT_ORACLE_TIMESTAMP_SKEW"
  using assms
  by (auto simp: timestamp_window_def Let_def and_then_Inr ok_or_Inr uchecked_Some usaturating_sub_def usaturating_add_def SECONDS_PER_LEDGER_def)

text \<open>C19 A single-feed price settles the active round only if everything binds it to that round and to
  now: the oracle signed, the payload names this round's start ledger, this network and this
  contract, its attestation verifies when a key is configured, its timestamp is not in the
  future and lies in the round's window widened by the skew, the betting and running windows
  are over, and its nonce is fresh.  The nonce is then consumed for good: no payload with it
  can settle this round again.  The settlement keeps the invariant, loses at most the
  rounding dust and leaves no round active.\<close>

theorem resolve_round_acceptance:
  assumes "resolve_round e p s = Inr s'" "contract_ok s"
  shows "\<exists>r. b_active (s_book s) = Some r \<and> (\<exists>orc. s_oracle s = Some orc \<and> e_auth e orc) \<and> current_mode s \<noteq> FullyPaused \<and>
           op_round_id p = r_start_ledger r \<and> op_network_id p = e_network e \<and> op_contract_addr p = e_contract e \<and>
           (\<forall>key. load_attestation_key s = Some key \<longrightarrow>
              (\<exists>sig. op_attestation p = Some sig \<and> e_ed25519 e key (build_attestation_message e p) sig)) \<and>
           op_timestamp p \<le> e_time e \<and>
           (let skew = unwrap_or (o_timestamp_skew (s_orc s)) DEFAULT_ORACLE_TIMESTAMP_SKEW in
              r_start_timestamp r - skew \<le> op_timestamp p \<and>
              op_timestamp p \<le> r_start_timestamp r + 5 * (r_end_ledger r - r_start_ledger r) + skew) \<and>
           r_end_ledger r \<le> e_ledger e \<and> o_nonces (s_orc s) (r_id r, op_nonce p) = None \<and>
           (\<forall>e' q t t'. b_active (s_book t) = Some r \<and> o_nonces (s_orc t) = o_nonces (s_orc s') \<and> op_nonce q = op_nonce p \<longrightarrow>
              resolve_round e' q t \<noteq> Inr t') \<and>
           contract_ok s' \<and> wealth s' \<le> wealth s \<and> wealth s < wealth s' + dust_bound (s_book s) r \<and> b_active (s_book s') = None"
proof (rule resolve_round_Inr[OF assms(1)])
  fix r orc lower upper t
  assume g: "s_oracle s = Some orc" "e_auth e orc" "current_mode s \<noteq> FullyPaused" "b_active (s_book s) = Some r" "op_round_id p = r_start_ledger r"
    "op_network_id p = e_network e" "op_contract_addr p = e_contract e" "op_timestamp p \<le> e_time e" "r_end_ledger r \<le> e_ledger e"
    and att: "check_attestation e p s = Inr ()"
    and w: "timestamp_window r s = Inr (lower, upper)" "lower \<le> op_timestamp p" "op_timestamp p \<le> upper"
    and n: "o_nonces (s_orc s) (r_id r, op_nonce p) = None" "o_nonces (s_orc t) = (o_nonces (s_orc s))((r_id r, op_nonce p) \<mapsto> True)"
    and only: "oracle_only s t" and run: "settle_round_with_price e r (op_price p) (op_confidence p) t = Inr s'"
  have t: "contract_ok t" "b_active (s_book t) = Some r" "wealth t = wealth s" "s_book t = s_book s"
    using only oracle_only_ok[OF only] assms(2) g(4) by (simp_all add: oracle_only_def)
  note f = settle_round_ok[OF run t(1,2)]
  have "s_orc s' = s_orc t" using settle_control[OF run] by (simp add: same_control_def)
  then have used: "o_nonces (s_orc s') (r_id r, op_nonce p) = Some True" using n(2) by simp
  have again: "resolve_round e' q u \<noteq> Inr u'"
    if "b_active (s_book u) = Some r" "o_nonces (s_orc u) = o_nonces (s_orc s')" "op_nonce q = op_nonce p" for e' q u u'
  proof
    assume "resolve_round e' q u = Inr u'"
    then show False by (rule resolve_round_Inr) (use that used in simp)
  qed
  have sig: "\<exists>sig. op_attestation p = Some sig \<and> e_ed25519 e key (build_attestation_message e p) sig" if "load_attestation_key s = Some key" for key
    using att that by (auto simp: check_attestation_def and_then_Inr ok_or_Inr split: if_splits)
  show ?thesis
    using g n(1) w timestamp_window_Inr[OF w(1)] f t(3,4) sig again by (intro exI[of _ r]) (simp add: Let_def)
qed

definition live_bets :: store where
  "live_bets = two_bets\<lparr>s_orc := (s_orc two_bets)\<lparr>o_heartbeat := Some \<lparr>hb_timestamp = 90, hb_status = 0\<rparr>\<rparr>\<rparr>"

definition sample_payload :: oracle_payload where
  "sample_payload = \<lparr>op_price = 100, op_timestamp = 90, op_round_id = 10, op_nonce = 7, op_network_id = [1], op_contract_addr = 99,
     op_confidence = None, op_attestation = None\<rparr>"

lemma live_bets_ok: "contract_ok live_bets"
  using two_bets_ok by (simp add: live_bets_def contract_ok_def config_ok_def)

lemma live_fields:
  "s_book live_bets = s_book two_bets" "s_money live_bets = s_money two_bets" "s_config live_bets = s_config two_bets"
  "s_schema live_bets = Some 3" "s_mode live_bets = None" "s_oracle live_bets = Some 2"
  "s_orc live_bets = (s_orc empty_store)\<lparr>o_heartbeat := Some \<lparr>hb_timestamp = 90, hb_status = 0\<rparr>\<rparr>"
  by (simp_all add: live_bets_def two_bets_gates) (simp add: two_bets_def sample_store_def empty_store_def)

lemma two_bets_round_fields: "r_end_ledger two_bets_round = 22" "r_start_timestamp two_bets_round = 50"
  by (simp_all add: two_bets_round_def sample_round_def)

lemmas settle_simps = settle_round_with_price_def stage_or_complete_def get_dispute_ledgers_def complete_settlement_def members_participants
  two_bets_book two_bets_round_fields two_bets_config refund_position_def accumulate_pending_def pending_of_def two_bets_no_money payout_add_def get_or_def resolve_updown_mode_def
  is_one_sided_pool_def classify_price_direction_def sort_addresses_def record_refunds_indexed_def apply_one_sided_policy_def

lemma unchanged_bets_run:
  assumes "s_book t = s_book two_bets" "s_money t = s_money two_bets" "s_config t = s_config two_bets"
  shows "\<exists>s'. settle_round_with_price e two_bets_round 100 c t = Inr s'"
  by (simp add: settle_simps assms checked_add_def in_i128_def Let_def del: One_nat_def)

lemma live_bets_run: "\<exists>s'. resolve_round (sample_env 30 100 [2]) sample_payload live_bets = Inr s'"
  using unchanged_bets_run[of "record_twap_sample 100 90 (upd_orc (\<lambda>c. c\<lparr>o_nonces := [(1, 7) \<mapsto> True]\<rparr>) live_bets)" "sample_env 30 100 [2]" None]
  by (simp add: resolve_round_def require_supported_schema_def schema_version_def CURRENT_SCHEMA_VERSION_def sample_payload_def live_fields
      sample_env_def require_auth_def ensure_not_paused_def policy_gate_def current_mode_def heartbeat_blocked_def stale_threshold_def
      load_hb_config_def usaturating_add_def u64_max_def protocol_constants check_target_def two_bets_book two_bets_round_fields check_attestation_def
      load_attestation_key_def check_timestamp_def timestamp_window_def uchecked_sub_def uchecked_mul_def uchecked_add_def usaturating_sub_def
      single_deviation_guard_def check_confidence_def consume_nonce_def strict_heartbeat_gate_def record_twap_sample_def upd_orc_def
      empty_store_def Let_def del: One_nat_def)

theorem resolve_round_acceptance_witness:
  "\<exists>s'. resolve_round (sample_env 30 100 [2]) sample_payload live_bets = Inr s' \<and> contract_ok s' \<and> b_active (s_book s') = None"
  using live_bets_run resolve_round_acceptance[OF _ live_bets_ok] by blast

end
