(* ===== verification/Oracle_Properties.thy ===== *)
theory Oracle_Properties
  imports Oracle
begin

text \<open>
  The remaining properties of the oracle: the two heartbeat gates of \<open>resolve_round\<close> and
  what their order makes of the override, the price the multi-feed path settles with, and
  the time-weighted reference price.
\<close>

section \<open>The heartbeat gates\<close>

text \<open>\<open>resolve_round\<close> with its first heartbeat gate only.\<close>

definition resolve_round_one_gate :: "env \<Rightarrow> oracle_payload \<Rightarrow> store \<Rightarrow> store res" where
  "resolve_round_one_gate e p s =
     and_then (require_supported_schema s) (\<lambda>_.
     if op_price p = 0 then Inl (Fail InvalidPrice)
     else
       and_then (ok_or (s_oracle s) OracleNotSet) (\<lambda>orc.
       and_then (require_auth e orc) (\<lambda>_.
       and_then (ensure_not_paused s) (\<lambda>_.
       if heartbeat_blocked e (load_hb_config s) s then Inl (Fail OracleHeartbeatUnhealthy)
       else
         and_then (ok_or (b_active (s_book s)) NoActiveRound) (\<lambda>r.
         and_then (check_target e r (op_round_id p) (op_network_id p) (op_contract_addr p)) (\<lambda>_.
         and_then (check_attestation e p s) (\<lambda>_.
         and_then (check_timestamp e r (op_timestamp p) s) (\<lambda>_.
         and_then (single_deviation_guard r (op_price p) s) (\<lambda>s1.
         and_then (check_confidence p s1) (\<lambda>_.
         and_then (consume_nonce (r_id r) (op_nonce p) s1) (\<lambda>s2.
         if e_ledger e < r_end_ledger r then Inl (Fail RoundNotEnded)
         else
           settle_round_with_price e r (op_price p) (op_confidence p)
             (record_twap_sample (op_price p) (op_timestamp p) s2))))))))))))"

definition same_heartbeat :: "store \<Rightarrow> store \<Rightarrow> bool" where
  "same_heartbeat s t \<longleftrightarrow> o_heartbeat (s_orc t) = o_heartbeat (s_orc s) \<and> o_hb_gate (s_orc t) = o_hb_gate (s_orc s) \<and>
     o_stale_threshold (s_orc t) = o_stale_threshold (s_orc s)"

lemma same_heartbeat_blocked:
  "same_heartbeat s t \<Longrightarrow> heartbeat_blocked e (load_hb_config t) t = heartbeat_blocked e (load_hb_config s) s"
  by (simp add: same_heartbeat_def heartbeat_blocked_def load_hb_config_def stale_threshold_def cong: option.case_cong)

lemma deviation_guard_heartbeat: "deviation_guard r reference price max_bps s = Inr t \<Longrightarrow> same_heartbeat s t"
  by (auto simp: deviation_guard_def and_then_Inr Let_def same_heartbeat_def split: if_splits)

lemma single_deviation_guard_heartbeat: "single_deviation_guard r price s = Inr t \<Longrightarrow> same_heartbeat s t"
  unfolding single_deviation_guard_def Let_def
  by (cases "o_max_deviation_bps (s_orc s)"; simp add: and_then_Inr; (blast intro: deviation_guard_heartbeat)?)
    (simp add: same_heartbeat_def)

lemma live_gate_passes:
  assumes "\<not> heartbeat_blocked e (load_hb_config s) s" "single_deviation_guard r price s = Inr s1" "consume_nonce rid n s1 = Inr s2"
  shows "strict_heartbeat_gate e r s2 = Inr s2"
proof -
  have "same_heartbeat s s2"
    using single_deviation_guard_heartbeat[OF assms(2)] assms(3) by (auto simp: consume_nonce_Inr same_heartbeat_def)
  from same_heartbeat_blocked[OF this] assms(1) show ?thesis by (simp add: strict_heartbeat_gate_def Let_def)
qed

text \<open>C21 The strict heartbeat gate of the single-feed path never decides anything.  The gate before
  it runs without looking at the strict mode or the override, so with a stale or offline
  heartbeat no settlement goes through, whether or not the admin has armed the override or
  switched the strict mode off, and with a live one the second gate always passes:
  \<open>resolve_round\<close> equals the function without it, with the same results and the same errors.\<close>

theorem strict_gate_is_dead:
  "resolve_round e p s = resolve_round_one_gate e p s \<and>
   (heartbeat_blocked e (load_hb_config s) s \<longrightarrow> resolve_round e p s \<noteq> Inr s')"
proof
  show "resolve_round e p s = resolve_round_one_gate e p s"
  proof (cases "heartbeat_blocked e (load_hb_config s) s")
    case False
    then show ?thesis unfolding resolve_round_def resolve_round_one_gate_def
      by (intro and_then_cong refl if_cong) (simp add: live_gate_passes)
  qed (simp add: resolve_round_def resolve_round_one_gate_def)
  show "heartbeat_blocked e (load_hb_config s) s \<longrightarrow> resolve_round e p s \<noteq> Inr s'"
    using resolve_round_Inr by blast
qed

definition armed_bets :: store where
  "armed_bets = two_bets\<lparr>s_orc := (s_orc two_bets)\<lparr>
     o_hb_gate := Some \<lparr>hg_strict_mode = False, hg_override_armed = True, hg_grace_seconds = 60\<rparr>,
     o_heartbeat := Some \<lparr>hb_timestamp = 90, hb_status = 2\<rparr>\<rparr>\<rparr>"

theorem strict_gate_is_dead_witness:
  "hg_override_armed (load_hb_config armed_bets) \<and> \<not> hg_strict_mode (load_hb_config armed_bets) \<and>
   (\<nexists>s'. resolve_round (sample_env 30 100 [2]) sample_payload armed_bets = Inr s')"
proof -
  have "heartbeat_blocked (sample_env 30 100 [2]) (load_hb_config armed_bets) armed_bets"
    by (simp add: heartbeat_blocked_def armed_bets_def)
  moreover have "hg_override_armed (load_hb_config armed_bets)" "\<not> hg_strict_mode (load_hb_config armed_bets)"
    by (simp_all add: armed_bets_def load_hb_config_def)
  ultimately show ?thesis using strict_gate_is_dead by blast
qed

section \<open>The multi-feed price\<close>

lemma has_duplicate_iff: "has_duplicate xs \<longleftrightarrow> \<not> distinct xs"
  by (induction xs) auto

lemma insert_price_set: "mset (insert_price p xs) = add_mset p (mset xs)"
  by (induction xs) auto

lemma insert_price_elems [simp]: "set (insert_price p xs) = insert p (set xs)"
  by (induction xs) auto

lemma insert_price_sorted: "sorted xs \<Longrightarrow> sorted (insert_price p xs)"
  by (induction xs) auto

lemma fold_insert_price: "fold insert_price ps [] = sort ps"
proof -
  have "sorted acc \<Longrightarrow> sorted (fold insert_price ps acc) \<and> mset (fold insert_price ps acc) = mset ps + mset acc" for acc
    by (induction ps arbitrary: acc) (auto simp: insert_price_sorted insert_price_set)
  from this[of "[]"] show ?thesis by (intro properties_for_sort[symmetric]) auto
qed

text \<open>The textbook median of a non-empty list, rounded down when the count is even.\<close>

definition middle :: "nat list \<Rightarrow> nat" where
  "middle ps = (let n = length ps; xs = sort ps in
     if n mod 2 = 1 then xs ! (n div 2) else (xs ! (n div 2 - 1) + xs ! (n div 2)) div 2)"

lemma median_price_Inr: "median_price ps = Inr m \<Longrightarrow> m = middle ps"
  by (auto simp: median_price_def middle_def fold_insert_price Let_def and_then_Inr ok_or_Inr uchecked_Some split: if_splits)

lemma middle_between:
  assumes "ps \<noteq> []"
  shows "Min (set ps) \<le> middle ps" "middle ps \<le> Max (set ps)"
proof -
  have mem: "i < length ps \<Longrightarrow> Min (set ps) \<le> sort ps ! i \<and> sort ps ! i \<le> Max (set ps)" for i
    using nth_mem[of i "sort ps"] by simp
  have n: "length ps div 2 < length ps" "length ps div 2 - 1 < length ps" using assms by (cases ps; simp)+
  show "Min (set ps) \<le> middle ps" "middle ps \<le> Max (set ps)"
    using mem[OF n(1)] mem[OF n(2)] by (auto simp: middle_def Let_def)
qed

text \<open>A feed survives when its deviation from the median, in basis points rounded down, is within the
  configured threshold.\<close>

definition survives :: "quorum_config \<Rightarrow> nat \<Rightarrow> nat \<Rightarrow> bool" where
  "survives q median price \<longleftrightarrow> abs_diff price median * 10000 div median \<le> q_outlier_bps q"

lemma count_survivors:
  assumes "fold_res (count_survivor median (q_outlier_bps q)) ps k = Inr n"
  shows "n = k + length (filter (survives q median) ps)"
  using assms
proof (induction ps arbitrary: k)
  case (Cons p ps)
  then obtain k1 where k1: "count_survivor median (q_outlier_bps q) p k = Inr k1" "fold_res (count_survivor median (q_outlier_bps q)) ps k1 = Inr n"
    by (auto simp: and_then_Inr)
  have "k1 = k + (if survives q median p then 1 else 0)"
    using k1(1) by (auto simp: count_survivor_def and_then_Inr ok_or_Inr uchecked_Some survives_def dest!: diff_bps_Inr split: if_splits)
  then show ?case using Cons.IH[OF k1(2)] by simp
qed simp

lemma multi_deviation_guard_Inr:
  assumes "multi_deviation_guard r median s = Inr t"
  shows "oracle_only s t" "o_nonces (s_orc t) = o_nonces (s_orc s)"
    "\<forall>max_bps. o_max_deviation_bps (s_orc s) = Some max_bps \<longrightarrow> r_price_start r \<noteq> 0 \<and>
       (abs_diff median (r_price_start r) * 10000 div r_price_start r \<le> max_bps \<or> unwrap_or (o_deviation_override (s_orc s)) False)"
proof -
  have "oracle_only s t \<and> o_nonces (s_orc t) = o_nonces (s_orc s) \<and> (\<forall>max_bps. o_max_deviation_bps (s_orc s) = Some max_bps \<longrightarrow>
     r_price_start r \<noteq> 0 \<and> (abs_diff median (r_price_start r) * 10000 div r_price_start r \<le> max_bps \<or> unwrap_or (o_deviation_override (s_orc s)) False))"
  proof (cases "o_max_deviation_bps (s_orc s)")
    case None
    then show ?thesis using assms by (simp add: multi_deviation_guard_def)
  next
    case (Some max_bps)
    with assms have g: "deviation_guard r (r_price_start r) median max_bps s = Inr t" by (simp add: multi_deviation_guard_def)
    obtain bps where b: "diff_bps median (r_price_start r) = Inr bps" "bps \<le> max_bps \<or> unwrap_or (o_deviation_override (s_orc s)) False"
      using deviation_guard_Inr(4)[OF g] by blast
    show ?thesis using deviation_guard_Inr(1-3)[OF g] b(2) diff_bps_Inr[OF b(1)] Some by simp
  qed
  then show "oracle_only s t" "o_nonces (s_orc t) = o_nonces (s_orc s)"
    "\<forall>max_bps. o_max_deviation_bps (s_orc s) = Some max_bps \<longrightarrow> r_price_start r \<noteq> 0 \<and>
       (abs_diff median (r_price_start r) * 10000 div r_price_start r \<le> max_bps \<or> unwrap_or (o_deviation_override (s_orc s)) False)"
    by blast+
qed

text \<open>What a successful multi-feed resolution has checked, and the store it settles.\<close>

lemma resolve_multi_Inr:
  assumes "resolve_round_multi e p s = Inr s'"
  obtains r q orc lower upper t median where "s_oracle s = Some orc" "e_auth e orc" "current_mode s \<noteq> FullyPaused"
    "b_active (s_book s) = Some r" "o_quorum (s_orc s) = Some q" "mf_prices p \<noteq> []" "length (mf_prices p) = length (mf_sources p)"
    "0 \<notin> set (mf_prices p)" "distinct (mf_sources p)" "q_min_observations q \<le> length (mf_prices p)" "length (mf_prices p) \<le> 32"
    "mf_round_id p = r_start_ledger r" "mf_network_id p = e_network e" "mf_contract_addr p = e_contract e"
    "mf_timestamp p \<le> e_time e" "timestamp_window r s = Inr (lower, upper)" "lower \<le> mf_timestamp p" "mf_timestamp p \<le> upper"
    "o_nonces (s_orc s) (r_id r, mf_nonce p) = None" "r_end_ledger r \<le> e_ledger e" "median = middle (mf_prices p)"
    "q_threshold q \<le> length (filter (survives q median) (mf_prices p))"
    "\<forall>max_bps. o_max_deviation_bps (s_orc s) = Some max_bps \<longrightarrow> r_price_start r \<noteq> 0 \<and>
       (abs_diff median (r_price_start r) * 10000 div r_price_start r \<le> max_bps \<or> unwrap_or (o_deviation_override (s_orc s)) False)"
    "hg_strict_mode (load_hb_config s) \<and> heartbeat_blocked e (load_hb_config s) s \<longrightarrow> hg_override_armed (load_hb_config s)"
    "oracle_only s t" "o_nonces (s_orc t) = (o_nonces (s_orc s))((r_id r, mf_nonce p) \<mapsto> True)"
    "settle_round_with_price e r median None t = Inr s'"
proof -
  from assms obtain r q orc lower upper s1 s2 s3 median k where
    g: "s_oracle s = Some orc" "e_auth e orc" "current_mode s \<noteq> FullyPaused"
      "b_active (s_book s) = Some r" "o_quorum (s_orc s) = Some q" "mf_prices p \<noteq> []" "length (mf_prices p) = length (mf_sources p)"
      "0 \<notin> set (mf_prices p)" "distinct (mf_sources p)" "q_min_observations q \<le> length (mf_prices p)" "length (mf_prices p) \<le> 32"
      "mf_round_id p = r_start_ledger r" "mf_network_id p = e_network e" "mf_contract_addr p = e_contract e"
      "mf_timestamp p \<le> e_time e" "timestamp_window r s = Inr (lower, upper)" "lower \<le> mf_timestamp p" "mf_timestamp p \<le> upper"
      "r_end_ledger r \<le> e_ledger e"
    and s1: "strict_heartbeat_gate e r s = Inr s1" and s2: "consume_nonce (r_id r) (mf_nonce p) s1 = Inr s2"
    and m: "median_price (mf_prices p) = Inr median" and s3: "multi_deviation_guard r median s2 = Inr s3"
    and c: "fold_res (count_survivor median (q_outlier_bps q)) (mf_prices p) 0 = Inr k" "q_threshold q \<le> k"
    and run: "settle_round_with_price e r median None (record_twap_sample median (mf_timestamp p)
      (emit (''oracle'', ''multisum'') [VNat (r_id r), VNat (length (mf_prices p)), VNat k, VNat median, VNat (q_threshold q)] s3)) = Inr s'"
    unfolding resolve_round_multi_def and_then_Inr ok_or_Inr if_Inl_Inr check_target_Inr ensure_not_paused_Inr require_auth_Inr check_timestamp_def
      case_prod_unfold Let_def has_duplicate_iff MAX_ORACLE_OBSERVATIONS_def by (auto simp: not_less)
  note a = strict_gate_Inr[OF s1] and b = s2[unfolded consume_nonce_Inr] and d = multi_deviation_guard_Inr[OF s3]
  have s12: "oracle_only s s2" using a(1) b by simp
  then have only: "oracle_only s s3" using d(1) oracle_only_trans by blast
  have hb: "hg_strict_mode (load_hb_config s) \<and> heartbeat_blocked e (load_hb_config s) s \<longrightarrow> hg_override_armed (load_hb_config s)"
    using s1 by (auto simp: strict_heartbeat_gate_def Let_def split: if_splits)
  have "s_orc s2 = (s_orc s1)\<lparr>o_nonces := (o_nonces (s_orc s1))((r_id r, mf_nonce p) \<mapsto> True)\<rparr>" using b by simp
  then have guard: "\<forall>max_bps. o_max_deviation_bps (s_orc s) = Some max_bps \<longrightarrow> r_price_start r \<noteq> 0 \<and>
       (abs_diff median (r_price_start r) * 10000 div r_price_start r \<le> max_bps \<or> unwrap_or (o_deviation_override (s_orc s)) False)"
    using d(3) a(3,4) by simp
  show thesis
    by (rule that[OF g(1-18) _ g(19) median_price_Inr[OF m] _ guard hb _ _ run])
      (use a(2) b d(2) only c(2) count_survivors[OF c(1)] in \<open>auto simp: record_twap_sample_def\<close>)
qed

text \<open>C20 A multi-feed price settles the active round only as the median of enough agreeing, distinct
  sources: the payload names at most 32 and at least the configured number of observations,
  one per source and none zero, at least the quorum of them deviate from their median by no
  more than the outlier threshold, and the median itself stays within the configured
  deviation of the start price unless the admin armed the override.  The round is then settled
  at that median, which lies between the smallest and the largest observation.  Here the
  override of the heartbeat gate does work.  The nonce is consumed, the invariant is kept and
  at most the rounding dust is lost.\<close>

theorem multi_feed_settles_at_median:
  assumes "resolve_round_multi e p s = Inr s'" "contract_ok s"
  shows "\<exists>r q t. b_active (s_book s) = Some r \<and> o_quorum (s_orc s) = Some q \<and>
           (let prices = mf_prices p; n = length prices; median = middle prices in
              length (mf_sources p) = n \<and> distinct (mf_sources p) \<and> 0 \<notin> set prices \<and> q_min_observations q \<le> n \<and> 0 < n \<and> n \<le> 32 \<and>
              q_threshold q \<le> length (filter (\<lambda>x. abs_diff x median * 10000 div median \<le> q_outlier_bps q) prices) \<and>
              (\<forall>max_bps. o_max_deviation_bps (s_orc s) = Some max_bps \<longrightarrow>
                 abs_diff median (r_price_start r) * 10000 div r_price_start r \<le> max_bps \<or> unwrap_or (o_deviation_override (s_orc s)) False) \<and>
              Min (set prices) \<le> median \<and> median \<le> Max (set prices) \<and>
              oracle_only s t \<and> settle_round_with_price e r median None t = Inr s') \<and>
           mf_timestamp p \<le> e_time e \<and> r_end_ledger r \<le> e_ledger e \<and> o_nonces (s_orc s) (r_id r, mf_nonce p) = None \<and>
           o_nonces (s_orc s') = (o_nonces (s_orc s))((r_id r, mf_nonce p) \<mapsto> True) \<and>
           (hg_strict_mode (load_hb_config s) \<and> heartbeat_blocked e (load_hb_config s) s \<longrightarrow> hg_override_armed (load_hb_config s)) \<and>
           contract_ok s' \<and> wealth s' \<le> wealth s \<and> wealth s < wealth s' + dust_bound (s_book s) r \<and> b_active (s_book s') = None"
proof (rule resolve_multi_Inr[OF assms(1)])
  fix r q orc lower upper t median
  assume g: "b_active (s_book s) = Some r" "o_quorum (s_orc s) = Some q" "mf_prices p \<noteq> []" "length (mf_prices p) = length (mf_sources p)"
    "0 \<notin> set (mf_prices p)" "distinct (mf_sources p)" "q_min_observations q \<le> length (mf_prices p)" "length (mf_prices p) \<le> 32"
    "mf_timestamp p \<le> e_time e" "o_nonces (s_orc s) (r_id r, mf_nonce p) = None" "r_end_ledger r \<le> e_ledger e"
    "hg_strict_mode (load_hb_config s) \<and> heartbeat_blocked e (load_hb_config s) s \<longrightarrow> hg_override_armed (load_hb_config s)"
    and m: "median = middle (mf_prices p)"
    and q: "q_threshold q \<le> length (filter (survives q median) (mf_prices p))"
    and d: "\<forall>max_bps. o_max_deviation_bps (s_orc s) = Some max_bps \<longrightarrow> r_price_start r \<noteq> 0 \<and>
       (abs_diff median (r_price_start r) * 10000 div r_price_start r \<le> max_bps \<or> unwrap_or (o_deviation_override (s_orc s)) False)"
    and only: "oracle_only s t" and n: "o_nonces (s_orc t) = (o_nonces (s_orc s))((r_id r, mf_nonce p) \<mapsto> True)"
    and run: "settle_round_with_price e r median None t = Inr s'"
  have t: "contract_ok t" "b_active (s_book t) = Some r" "wealth t = wealth s" "s_book t = s_book s"
    using only oracle_only_ok[OF only] assms(2) g(1) by (simp_all add: oracle_only_def)
  note f = settle_round_ok[OF run t(1,2)]
  have "s_orc s' = s_orc t" using settle_control[OF run] by (simp add: same_control_def)
  then show ?thesis
    using g d q[unfolded survives_def[abs_def]] f only t(3,4) run n middle_between[OF g(3)] unfolding m Let_def
    by (intro exI[of _ r] exI[of _ q] exI[of _ t]) auto
qed

definition quorum_bets :: store where
  "quorum_bets = two_bets\<lparr>s_orc := (s_orc two_bets)\<lparr>
     o_quorum := Some \<lparr>q_min_observations = 3, q_threshold = 2, q_outlier_bps = 500\<rparr>\<rparr>\<rparr>"

definition sample_feeds :: multi_feed_payload where
  "sample_feeds = \<lparr>mf_prices = [100, 900, 100], mf_sources = [1, 2, 3], mf_round_id = 10, mf_nonce = 7,
     mf_network_id = [1], mf_contract_addr = 99, mf_timestamp = 90\<rparr>"

lemma quorum_bets_ok: "contract_ok quorum_bets"
  using two_bets_ok by (simp add: quorum_bets_def contract_ok_def config_ok_def)

lemma quorum_fields:
  "s_book quorum_bets = s_book two_bets" "s_money quorum_bets = s_money two_bets" "s_config quorum_bets = s_config two_bets"
  "s_schema quorum_bets = Some 3" "s_mode quorum_bets = None" "s_oracle quorum_bets = Some 2"
  "s_orc quorum_bets = (s_orc empty_store)\<lparr>o_quorum := Some \<lparr>q_min_observations = 3, q_threshold = 2, q_outlier_bps = 500\<rparr>\<rparr>"
  by (simp_all add: quorum_bets_def two_bets_gates) (simp add: two_bets_def sample_store_def empty_store_def)

lemma quorum_bets_run: "\<exists>s'. resolve_round_multi (sample_env 30 100 [2]) sample_feeds quorum_bets = Inr s'"
proof -
  let ?s1 = "upd_orc (\<lambda>c. c\<lparr>o_nonces := (o_nonces c)((1, 7) \<mapsto> True)\<rparr>) quorum_bets"
  have "s_book ?s1 = s_book two_bets" "s_money ?s1 = s_money two_bets" "s_config ?s1 = s_config two_bets"
    by (simp_all add: upd_orc_def quorum_fields)
  then show ?thesis
    using unchanged_bets_run[of "record_twap_sample 100 90 (emit (''oracle'', ''multisum'') [VNat 1, VNat (length (mf_prices sample_feeds)), VNat 2, VNat 100, VNat 2] ?s1)"
        "sample_env 30 100 [2]" None]
    by (simp add: resolve_round_multi_def require_supported_schema_def schema_version_def CURRENT_SCHEMA_VERSION_def sample_feeds_def quorum_fields
      sample_env_def require_auth_def ensure_not_paused_def policy_gate_def current_mode_def load_hb_config_def u64_max_def protocol_constants
      check_target_def two_bets_book two_bets_round_fields check_timestamp_def timestamp_window_def uchecked_sub_def uchecked_mul_def uchecked_add_def
      usaturating_add_def usaturating_sub_def consume_nonce_def strict_heartbeat_gate_def record_twap_sample_def median_price_def multi_deviation_guard_def
      count_survivor_def diff_bps_def price_diff_def empty_store_def Let_def del: One_nat_def)
qed

theorem multi_feed_settles_at_median_witness:
  "middle [100, 900, 100] = 100 \<and>
   (\<exists>s'. resolve_round_multi (sample_env 30 100 [2]) sample_feeds quorum_bets = Inr s' \<and> contract_ok s' \<and> b_active (s_book s') = None)"
proof -
  have "middle [100, 900, 100] = 100" by (simp add: middle_def)
  then show ?thesis using quorum_bets_run multi_feed_settles_at_median[OF _ quorum_bets_ok] by blast
qed

section \<open>The time-weighted reference price\<close>

lemma evict_oldest_drop: "evict_oldest limit xs = drop (length xs - limit) xs"
  by (induction xs) (auto simp: Suc_diff_le not_less_eq_eq split: if_splits)

lemma add_samples:
  "fold_res add_sample xs (acc, n) = Inr (acc', n') \<Longrightarrow> acc' = acc + sum_list (map ps_price xs) \<and> n' = n + length xs"
  by (induction xs arbitrary: acc n) (fastforce simp: add_sample_def and_then_Inr ok_or_Inr uchecked_Some)+

lemma mean_between:
  fixes xs :: "nat list"
  assumes "xs \<noteq> []"
  shows "Min (set xs) \<le> sum_list xs div length xs" "sum_list xs div length xs \<le> Max (set xs)"
proof -
  have "length xs * Min (set xs) \<le> sum_list xs" using sum_list_mono[of xs "\<lambda>_. Min (set xs)" "\<lambda>x. x"] by (simp add: sum_list_triv)
  moreover have "sum_list xs \<le> length xs * Max (set xs)" using sum_list_mono[of xs "\<lambda>x. x" "\<lambda>_. Max (set xs)"] by (simp add: sum_list_triv)
  ultimately show "Min (set xs) \<le> sum_list xs div length xs" "sum_list xs div length xs \<le> Max (set xs)"
    using assms by (simp_all add: less_eq_div_iff_mult_less_eq mult.commute div_le_mono) (metis div_le_mono length_greater_0_conv nonzero_mult_div_cancel_left nat_neq_iff)
qed

text \<open>The time-weighted reference is the mean of the newest samples of a bounded ring.  Recording a
  price keeps exactly the last 64 samples, the new one last; the reference over a window is
  the floored mean of the window's newest prices, hence between the smallest and the largest
  of them, and it is refused when fewer samples than the window are stored.\<close>

theorem twap_reference_is_windowed_mean:
  "(let kept = load_twap_samples (record_twap_sample price ts s); old = load_twap_samples s in
      kept = drop (length old + 1 - 64) (old @ [\<lparr>ps_price = price, ps_timestamp = ts\<rparr>]) \<and> length kept \<le> 64 \<and> kept \<noteq> []) \<and>
   (twap_reference_price s w = Inr x \<longrightarrow>
      (let samples = load_twap_samples s; prices = map ps_price (drop (length samples - w) samples) in
         length prices = w \<and> 0 < w \<and> x = sum_list prices div w \<and> Min (set prices) \<le> x \<and> x \<le> Max (set prices)))"
proof -
  have ring: "load_twap_samples (record_twap_sample price ts s) =
      drop (length (load_twap_samples s) + 1 - 64) (load_twap_samples s @ [\<lparr>ps_price = price, ps_timestamp = ts\<rparr>])"
    by (simp add: load_twap_samples_def record_twap_sample_def evict_oldest_drop MAX_TWAP_WINDOW_SAMPLES_def)
  have mean: "let samples = load_twap_samples s; prices = map ps_price (drop (length samples - w) samples) in
      length prices = w \<and> 0 < w \<and> x = sum_list prices div w \<and> Min (set prices) \<le> x \<and> x \<le> Max (set prices)"
    if ref: "twap_reference_price s w = Inr x"
  proof -
    let ?win = "drop (length (load_twap_samples s) - w) (load_twap_samples s)"
    from ref have len: "length ?win = w" by (auto simp: twap_reference_price_def Let_def split: if_splits)
    from ref obtain acc n where a: "fold_res add_sample ?win (0, 0) = Inr (acc, n)" "n \<noteq> 0" "x = acc div n"
      by (auto simp: twap_reference_price_def Let_def and_then_Inr split: if_splits)
    have "x = sum_list (map ps_price ?win) div w" "0 < w" using add_samples[OF a(1)] a(2,3) len by auto
    then show ?thesis using mean_between[of "map ps_price ?win"] len by (auto simp: Let_def)
  qed
  show ?thesis using mean by (simp add: ring Let_def)
qed

theorem twap_reference_is_windowed_mean_witness:
  "let s = upd_orc (\<lambda>c. c\<lparr>o_twap := Some [\<lparr>ps_price = 10, ps_timestamp = 1\<rparr>, \<lparr>ps_price = 30, ps_timestamp = 2\<rparr>, \<lparr>ps_price = 41, ps_timestamp = 3\<rparr>]\<rparr>) two_bets
   in twap_reference_price s 2 = Inr 35 \<and> 30 \<le> (35::nat) \<and> length (load_twap_samples (record_twap_sample 50 4 s)) \<le> 64"
proof -
  let ?s = "upd_orc (\<lambda>c. c\<lparr>o_twap := Some [\<lparr>ps_price = 10, ps_timestamp = 1\<rparr>, \<lparr>ps_price = 30, ps_timestamp = 2\<rparr>, \<lparr>ps_price = 41, ps_timestamp = 3\<rparr>]\<rparr>) two_bets"
  have "twap_reference_price ?s 2 = Inr 35"
    by (simp add: twap_reference_price_def load_twap_samples_def add_sample_def uchecked_add_def u128_max_def del: One_nat_def)
  then show ?thesis
    using twap_reference_is_windowed_mean[of 50 4 ?s 2 35] by (simp add: Let_def)
qed

end
