(* ===== verification/Governance.thy ===== *)
theory Governance
  imports Configuration
begin

text \<open>
  \<open>contracts/src/governance.rs\<close>: proposals that need two people, and the constitution with
  its amendments.  A proposal is proposed, approved by someone else, and executed; it may be
  cancelled until it is executed, and expires with its last ledger.  The lemmas state what
  each operation requires and changes; the properties are in \<open>Governance_Properties\<close>.
  An error discards the writes of its branch, so the status \<open>Expired\<close> that \<open>approve\<close> and
  \<open>execute\<close> write before they fail is not in the model's store either.
\<close>

section \<open>Who may govern\<close>

definition DEFAULT_GOV_PROPOSAL_TTL_LEDGERS :: nat where
  "DEFAULT_GOV_PROPOSAL_TTL_LEDGERS = 100"

definition is_authorized_gov_user :: "store \<Rightarrow> address \<Rightarrow> bool" where
  "is_authorized_gov_user s user \<longleftrightarrow> s_admin s = Some user \<or> g_approver (s_gov s) = Some user"

definition upd_gov :: "(gov \<Rightarrow> gov) \<Rightarrow> store \<Rightarrow> store" where
  "upd_gov f s = s\<lparr>s_gov := f (s_gov s)\<rparr>"

definition gov_gate :: "env \<Rightarrow> address \<Rightarrow> store \<Rightarrow> unit res" where
  "gov_gate e user s =
     and_then (require_supported_schema s) (\<lambda>_.
     and_then (require_auth e user) (\<lambda>_.
     ensure (is_authorized_gov_user s user) GovUnauthorized))"

definition set_gov_approver :: "env \<Rightarrow> address \<Rightarrow> store \<Rightarrow> store res" where
  "set_gov_approver e approver s =
     and_then (require_supported_schema s) (\<lambda>_.
     and_then (admin_auth e s) (\<lambda>admin.
     Inr (emit (''gov'', ''appr_set'') [VAddr admin, VAddr approver] (upd_gov (\<lambda>g. g\<lparr>g_approver := Some approver\<rparr>) s))))"

definition set_gov_proposal_ttl :: "env \<Rightarrow> nat \<Rightarrow> store \<Rightarrow> store res" where
  "set_gov_proposal_ttl e ttl_ledgers s =
     and_then (require_supported_schema s) (\<lambda>_.
     and_then (admin_auth e s) (\<lambda>_.
     if ttl_ledgers = 0 then Inl (Fail WindowOutOfRange)
     else Inr (upd_gov (\<lambda>g. g\<lparr>g_ttl := Some ttl_ledgers\<rparr>) s)))"

definition get_gov_proposal_ttl :: "store \<Rightarrow> nat" where
  "get_gov_proposal_ttl s = unwrap_or (g_ttl (s_gov s)) DEFAULT_GOV_PROPOSAL_TTL_LEDGERS"

section \<open>Proposals\<close>

definition action_code :: "gov_action \<Rightarrow> nat" where
  "action_code action =
     (case action of
        PauseProtocol \<Rightarrow> 0 | UnpauseProtocol \<Rightarrow> 1 | SetProtocolFeeBps _ \<Rightarrow> 2 | WithdrawProtocolFee _ _ \<Rightarrow> 3
      | SetTreasuryAddress _ \<Rightarrow> 4 | SetAdmin _ \<Rightarrow> 5 | SetOracle _ \<Rightarrow> 6 | WithdrawInsuranceFund _ _ \<Rightarrow> 7
      | SetInsuranceSplitBps _ \<Rightarrow> 8 | SetInsuranceCoverageBps _ \<Rightarrow> 9)"

text \<open>\<open>id + 1\<close> on a \<open>u64\<close> counter: the release profile checks it.\<close>

definition next_counter :: "nat \<Rightarrow> nat res" where
  "next_counter n = (if n < u64_max then Inr (n + 1) else Inl Trap)"

definition put_proposal :: "nat \<Rightarrow> gov_proposal \<Rightarrow> store \<Rightarrow> store" where
  "put_proposal i p s = upd_gov (\<lambda>g. g\<lparr>g_proposals := (g_proposals g)(i \<mapsto> p)\<rparr>) s"

definition propose :: "env \<Rightarrow> address \<Rightarrow> gov_action \<Rightarrow> nat option \<Rightarrow> store \<Rightarrow> (nat \<times> store) res" where
  "propose e proposer action custom_ttl s =
     and_then (gov_gate e proposer s) (\<lambda>_.
     let proposal_id = unwrap_or (g_next_id (s_gov s)) 1 in
     and_then (next_counter proposal_id) (\<lambda>next_id.
     let ttl = unwrap_or custom_ttl (get_gov_proposal_ttl s);
         expires_at = usaturating_add u32_max (e_ledger e) ttl;
         proposal = \<lparr>gp_id = proposal_id, gp_proposer = proposer, gp_approver = None, gp_action = action,
                     gp_created_at = e_ledger e, gp_expires_at = expires_at, gp_status = PsPending\<rparr>
     in Inr (proposal_id,
             emit (''gov'', ''proposed'') [VNat proposal_id, VAddr proposer, VNat (action_code action), VNat expires_at]
               (put_proposal proposal_id proposal (upd_gov (\<lambda>g. g\<lparr>g_next_id := Some next_id\<rparr>) s)))))"

definition approve :: "env \<Rightarrow> address \<Rightarrow> nat \<Rightarrow> store \<Rightarrow> store res" where
  "approve e approver proposal_id s =
     and_then (gov_gate e approver s) (\<lambda>_.
     and_then (ok_or (g_proposals (s_gov s) proposal_id) ProposalNotFound) (\<lambda>proposal.
     if e_ledger e > gp_expires_at proposal then Inl (Fail ProposalExpired)
     else
       case gp_status proposal of
         PsCancelled \<Rightarrow> Inl (Fail GovInvalidState)
       | PsExecuted \<Rightarrow> Inl (Fail GovInvalidState)
       | PsApproved \<Rightarrow> Inl (Fail GovInvalidState)
       | PsExpired \<Rightarrow> Inl (Fail ProposalExpired)
       | PsPending \<Rightarrow>
           if gp_proposer proposal = approver then Inl (Fail GovInvalidState)
           else
             Inr (emit (''gov'', ''approved'') [VNat proposal_id, VAddr approver]
                    (put_proposal proposal_id (proposal\<lparr>gp_approver := Some approver, gp_status := PsApproved\<rparr>) s))))"

definition execute_action :: "env \<Rightarrow> gov_action \<Rightarrow> store \<Rightarrow> store res" where
  "execute_action e action s =
     (case action of
        PauseProtocol \<Rightarrow> Inr (set_mode FullyPaused s)
      | UnpauseProtocol \<Rightarrow> Inr (set_mode Normal s)
      | SetProtocolFeeBps bps \<Rightarrow>
          and_then (validate_protocol_fee_bps bps) (\<lambda>_. Inr (s\<lparr>s_config := (s_config s)\<lparr>c_fee_bps := bps\<rparr>\<rparr>))
      | WithdrawProtocolFee recipient amount \<Rightarrow> and_then (withdraw_fee recipient amount s) (\<lambda>(_, t). Inr t)
      | SetTreasuryAddress treasury \<Rightarrow> Inr (set_treasury (TAddress treasury) s)
      | SetAdmin new_admin \<Rightarrow> Inr (s\<lparr>s_admin := Some new_admin\<rparr>)
      | SetOracle new_oracle \<Rightarrow> Inr (s\<lparr>s_oracle := Some new_oracle\<rparr>)
      | WithdrawInsuranceFund recipient amount \<Rightarrow>
          and_then (execute_withdraw_insurance_fund recipient amount s) (\<lambda>(_, t). Inr t)
      | SetInsuranceSplitBps bps \<Rightarrow> set_insurance_split_bps e bps s
      | SetInsuranceCoverageBps bps \<Rightarrow> set_insurance_coverage_bps e bps s)"

definition execute :: "env \<Rightarrow> address \<Rightarrow> nat \<Rightarrow> store \<Rightarrow> store res" where
  "execute e executor proposal_id s =
     and_then (gov_gate e executor s) (\<lambda>_.
     and_then (ok_or (g_proposals (s_gov s) proposal_id) ProposalNotFound) (\<lambda>proposal.
     if e_ledger e > gp_expires_at proposal then Inl (Fail ProposalExpired)
     else
       case gp_status proposal of
         PsCancelled \<Rightarrow> Inl (Fail GovInvalidState)
       | PsExecuted \<Rightarrow> Inl (Fail GovInvalidState)
       | PsExpired \<Rightarrow> Inl (Fail ProposalExpired)
       | PsPending \<Rightarrow> Inl (Fail GovInvalidState)
       | PsApproved \<Rightarrow>
           and_then (execute_action e (gp_action proposal) s) (\<lambda>t.
           Inr (emit (''gov'', ''executed'') [VNat proposal_id, VAddr executor, VNat (action_code (gp_action proposal))]
                  (put_proposal proposal_id (proposal\<lparr>gp_status := PsExecuted\<rparr>) t)))))"

definition cancel_proposal :: "env \<Rightarrow> address \<Rightarrow> nat \<Rightarrow> store \<Rightarrow> store res" where
  "cancel_proposal e canceller proposal_id s =
     and_then (gov_gate e canceller s) (\<lambda>_.
     and_then (ok_or (g_proposals (s_gov s) proposal_id) ProposalNotFound) (\<lambda>proposal.
     case gp_status proposal of
       PsExecuted \<Rightarrow> Inl (Fail GovInvalidState)
     | PsCancelled \<Rightarrow> Inl (Fail GovInvalidState)
     | _ \<Rightarrow>
         Inr (emit (''gov'', ''cancel'') [VNat proposal_id, VAddr canceller]
                (put_proposal proposal_id (proposal\<lparr>gp_status := PsCancelled\<rparr>) s))))"

definition get_gov_proposal :: "env \<Rightarrow> nat \<Rightarrow> store \<Rightarrow> gov_proposal option" where
  "get_gov_proposal e proposal_id s =
     map_option (\<lambda>p. if (gp_status p = PsPending \<or> gp_status p = PsApproved) \<and> e_ledger e > gp_expires_at p
                     then p\<lparr>gp_status := PsExpired\<rparr> else p)
       (g_proposals (s_gov s) proposal_id)"

section \<open>The constitution\<close>

definition establish_constitution :: "env \<Rightarrow> nat \<Rightarrow> nat \<Rightarrow> bool \<Rightarrow> store \<Rightarrow> store res" where
  "establish_constitution e veto_window timelock dual s =
     and_then (require_supported_schema s) (\<lambda>_.
     and_then (admin_auth e s) (\<lambda>_.
     if g_constitution (s_gov s) \<noteq> None then Inl (Fail AlreadyInitialized)
     else
       Inr (emit (''const'', ''estab'') [VNat veto_window, VNat timelock, VBool dual]
              (upd_gov (\<lambda>g. g\<lparr>g_constitution := Some
                 \<lparr>cn_veto_window = veto_window, cn_timelock = timelock, cn_dual_approval = dual,
                  cn_established_at = e_ledger e\<rparr>\<rparr>) s))))"

definition put_amendment :: "nat \<Rightarrow> amendment \<Rightarrow> store \<Rightarrow> store" where
  "put_amendment i a s = upd_gov (\<lambda>g. g\<lparr>g_amendments := (g_amendments g)(i \<mapsto> a)\<rparr>) s"

definition propose_amendment :: "env \<Rightarrow> address \<Rightarrow> string \<Rightarrow> nat \<Rightarrow> store \<Rightarrow> (nat \<times> store) res" where
  "propose_amendment e proposer parameter_name new_value s =
     and_then (gov_gate e proposer s) (\<lambda>_.
     and_then (ok_or (g_constitution (s_gov s)) GovInvalidState) (\<lambda>c.
     let amendment_id = unwrap_or (g_next_amendment (s_gov s)) 1 in
     and_then (next_counter amendment_id) (\<lambda>next_id.
     let veto_deadline = usaturating_add u32_max (e_ledger e) (cn_veto_window c);
         activation_deadline = usaturating_add u32_max veto_deadline (cn_timelock c);
         a = \<lparr>am_id = amendment_id, am_proposer = proposer, am_parameter = parameter_name, am_value = new_value,
              am_created_at = e_ledger e, am_veto_deadline = veto_deadline,
              am_activation_deadline = activation_deadline, am_status = AmPending\<rparr>
     in Inr (amendment_id,
             emit (''const'', ''amend'')
               [VNat amendment_id, VAddr proposer, VBytes (map of_char parameter_name), VNat veto_deadline, VNat activation_deadline]
               (put_amendment amendment_id a (upd_gov (\<lambda>g. g\<lparr>g_next_amendment := Some next_id\<rparr>) s))))))"

definition veto_amendment :: "env \<Rightarrow> address \<Rightarrow> nat \<Rightarrow> store \<Rightarrow> store res" where
  "veto_amendment e vetoer amendment_id s =
     and_then (gov_gate e vetoer s) (\<lambda>_.
     and_then (ok_or (g_amendments (s_gov s) amendment_id) ProposalNotFound) (\<lambda>a.
     if e_ledger e > am_veto_deadline a then Inl (Fail GovInvalidState)
     else if am_status a \<noteq> AmPending then Inl (Fail GovInvalidState)
     else
       Inr (emit (''const'', ''vetoed'') [VNat amendment_id, VAddr vetoer]
              (put_amendment amendment_id (a\<lparr>am_status := AmVetoed\<rparr>) s))))"

definition activate_amendment :: "env \<Rightarrow> address \<Rightarrow> nat \<Rightarrow> store \<Rightarrow> store res" where
  "activate_amendment e activator amendment_id s =
     and_then (gov_gate e activator s) (\<lambda>_.
     and_then (ok_or (g_amendments (s_gov s) amendment_id) ProposalNotFound) (\<lambda>a.
     if e_ledger e \<le> am_activation_deadline a then Inl (Fail GovInvalidState)
     else if am_status a \<noteq> AmPending then Inl (Fail GovInvalidState)
     else
       Inr (emit (''const'', ''actv'') [VNat amendment_id, VAddr activator, VNat (e_ledger e)]
              (put_amendment amendment_id (a\<lparr>am_status := AmActivated\<rparr>) s))))"

text \<open>The query writes: a pending amendment past its deadline is stored as expired.\<close>

definition get_amendment :: "env \<Rightarrow> nat \<Rightarrow> store \<Rightarrow> amendment option \<times> store" where
  "get_amendment e amendment_id s =
     (case g_amendments (s_gov s) amendment_id of
        None \<Rightarrow> (None, s)
      | Some a \<Rightarrow>
          if am_status a = AmPending \<and> e_ledger e > am_activation_deadline a
          then (let a' = a\<lparr>am_status := AmExpired\<rparr> in (Some a', put_amendment amendment_id a' s))
          else (Some a, s))"

end
