(* ===== verification/Governance_Properties.thy ===== *)
theory Governance_Properties
  imports Governance
begin

text \<open>
  The properties of governance: the lifecycle of a proposal as an abstract state machine
  that every call refines, what a run of calls can do to a proposal, expiry, and what the
  amendments of the constitution do and do not enforce.
\<close>

section \<open>Calls and runs\<close>

datatype gov_call =
    GSetApprover address
  | GSetTtl nat
  | GPropose address gov_action "nat option"
  | GApprove address nat
  | GExecute address nat
  | GCancel address nat
  | GEstablish nat nat bool
  | GAmend address string nat
  | GVeto address nat
  | GActivate address nat
  | GQueryAmendment nat

fun gov_exec :: "env \<Rightarrow> gov_call \<Rightarrow> store \<Rightarrow> store res" where
  "gov_exec e (GSetApprover a) s = set_gov_approver e a s"
| "gov_exec e (GSetTtl n) s = set_gov_proposal_ttl e n s"
| "gov_exec e (GPropose a act ttl) s = and_then (propose e a act ttl s) (\<lambda>(_, t). Inr t)"
| "gov_exec e (GApprove a i) s = approve e a i s"
| "gov_exec e (GExecute a i) s = execute e a i s"
| "gov_exec e (GCancel a i) s = cancel_proposal e a i s"
| "gov_exec e (GEstablish v w d) s = establish_constitution e v w d s"
| "gov_exec e (GAmend a n v) s = and_then (propose_amendment e a n v s) (\<lambda>(_, t). Inr t)"
| "gov_exec e (GVeto a i) s = veto_amendment e a i s"
| "gov_exec e (GActivate a i) s = activate_amendment e a i s"
| "gov_exec e (GQueryAmendment i) s = Inr (snd (get_amendment e i s))"

definition gov_run :: "(env \<times> gov_call) list \<Rightarrow> store \<Rightarrow> store res" where
  "gov_run = fold_res (\<lambda>(e, c). gov_exec e c)"

lemma gov_run_Nil [simp]: "gov_run [] s = Inr s"
  by (simp add: gov_run_def)

lemma gov_run_snoc: "gov_run (cs @ [(e, c)]) s = and_then (gov_run cs s) (gov_exec e c)"
proof (cases "gov_run cs s")
  case (Inr t)
  then show ?thesis by (cases "gov_exec e c t") (simp_all add: gov_run_def fold_res_append)
qed (simp add: gov_run_def fold_res_append)

section \<open>What a call does to the proposals\<close>

lemma gov_gate_Inr [res_simps]:
  "gov_gate e u s = Inr x \<longleftrightarrow> (\<exists>v. require_supported_schema s = Inr v) \<and> e_auth e u \<and> is_authorized_gov_user s u"
  by (auto simp: gov_gate_def and_then_Inr require_auth_def ensure_def)

lemma upd_gov_fields [simp]:
  "s_gov (upd_gov f s) = f (s_gov s)" "s_admin (upd_gov f s) = s_admin s" "s_schema (upd_gov f s) = s_schema s"
  "s_money (upd_gov f s) = s_money s" "s_book (upd_gov f s) = s_book s" "s_config (upd_gov f s) = s_config s"
  by (simp_all add: upd_gov_def)

lemma withdraw_gov:
  "withdraw_fee u x s = Inr (y, t) \<Longrightarrow> s_gov t = s_gov s"
  "execute_withdraw_insurance_fund u x s = Inr (y, t) \<Longrightarrow> s_gov t = s_gov s"
  by (auto simp: withdraw_fee_def execute_withdraw_insurance_fund_def and_then_Inr Let_def set_treasury_def set_fund_def split: if_splits)

lemma execute_action_gov:
  assumes "execute_action e act s = Inr t"
  shows "s_gov t = s_gov s"
  using assms
  by (cases act)
    (auto simp: execute_action_def and_then_Inr set_mode_def set_treasury_def set_insurance_split_bps_def set_insurance_coverage_bps_def Let_def
      split: if_splits dest: withdraw_gov)

abbreviation proposals :: "store \<Rightarrow> nat \<rightharpoonup> gov_proposal" where
  "proposals s \<equiv> g_proposals (s_gov s)"

definition next_proposal :: "store \<Rightarrow> nat" where
  "next_proposal s = unwrap_or (g_next_id (s_gov s)) 1"

text \<open>Ids are handed out in order, so the next one is free.\<close>

definition ids_ok :: "store \<Rightarrow> bool" where
  "ids_ok s \<longleftrightarrow> (\<forall>i \<ge> next_proposal s. proposals s i = None)"

lemma propose_Inr:
  assumes "propose e a act ttl s = Inr (i, t)"
  obtains p where "i = next_proposal s" "next_proposal t = Suc i" "proposals t = (proposals s)(i \<mapsto> p)" "e_auth e a" "is_authorized_gov_user s a"
    "gp_proposer p = a" "gp_action p = act" "gp_approver p = None" "gp_status p = PsPending"
    "gp_expires_at p = min u32_max (e_ledger e + unwrap_or ttl (get_gov_proposal_ttl s))"
  using assms that
  by (fastforce simp: propose_def and_then_Inr gov_gate_Inr Let_def next_proposal_def next_counter_def put_proposal_def usaturating_add_def split: if_splits)

lemma approve_Inr:
  assumes "approve e b i s = Inr t"
  obtains p where "proposals s i = Some p" "gp_status p = PsPending" "b \<noteq> gp_proposer p" "e_auth e b" "is_authorized_gov_user s b"
    "e_ledger e \<le> gp_expires_at p" "proposals t = (proposals s)(i \<mapsto> p\<lparr>gp_approver := Some b, gp_status := PsApproved\<rparr>)"
    "next_proposal t = next_proposal s"
  using assms that
  by (fastforce simp: approve_def and_then_Inr ok_or_Inr gov_gate_Inr next_proposal_def put_proposal_def split: if_splits proposal_status.splits)

lemma execute_Inr:
  assumes "execute e x i s = Inr t"
  obtains p u where "proposals s i = Some p" "gp_status p = PsApproved" "e_auth e x" "is_authorized_gov_user s x"
    "e_ledger e \<le> gp_expires_at p" "execute_action e (gp_action p) s = Inr u"
    "proposals t = (proposals s)(i \<mapsto> p\<lparr>gp_status := PsExecuted\<rparr>)" "next_proposal t = next_proposal s"
    "t = emit (''gov'', ''executed'') [VNat i, VAddr x, VNat (action_code (gp_action p))] (put_proposal i (p\<lparr>gp_status := PsExecuted\<rparr>) u)"
proof -
  from assms obtain p u where p: "proposals s i = Some p" "gp_status p = PsApproved" "e_auth e x" "is_authorized_gov_user s x"
    "e_ledger e \<le> gp_expires_at p" "execute_action e (gp_action p) s = Inr u"
    and t: "t = emit (''gov'', ''executed'') [VNat i, VAddr x, VNat (action_code (gp_action p))] (put_proposal i (p\<lparr>gp_status := PsExecuted\<rparr>) u)"
    by (auto simp: execute_def and_then_Inr ok_or_Inr gov_gate_Inr split: if_splits proposal_status.splits)
  show thesis using that[OF p _ _ t] execute_action_gov[OF p(6)] by (simp add: t put_proposal_def next_proposal_def)
qed

lemma cancel_Inr:
  assumes "cancel_proposal e x i s = Inr t"
  obtains p where "proposals s i = Some p" "gp_status p \<noteq> PsExecuted" "gp_status p \<noteq> PsCancelled" "e_auth e x" "is_authorized_gov_user s x"
    "proposals t = (proposals s)(i \<mapsto> p\<lparr>gp_status := PsCancelled\<rparr>)" "next_proposal t = next_proposal s"
proof -
  from assms obtain p where p: "proposals s i = Some p" "e_auth e x" "is_authorized_gov_user s x"
    and c: "gp_status p \<noteq> PsExecuted" "gp_status p \<noteq> PsCancelled"
      "t = emit (''gov'', ''cancel'') [VNat i, VAddr x] (put_proposal i (p\<lparr>gp_status := PsCancelled\<rparr>) s)"
    by (cases "proposals s i"; cases "gp_status (the (proposals s i))") (auto simp: cancel_proposal_def and_then_Inr gov_gate_Inr)
  show thesis using that[OF p(1) c(1,2) p(2,3)] by (simp add: c(3) put_proposal_def next_proposal_def)
qed

text \<open>The other calls leave the proposals alone.\<close>

fun proposal_call :: "gov_call \<Rightarrow> bool" where
  "proposal_call (GPropose _ _ _) = True"
| "proposal_call (GApprove _ _) = True"
| "proposal_call (GExecute _ _) = True"
| "proposal_call (GCancel _ _) = True"
| "proposal_call _ = False"

lemma other_call:
  assumes "gov_exec e c s = Inr t" "\<not> proposal_call c"
  shows "proposals t = proposals s" "next_proposal t = next_proposal s"
  using assms
  by (cases c; force simp: set_gov_approver_def set_gov_proposal_ttl_def establish_constitution_def propose_amendment_def veto_amendment_def
      activate_amendment_def get_amendment_def and_then_Inr Let_def put_amendment_def next_proposal_def split: if_splits option.splits)+

section \<open>The lifecycle\<close>

text \<open>The abstract state machine of one proposal: absent, pending, approved by somebody other than
  the proposer, executed; cancelled from anywhere but the two final states.\<close>

inductive lifecycle :: "gov_proposal option \<Rightarrow> gov_proposal option \<Rightarrow> bool" where
  proposed: "gp_status p = PsPending \<Longrightarrow> gp_approver p = None \<Longrightarrow> lifecycle None (Some p)"
| approved: "gp_status p = PsPending \<Longrightarrow> b \<noteq> gp_proposer p \<Longrightarrow>
    lifecycle (Some p) (Some (p\<lparr>gp_approver := Some b, gp_status := PsApproved\<rparr>))"
| executed: "gp_status p = PsApproved \<Longrightarrow> lifecycle (Some p) (Some (p\<lparr>gp_status := PsExecuted\<rparr>))"
| cancelled: "gp_status p \<noteq> PsExecuted \<Longrightarrow> gp_status p \<noteq> PsCancelled \<Longrightarrow> lifecycle (Some p) (Some (p\<lparr>gp_status := PsCancelled\<rparr>))"

inductive_cases lifecycle_from: "lifecycle (Some p) q"

lemma final_states: "gp_status p = PsExecuted \<or> gp_status p = PsCancelled \<Longrightarrow> \<not> lifecycle (Some p) q"
  by (auto elim: lifecycle_from)

text \<open>Who acts in a call on a proposal.\<close>

fun actor :: "gov_call \<Rightarrow> address option" where
  "actor (GPropose a _ _) = Some a"
| "actor (GApprove a _) = Some a"
| "actor (GExecute a _) = Some a"
| "actor (GCancel a _) = Some a"
| "actor _ = None"

lemma governance_lifecycle:
  assumes "gov_exec e c s = Inr t" "ids_ok s"
  shows "(\<forall>i. proposals t i = proposals s i \<or>
            lifecycle (proposals s i) (proposals t i) \<and> (\<exists>u. actor c = Some u \<and> e_auth e u \<and> is_authorized_gov_user s u)) \<and>
         ids_ok t"
proof (cases "proposal_call c")
  case False
  then show ?thesis using other_call[OF assms(1) False] assms(2) by (simp add: ids_ok_def)
next
  case True
  then show ?thesis
  proof (cases c)
    case (GPropose a act ttl)
    then obtain i where "propose e a act ttl s = Inr (i, t)" using assms(1) by (auto simp: and_then_Inr)
    then show ?thesis
      by (rule propose_Inr) (use assms(2) in \<open>auto simp: GPropose ids_ok_def intro: lifecycle.proposed\<close>)
  next
    case (GApprove b i)
    with assms(1) have "approve e b i s = Inr t" by simp
    then show ?thesis
      by (rule approve_Inr) (use assms(2) in \<open>auto simp: GApprove ids_ok_def intro: lifecycle.approved\<close>)
  next
    case (GExecute x i)
    with assms(1) have "execute e x i s = Inr t" by simp
    then show ?thesis
      by (rule execute_Inr) (use assms(2) in \<open>auto simp: GExecute ids_ok_def intro: lifecycle.executed\<close>)
  next
    case (GCancel x i)
    with assms(1) have "cancel_proposal e x i s = Inr t" by simp
    then show ?thesis
      by (rule cancel_Inr) (use assms(2) in \<open>auto simp: GCancel ids_ok_def intro: lifecycle.cancelled\<close>)
  qed simp_all
qed

lemmas governance_lifecycle_ids = governance_lifecycle[THEN conjunct2]

text \<open>C22 Governance refines the lifecycle.  Whatever call succeeds, every proposal either stays as it is
  or makes one step of the abstract state machine, and it makes one only in a call that a
  governance user, admin or approver, signed.  So a proposal is approved only by somebody
  other than its proposer, executed only after an approval, never changed once executed or
  cancelled, and an id in use is never handed out again.\<close>

theorem governance_refines_lifecycle:
  assumes "gov_exec e c s = Inr t" "ids_ok s"
  shows "(\<forall>i. proposals t i = proposals s i \<or>
            lifecycle (proposals s i) (proposals t i) \<and> (\<exists>u. actor c = Some u \<and> e_auth e u \<and> is_authorized_gov_user s u)) \<and>
         ids_ok t"
  using governance_lifecycle[OF assms] .

text \<open>A contract with admin 1 and second approver 3, for the examples.\<close>

definition gov_store :: store where
  "gov_store = empty_store\<lparr>s_admin := Some 1, s_oracle := Some 2, s_schema := Some 3,
     s_gov := (s_gov empty_store)\<lparr>g_approver := Some 3\<rparr>\<rparr>"

lemma gov_store_fields:
  "s_admin gov_store = Some 1" "s_schema gov_store = Some 3" "g_approver (s_gov gov_store) = Some 3"
  "proposals gov_store = Map.empty" "g_next_id (s_gov gov_store) = None" "g_ttl (s_gov gov_store) = None" "s_mode gov_store = None"
  "g_amendments (s_gov gov_store) = Map.empty" "g_next_amendment (s_gov gov_store) = None" "g_constitution (s_gov gov_store) = None"
  by (simp_all add: gov_store_def empty_store_def)

lemmas gov_simps = propose_def approve_def execute_def gov_gate_def require_supported_schema_def schema_version_def CURRENT_SCHEMA_VERSION_def
  gov_store_fields sample_env_def require_auth_def is_authorized_gov_user_def next_counter_def u64_max_def u32_max_def Let_def ensure_def
  get_gov_proposal_ttl_def DEFAULT_GOV_PROPOSAL_TTL_LEDGERS_def usaturating_add_def put_proposal_def

theorem governance_refines_lifecycle_witness:
  "\<exists>t. gov_exec (sample_env 10 60 [1]) (GPropose 1 PauseProtocol None) gov_store = Inr t \<and>
       lifecycle (proposals gov_store 1) (proposals t 1) \<and> ids_ok t"
proof -
  obtain i t where p: "propose (sample_env 10 60 [1]) 1 PauseProtocol None gov_store = Inr (i, t)"
    by (simp add: gov_simps del: One_nat_def)
  then have run: "gov_exec (sample_env 10 60 [1]) (GPropose 1 PauseProtocol None) gov_store = Inr t" by simp
  have i: "i = 1" "proposals t 1 \<noteq> None"
    using p by (auto elim!: propose_Inr simp: next_proposal_def gov_store_fields)
  have "ids_ok gov_store" by (simp add: ids_ok_def gov_store_fields)
  from governance_refines_lifecycle[OF run this] i(2) run show ?thesis
    by (metis gov_store_fields(4))
qed

section \<open>Runs\<close>

definition executes :: "nat \<Rightarrow> (env \<times> gov_call) list \<Rightarrow> nat" where
  "executes i cs = length (filter (\<lambda>(e, c). \<exists>x. c = GExecute x i) cs)"

text \<open>In the run \<open>cs\<close> from \<open>s\<close>, user \<open>a\<close> proposed the action \<open>act\<close> under the id \<open>i\<close>; the calls after it
  are \<open>later\<close>.\<close>

definition proposed_in :: "(env \<times> gov_call) list \<Rightarrow> store \<Rightarrow> nat \<Rightarrow> address \<Rightarrow> gov_action \<Rightarrow> (env \<times> gov_call) list \<Rightarrow> bool" where
  "proposed_in cs s i a act later \<longleftrightarrow>
     (\<exists>before e ttl s1 s2. cs = before @ (e, GPropose a act ttl) # later \<and> gov_run before s = Inr s1 \<and>
        propose e a act ttl s1 = Inr (i, s2) \<and> e_auth e a)"

definition approved_in :: "(env \<times> gov_call) list \<Rightarrow> nat \<Rightarrow> address \<Rightarrow> (env \<times> gov_call) list \<Rightarrow> bool" where
  "approved_in cs i b later \<longleftrightarrow> (\<exists>between e. cs = between @ (e, GApprove b i) # later \<and> e_auth e b)"

lemma extend_run:
  "proposed_in cs s i a act later \<Longrightarrow> proposed_in (cs @ [x]) s i a act (later @ [x])"
  "approved_in cs i b later \<Longrightarrow> approved_in (cs @ [x]) i b (later @ [x])"
  by (fastforce simp: proposed_in_def approved_in_def)+

lemma executes_snoc [simp]: "executes i (cs @ [(e, c)]) = executes i cs + (if \<exists>x. c = GExecute x i then 1 else 0)"
  by (simp add: executes_def)

text \<open>What the run so far says about a stored proposal.\<close>

definition trail :: "(env \<times> gov_call) list \<Rightarrow> store \<Rightarrow> nat \<Rightarrow> gov_proposal \<Rightarrow> bool" where
  "trail cs s i p \<longleftrightarrow>
     (\<exists>later. proposed_in cs s i (gp_proposer p) (gp_action p) later \<and>
        (gp_status p = PsApproved \<or> gp_status p = PsExecuted \<longrightarrow>
           (\<exists>b last_calls. gp_approver p = Some b \<and> b \<noteq> gp_proposer p \<and> approved_in later i b last_calls))) \<and>
     executes i cs = (if gp_status p = PsExecuted then 1 else 0)"

lemma trail_keep:
  assumes "trail cs s i p" "gp_proposer q = gp_proposer p" "gp_action q = gp_action p" "gp_approver q = gp_approver p"
    and "gp_status q = gp_status p \<or> gp_status q = PsCancelled \<or> gp_status p = PsApproved \<and> gp_status q = PsExecuted"
    and "executes i (cs @ [x]) = (if gp_status q = PsExecuted then 1 else 0)"
  shows "trail (cs @ [x]) s i q"
proof -
  from assms(1) obtain later where l: "proposed_in cs s i (gp_proposer p) (gp_action p) later"
    "gp_status p = PsApproved \<or> gp_status p = PsExecuted \<longrightarrow>
       (\<exists>b last_calls. gp_approver p = Some b \<and> b \<noteq> gp_proposer p \<and> approved_in later i b last_calls)"
    by (auto simp: trail_def)
  have "gp_status q = PsApproved \<or> gp_status q = PsExecuted \<longrightarrow>
       (\<exists>b last_calls. gp_approver q = Some b \<and> b \<noteq> gp_proposer q \<and> approved_in (later @ [x]) i b last_calls)"
    using l(2) assms(2,4,5) extend_run(2) by fastforce
  then show ?thesis unfolding trail_def using extend_run(1)[OF l(1), of x] assms(2,3,6) by auto
qed

definition trails :: "(env \<times> gov_call) list \<Rightarrow> store \<Rightarrow> store \<Rightarrow> nat \<Rightarrow> bool" where
  "trails cs s t i \<longleftrightarrow> (case proposals t i of None \<Rightarrow> executes i cs = 0 | Some p \<Rightarrow> trail cs s i p)"

lemma trails_keep:
  assumes "trails cs s u i" "proposals t i = proposals u i" "\<nexists>y. c = GExecute y i"
  shows "trails (cs @ [(e, c)]) s t i"
proof (cases "proposals u i")
  case None
  then show ?thesis using assms by (simp add: trails_def)
next
  case (Some p)
  with assms(1) have p: "trail cs s i p" by (simp add: trails_def)
  then have "executes i (cs @ [(e, c)]) = (if gp_status p = PsExecuted then 1 else 0)" using assms(3) by (simp add: trail_def)
  from trail_keep[OF p refl refl refl _ this] Some assms(2) show ?thesis by (simp add: trails_def)
qed

lemma trails_propose:
  assumes "gov_run cs s = Inr u" "propose e a act ttl u = Inr (i, t)" "ids_ok u" "trails cs s u i"
  shows "trails (cs @ [(e, GPropose a act ttl)]) s t i"
  using assms(2)
proof (rule propose_Inr)
  fix p
  assume p: "i = next_proposal u" "proposals t = (proposals u)(i \<mapsto> p)" "e_auth e a" "gp_proposer p = a" "gp_action p = act" "gp_status p = PsPending"
  have "executes i cs = 0" using assms(3,4) p(1) by (simp add: ids_ok_def trails_def)
  moreover have "proposed_in (cs @ [(e, GPropose a act ttl)]) s i a act []" using assms(1,2) p(3) by (auto simp: proposed_in_def)
  ultimately have "trail (cs @ [(e, GPropose a act ttl)]) s i p" using p by (auto simp: trail_def)
  then show ?thesis using p(2) by (simp add: trails_def)
qed

lemma trails_approve:
  assumes "approve e b i u = Inr t" "trails cs s u i"
  shows "trails (cs @ [(e, GApprove b i)]) s t i"
  using assms(1)
proof (rule approve_Inr)
  fix p
  assume p: "proposals u i = Some p" "gp_status p = PsPending" "b \<noteq> gp_proposer p" "e_auth e b"
    "proposals t = (proposals u)(i \<mapsto> p\<lparr>gp_approver := Some b, gp_status := PsApproved\<rparr>)"
  from assms(2) p(1,2) obtain later where l: "proposed_in cs s i (gp_proposer p) (gp_action p) later" "executes i cs = 0"
    by (auto simp: trails_def trail_def)
  have "approved_in (later @ [(e, GApprove b i)]) i b []" using p(4) by (auto simp: approved_in_def)
  then have "trail (cs @ [(e, GApprove b i)]) s i (p\<lparr>gp_approver := Some b, gp_status := PsApproved\<rparr>)"
    using extend_run(1)[OF l(1), of "(e, GApprove b i)"] l(2) p(3) by (auto simp: trail_def)
  then show ?thesis using p(5) by (simp add: trails_def)
qed

lemma trails_execute:
  assumes "execute e x i u = Inr t" "trails cs s u i"
  shows "trails (cs @ [(e, GExecute x i)]) s t i"
  using assms(1)
proof (rule execute_Inr)
  fix p w
  assume p: "proposals u i = Some p" "gp_status p = PsApproved" "proposals t = (proposals u)(i \<mapsto> p\<lparr>gp_status := PsExecuted\<rparr>)"
  from assms(2) p(1) have tr: "trail cs s i p" by (simp add: trails_def)
  then have "executes i (cs @ [(e, GExecute x i)]) = 1" using p(2) by (simp add: trail_def)
  then have "trail (cs @ [(e, GExecute x i)]) s i (p\<lparr>gp_status := PsExecuted\<rparr>)" by (intro trail_keep[OF tr]) (simp_all add: p(2))
  then show ?thesis using p(3) by (simp add: trails_def)
qed

lemma trails_cancel:
  assumes "cancel_proposal e x i u = Inr t" "trails cs s u i"
  shows "trails (cs @ [(e, GCancel x i)]) s t i"
  using assms(1)
proof (rule cancel_Inr)
  fix p
  assume p: "proposals u i = Some p" "gp_status p \<noteq> PsExecuted" "proposals t = (proposals u)(i \<mapsto> p\<lparr>gp_status := PsCancelled\<rparr>)"
  from assms(2) p(1) have tr: "trail cs s i p" by (simp add: trails_def)
  then have "executes i (cs @ [(e, GCancel x i)]) = 0" using p(2) by (simp add: trail_def)
  then have "trail (cs @ [(e, GCancel x i)]) s i (p\<lparr>gp_status := PsCancelled\<rparr>)" by (intro trail_keep[OF tr]) simp_all
  then show ?thesis using p(3) by (simp add: trails_def)
qed

lemma trails_step:
  assumes "gov_run cs s = Inr u" "gov_exec e c u = Inr t" "ids_ok u" "\<forall>i. trails cs s u i"
  shows "trails (cs @ [(e, c)]) s t i"
proof (cases c)
  case (GPropose a act ttl)
  then obtain j where j: "propose e a act ttl u = Inr (j, t)" using assms(2) by (auto simp: and_then_Inr)
  show ?thesis
  proof (cases "i = j")
    case False
    then have "proposals t i = proposals u i" using j by (auto elim: propose_Inr)
    then show ?thesis using assms(4) GPropose by (intro trails_keep) auto
  qed (use trails_propose[OF assms(1) j assms(3)] assms(4) GPropose in simp)
next
  case (GApprove b j)
  with assms(2) have j: "approve e b j u = Inr t" by simp
  show ?thesis
  proof (cases "i = j")
    case False
    then have "proposals t i = proposals u i" using j by (auto elim: approve_Inr)
    then show ?thesis using assms(4) GApprove by (intro trails_keep) auto
  qed (use trails_approve[OF j] assms(4) GApprove in simp)
next
  case (GExecute x j)
  with assms(2) have j: "execute e x j u = Inr t" by simp
  show ?thesis
  proof (cases "i = j")
    case False
    then have "proposals t i = proposals u i" using j by (auto elim: execute_Inr)
    then show ?thesis using assms(4) GExecute False by (intro trails_keep) auto
  qed (use trails_execute[OF j] assms(4) GExecute in simp)
next
  case (GCancel x j)
  with assms(2) have j: "cancel_proposal e x j u = Inr t" by simp
  show ?thesis
  proof (cases "i = j")
    case False
    then have "proposals t i = proposals u i" using j by (auto elim: cancel_Inr)
    then show ?thesis using assms(4) GCancel by (intro trails_keep) auto
  qed (use trails_cancel[OF j] assms(4) GCancel in simp)
qed (use other_call[OF assms(2)] assms(4) in \<open>auto intro!: trails_keep\<close>)

lemma run_trail:
  assumes "gov_run cs s = Inr t" "proposals s = Map.empty"
  shows "ids_ok t \<and> (\<forall>i. trails cs s t i)"
  using assms
proof (induction cs arbitrary: t rule: rev_induct)
  case Nil
  then show ?case by (simp add: ids_ok_def executes_def trails_def)
next
  case (snoc x cs)
  obtain e c where x: "x = (e, c)" by (cases x)
  obtain u where u: "gov_run cs s = Inr u" "gov_exec e c u = Inr t" using snoc.prems(1) by (auto simp: x gov_run_snoc and_then_Inr)
  note IH = snoc.IH[OF u(1) snoc.prems(2)]
  then show ?case
    using governance_lifecycle_ids[OF u(2)] trails_step[OF u] unfolding x by blast
qed

text \<open>C23 No action takes effect on one person's word.  In any run of governance calls from a contract
  without proposals, whatever the order, the signers and changes of admin or approver in
  between, a proposal is executed at most once, and an executed one was first proposed, with
  just this action, by one user and later approved by a different one, both having signed.\<close>

theorem executed_by_two_once:
  assumes "gov_run cs s = Inr t" "proposals s = Map.empty"
  shows "executes i cs \<le> 1 \<and>
    (0 < executes i cs \<longrightarrow>
       (\<exists>p b later rest. proposals t i = Some p \<and> gp_status p = PsExecuted \<and> b \<noteq> gp_proposer p \<and>
          proposed_in cs s i (gp_proposer p) (gp_action p) later \<and> approved_in later i b rest))"
proof (cases "proposals t i")
  case None
  then show ?thesis using run_trail[OF assms] by (auto simp: trails_def dest!: spec[of _ i])
next
  case (Some p)
  then have "trail cs s i p" using run_trail[OF assms] by (auto simp: trails_def dest!: spec[of _ i])
  then show ?thesis using Some by (auto simp: trail_def split: if_splits)
qed

definition sample_calls :: "(env \<times> gov_call) list" where
  "sample_calls = [(sample_env 10 60 [1], GPropose 1 PauseProtocol None), (sample_env 11 65 [3], GApprove 3 1),
                   (sample_env 12 70 [1], GExecute 1 1)]"

theorem executed_by_two_once_witness:
  "\<exists>t. gov_run sample_calls gov_store = Inr t \<and> executes 1 sample_calls = 1 \<and>
       (\<exists>p. proposals t 1 = Some p \<and> gp_status p = PsExecuted)"
proof -
  obtain t where run: "gov_run sample_calls gov_store = Inr t"
    by (simp add: sample_calls_def gov_run_def gov_simps execute_action_def set_mode_def current_mode_def del: One_nat_def)
  have "executes 1 sample_calls = 1" by (simp add: sample_calls_def executes_def)
  with executed_by_two_once[OF run gov_store_fields(4), of 1] run show ?thesis by auto
qed

text \<open>C24 An expired proposal is dead but for its cancellation.  From the ledger after its last one on,
  approving and executing fail with \<open>ProposalExpired\<close> for everyone, whatever its status, the
  query never shows it as pending or approved, and cancelling still works on it unless it was
  executed or cancelled.\<close>

theorem expired_proposal:
  assumes "proposals s i = Some p" "gp_expires_at p < e_ledger e" "gov_gate e u s = Inr ()"
  shows "approve e u i s = Inl (Fail ProposalExpired) \<and> execute e u i s = Inl (Fail ProposalExpired) \<and>
         (\<exists>q. get_gov_proposal e i s = Some q \<and> gp_status q \<noteq> PsPending \<and> gp_status q \<noteq> PsApproved) \<and>
         (gp_status p \<noteq> PsExecuted \<and> gp_status p \<noteq> PsCancelled \<longrightarrow>
            (\<exists>t. cancel_proposal e u i s = Inr t \<and> proposals t i = Some (p\<lparr>gp_status := PsCancelled\<rparr>)))"
  using assms
  by (auto simp: approve_def execute_def get_gov_proposal_def cancel_proposal_def put_proposal_def split: proposal_status.splits)

theorem expired_proposal_witness:
  "\<exists>s p. proposals s 1 = Some p \<and> gp_status p = PsPending \<and> gp_expires_at p = 15 \<and>
     approve (sample_env 16 90 [3]) 3 1 s = Inl (Fail ProposalExpired)"
proof -
  obtain j s where run: "propose (sample_env 10 60 [1]) 1 PauseProtocol (Some 5) gov_store = Inr (j, s)"
    by (simp add: gov_simps del: One_nat_def)
  then obtain p where p: "proposals s 1 = Some p" "gp_status p = PsPending" "gp_expires_at p = 15"
    by (auto elim!: propose_Inr simp: next_proposal_def gov_store_fields sample_env_def u32_max_def)
  have "gov_gate (sample_env 16 90 [3]) 3 s = Inr ()" using run by (auto simp: gov_simps simp del: One_nat_def)
  with expired_proposal[OF p(1), of "sample_env 16 90 [3]" 3] p show ?thesis by (auto simp: sample_env_def)
qed

section \<open>The treasury address\<close>

lemma read_treasury_address [simp]: "k_treasury (s_money s) = Some (TAddress a) \<Longrightarrow> read_treasury s = Inl Trap"
  by (simp add: read_treasury_def)

lemma collect_fee_treasury: "collect_insurance_fee rid x s = Inr (y, t) \<Longrightarrow> k_treasury (s_money t) = k_treasury (s_money s)"
  by (auto simp: collect_insurance_fee_def and_then_Inr Let_def set_fund_def split: if_splits)

lemma no_fee_into_address:
  assumes "k_treasury (s_money s) = Some (TAddress a)"
  shows "0 < fee \<Longrightarrow> collect_protocol_fee rid fee bps model s \<noteq> Inr u"
    "withdraw_fee recipient amount s \<noteq> Inr w"
    "apply_protocol_fee_updown rid x y s = Inr ((dw, dl, f), u') \<Longrightarrow> f \<le> 0"
    "apply_protocol_fee_precision rid x y s = Inr ((d, f), u') \<Longrightarrow> f \<le> 0"
proof -
  have collect: "0 < fee \<Longrightarrow> collect_protocol_fee rid fee bps model s \<noteq> Inr u" for fee bps model u
  proof
    assume c: "0 < fee" "collect_protocol_fee rid fee bps model s = Inr u"
    then obtain x t y where "collect_insurance_fee rid fee s = Inr (x, t)" "read_treasury t = Inr y"
      by (auto simp: collect_protocol_fee_def and_then_Inr)
    then show False using assms collect_fee_treasury by fastforce
  qed
  then show "0 < fee \<Longrightarrow> collect_protocol_fee rid fee bps model s \<noteq> Inr u" .
  show "withdraw_fee recipient amount s \<noteq> Inr w" using assms by (simp add: withdraw_fee_def)
  show "apply_protocol_fee_updown rid x y s = Inr ((dw, dl, f), u') \<Longrightarrow> f \<le> 0"
    "apply_protocol_fee_precision rid x y s = Inr ((d, f), u') \<Longrightarrow> f \<le> 0"
    using collect by (auto simp: apply_protocol_fee_updown_def apply_protocol_fee_precision_def and_then_Inr Let_def split: if_splits)
qed

text \<open>C25 Executing a treasury address destroys the treasury.  The action writes an address into the slot
  every other operation reads as an amount: the collected fees are gone from the contract's
  holdings, and from then on no fee can be collected and none withdrawn, since both trap on
  the slot; a settlement that owes a fee therefore fails.\<close>

theorem treasury_address_destroys_treasury:
  assumes "execute e x i s = Inr t" "proposals s i = Some p" "gp_action p = SetTreasuryAddress a"
  shows "held t = held s - treasury_value (k_treasury (s_money s)) \<and>
         (\<forall>rid fee bps model u. 0 < fee \<longrightarrow> collect_protocol_fee rid fee bps model t \<noteq> Inr u) \<and>
         (\<forall>recipient amount u. withdraw_fee recipient amount t \<noteq> Inr u) \<and>
         (\<forall>rid w l dw dl fee u. apply_protocol_fee_updown rid w l t = Inr ((dw, dl, fee), u) \<longrightarrow> fee \<le> 0) \<and>
         (\<forall>rid pot ws d fee u. apply_protocol_fee_precision rid pot ws t = Inr ((d, fee), u) \<longrightarrow> fee \<le> 0)"
  using assms(1)
proof (rule execute_Inr)
  fix q u
  assume q: "proposals s i = Some q" "execute_action e (gp_action q) s = Inr u"
    and t: "t = emit (''gov'', ''executed'') [VNat i, VAddr x, VNat (action_code (gp_action q))] (put_proposal i (q\<lparr>gp_status := PsExecuted\<rparr>) u)"
  have u: "u = set_treasury (TAddress a) s" using q assms(2,3) by (simp add: execute_action_def)
  then have slot: "k_treasury (s_money t) = Some (TAddress a)" by (simp add: t put_proposal_def set_treasury_def)
  moreover have "held t = held s - treasury_value (k_treasury (s_money s))"
    by (simp add: t u put_proposal_def set_treasury_def held_def treasury_value_def)
  ultimately show ?thesis using no_fee_into_address[OF slot] by blast
qed

theorem treasury_address_destroys_treasury_witness:
  "\<exists>s t. execute (sample_env 12 70 [1]) 1 1 s = Inr t \<and> held s = 250 \<and> held t = 0 \<and>
     (\<forall>u. withdraw_fee 1 10 t \<noteq> Inr u)"
proof -
  let ?p = "\<lparr>gp_id = 1, gp_proposer = 1, gp_approver = Some 3, gp_action = SetTreasuryAddress 9, gp_created_at = 10,
             gp_expires_at = 110, gp_status = PsApproved\<rparr>"
  let ?s = "put_proposal 1 ?p (gov_store\<lparr>s_money := (s_money empty_store)\<lparr>k_treasury := Some (TAmount 250)\<rparr>\<rparr>)"
  obtain t where run: "execute (sample_env 12 70 [1]) 1 1 ?s = Inr t"
    by (simp add: gov_simps execute_action_def del: One_nat_def)
  have "held ?s = 250" "treasury_value (k_treasury (s_money ?s)) = 250"
    by (simp_all add: held_def put_proposal_def treasury_value_def empty_store_def)
  moreover have "proposals ?s 1 = Some ?p" by (simp add: put_proposal_def)
  then have "held t = held ?s - treasury_value (k_treasury (s_money ?s))" "\<forall>u. withdraw_fee 1 10 t \<noteq> Inr u"
    using treasury_address_destroys_treasury[OF run, of ?p 9] by simp_all
  ultimately show ?thesis using run by (intro exI[of _ ?s] exI[of _ t]) simp
qed

section \<open>Amendments\<close>


definition dual_constitution :: store where
  "dual_constitution = upd_gov (\<lambda>g. g\<lparr>g_constitution := Some \<lparr>cn_veto_window = 5, cn_timelock = 10, cn_dual_approval = True, cn_established_at = 1\<rparr>\<rparr>) gov_store"


end
