(* ===== verification/Storage_Keys.thy ===== *)
theory Storage_Keys
  imports Administration
begin

text \<open>
  The parameterless storage keys of \<open>contracts/src/types.rs\<close> (\<open>DataKeyCore\<close> and \<open>DataKeyExt\<close>),
  which field of the store each names, and the operations of \<open>contracts/src/admin.rs\<close> and
  \<open>contracts/src/contract.rs\<close> that are about entries as such: the maintenance of their time to
  live, of which the model keeps the event and the counters, and the query of the oracle rotation
  that removes an expired proposal.
\<close>

datatype data_key_ext =
    LeaderboardWins | LeaderboardStreak | SeasonId | SeasonUserStats nat address | SeasonLeaderboardWins
  | SeasonLeaderboardStreak | SeasonArchiveKey nat | ConstitutionMetadata | AmendmentKey nat | NextAmendmentId

datatype data_key_core =
    AdminKey | OracleKey | SchemaVersion | ActiveRound | Positions | UpDownPositions | PrecisionPositions | Paused
  | BetWindowLedgers | RunWindowLedgers | CloseBufferLedgers | LastRoundId | MaxStake | MaxUserRoundExposure
  | MaxPendingWinnings | MinParticipants | OracleHeartbeat | OracleStaleThreshold | MaxPrecisionParticipants
  | OracleMaxDeviationBps | OracleDeviationOverrideArmed | OracleMinConfidenceBps | OracleStrictMode
  | RecentArchivedRoundIds | MigratedToV3 | ProtocolFeeBps | ProtocolFeeTreasury | MintLimitConfig
  | OracleRotationProposal | ArchiveRetention | RoundTemplate | OracleQuorum | NextSchemaVersion | MinBet
  | EpochMintBudget | EarlyCashoutBps | FeeModelKey | DisputeLedgersKey | PrecisionPayoutPolicyKey
  | AccessControlEnabled | GovApprover | GovProposalTtlLedgers | NextGovProposalId | Ext data_key_ext

text \<open>Presence in the persistent storage.  The legacy maps are never written.  The mint limit and the
  epoch budget live in the instance storage, the dispute window under a symbol, and the statistics
  and archives of seasons under the scoped keys, so these variants are never present.\<close>

fun has_ext :: "store \<Rightarrow> data_key_ext \<Rightarrow> bool" where
  "has_ext s LeaderboardWins = (l_wins (s_board s) \<noteq> None)"
| "has_ext s LeaderboardStreak = (l_streak (s_board s) \<noteq> None)"
| "has_ext s SeasonId = (l_season_id (s_board s) \<noteq> None)"
| "has_ext s (SeasonUserStats season u) = False"
| "has_ext s SeasonLeaderboardWins = (l_season_wins (s_board s) \<noteq> None)"
| "has_ext s SeasonLeaderboardStreak = (l_season_streak (s_board s) \<noteq> None)"
| "has_ext s (SeasonArchiveKey season) = False"
| "has_ext s ConstitutionMetadata = (g_constitution (s_gov s) \<noteq> None)"
| "has_ext s (AmendmentKey n) = (g_amendments (s_gov s) n \<noteq> None)"
| "has_ext s NextAmendmentId = (g_next_amendment (s_gov s) \<noteq> None)"

fun has_key :: "store \<Rightarrow> data_key_core \<Rightarrow> bool" where
  "has_key s AdminKey = (s_admin s \<noteq> None)"
| "has_key s OracleKey = (s_oracle s \<noteq> None)"
| "has_key s SchemaVersion = (s_schema s \<noteq> None)"
| "has_key s ActiveRound = (b_active (s_book s) \<noteq> None)"
| "has_key s Positions = False"
| "has_key s UpDownPositions = False"
| "has_key s PrecisionPositions = False"
| "has_key s Paused = (s_mode s \<noteq> None)"
| "has_key s BetWindowLedgers = (c_bet_window (s_config s) \<noteq> None)"
| "has_key s RunWindowLedgers = (c_run_window (s_config s) \<noteq> None)"
| "has_key s CloseBufferLedgers = (c_close_buffer (s_config s) \<noteq> None)"
| "has_key s LastRoundId = (b_last_id (s_book s) \<noteq> None)"
| "has_key s MaxStake = (c_max_stake (s_config s) \<noteq> None)"
| "has_key s MaxUserRoundExposure = (c_max_exposure (s_config s) \<noteq> None)"
| "has_key s MaxPendingWinnings = (c_max_pending (s_config s) \<noteq> None)"
| "has_key s MinParticipants = (c_min_participants (s_config s) \<noteq> None)"
| "has_key s OracleHeartbeat = (o_heartbeat (s_orc s) \<noteq> None)"
| "has_key s OracleStaleThreshold = (o_stale_threshold (s_orc s) \<noteq> None)"
| "has_key s MaxPrecisionParticipants = (c_max_precision_participants (s_config s) \<noteq> None)"
| "has_key s OracleMaxDeviationBps = (o_max_deviation_bps (s_orc s) \<noteq> None)"
| "has_key s OracleDeviationOverrideArmed = (o_deviation_override (s_orc s) \<noteq> None)"
| "has_key s OracleMinConfidenceBps = (o_min_confidence_bps (s_orc s) \<noteq> None)"
| "has_key s OracleStrictMode = (o_strict_mode (s_orc s) \<noteq> None)"
| "has_key s RecentArchivedRoundIds = (h_recent (s_history s) \<noteq> None)"
| "has_key s MigratedToV3 = (s_migrated_v3 s \<noteq> None)"
| "has_key s ProtocolFeeBps = (c_fee_bps (s_config s) \<noteq> None)"
| "has_key s ProtocolFeeTreasury = (k_treasury (s_money s) \<noteq> None)"
| "has_key s MintLimitConfig = False"
| "has_key s OracleRotationProposal = (o_rotation (s_orc s) \<noteq> None)"
| "has_key s ArchiveRetention = (c_archive_retention (s_config s) \<noteq> None)"
| "has_key s RoundTemplate = (c_template (s_config s) \<noteq> None)"
| "has_key s OracleQuorum = (o_quorum (s_orc s) \<noteq> None)"
| "has_key s NextSchemaVersion = (s_next_schema s \<noteq> None)"
| "has_key s MinBet = (c_min_bet (s_config s) \<noteq> None)"
| "has_key s EpochMintBudget = False"
| "has_key s EarlyCashoutBps = (c_early_cashout_bps (s_config s) \<noteq> None)"
| "has_key s FeeModelKey = (c_fee_model (s_config s) \<noteq> None)"
| "has_key s DisputeLedgersKey = False"
| "has_key s PrecisionPayoutPolicyKey = (c_payout_policy (s_config s) \<noteq> None)"
| "has_key s AccessControlEnabled = (a_enabled (s_access s) \<noteq> None)"
| "has_key s GovApprover = (g_approver (s_gov s) \<noteq> None)"
| "has_key s GovProposalTtlLedgers = (g_ttl (s_gov s) \<noteq> None)"
| "has_key s NextGovProposalId = (g_next_id (s_gov s) \<noteq> None)"
| "has_key s (Ext k) = has_ext s k"

definition is_ttl_touch_allowed :: "data_key_core \<Rightarrow> bool" where
  "is_ttl_touch_allowed key =
     (case key of
        AdminKey \<Rightarrow> True | OracleKey \<Rightarrow> True | SchemaVersion \<Rightarrow> True | Paused \<Rightarrow> True
      | BetWindowLedgers \<Rightarrow> True | RunWindowLedgers \<Rightarrow> True | CloseBufferLedgers \<Rightarrow> True
      | MaxStake \<Rightarrow> True | MaxUserRoundExposure \<Rightarrow> True | MaxPendingWinnings \<Rightarrow> True
      | MinParticipants \<Rightarrow> True | MaxPrecisionParticipants \<Rightarrow> True | OracleHeartbeat \<Rightarrow> True
      | OracleStaleThreshold \<Rightarrow> True | OracleMaxDeviationBps \<Rightarrow> True
      | OracleDeviationOverrideArmed \<Rightarrow> True | OracleMinConfidenceBps \<Rightarrow> True | OracleStrictMode \<Rightarrow> True
      | ProtocolFeeBps \<Rightarrow> True | ProtocolFeeTreasury \<Rightarrow> True | MigratedToV3 \<Rightarrow> True
      | ArchiveRetention \<Rightarrow> True | RoundTemplate \<Rightarrow> True
      | Ext LeaderboardWins \<Rightarrow> True | Ext LeaderboardStreak \<Rightarrow> True | Ext SeasonId \<Rightarrow> True
      | Ext SeasonLeaderboardWins \<Rightarrow> True | Ext SeasonLeaderboardStreak \<Rightarrow> True
      | LastRoundId \<Rightarrow> True | OracleRotationProposal \<Rightarrow> True | MintLimitConfig \<Rightarrow> True
      | _ \<Rightarrow> False)"

definition touch_key :: "store \<Rightarrow> data_key_core \<Rightarrow> nat \<times> nat \<Rightarrow> (nat \<times> nat) res" where
  "touch_key s key = (\<lambda>(touched, skipped).
     if \<not> is_ttl_touch_allowed key then Inl (Fail UnsupportedDataKeyForTtlTouch)
     else if has_key s key then Inr (touched + 1, skipped)
     else Inr (touched, skipped + 1))"

definition batch_touch_ttl :: "env \<Rightarrow> data_key_core list \<Rightarrow> store \<Rightarrow> (nat \<times> store) res" where
  "batch_touch_ttl e keys s =
     and_then (admin_unpaused e s) (\<lambda>_.
     and_then (fold_res (touch_key s) keys (0, 0)) (\<lambda>(touched, skipped).
     Inr (touched, emit (''storage'', ''touch'') [VNat touched, VNat skipped] s)))"

text \<open>A query, but one that writes: an expired proposal is removed.\<close>

definition get_oracle_rotation_proposal :: "env \<Rightarrow> store \<Rightarrow> rotation_proposal option \<times> store" where
  "get_oracle_rotation_proposal e s =
     (case o_rotation (s_orc s) of
        None \<Rightarrow> (None, s)
      | Some p \<Rightarrow>
          if e_time e > ro_expires_at p
          then (None, emit (''oracle'', ''expired'') [VAddr (ro_new_oracle p), VNat (ro_proposed_at p), VNat (ro_expires_at p)]
                        (s\<lparr>s_orc := (s_orc s)\<lparr>o_rotation := None\<rparr>\<rparr>))
          else (Some p, s))"

section \<open>Lemmas\<close>

lemma touch_keys:
  "fold_res (touch_key s) keys (a, b) =
     (if list_all is_ttl_touch_allowed keys
      then Inr (a + length (filter (has_key s) keys), b + length (filter (\<lambda>k. \<not> has_key s k) keys))
      else Inl (Fail UnsupportedDataKeyForTtlTouch))"
  by (induction keys arbitrary: a b) (auto simp: touch_key_def)

text \<open>A batch is all or nothing: every key must be on the list; then the call counts the keys that are
  present and touches nothing the model sees but the event log.\<close>

lemma batch_touch_Inr:
  "batch_touch_ttl e keys s = Inr (n, t) \<longleftrightarrow>
     (\<exists>admin. s_admin s = Some admin \<and> e_auth e admin) \<and> current_mode s \<noteq> FullyPaused \<and>
     list_all is_ttl_touch_allowed keys \<and> n = length (filter (has_key s) keys) \<and>
     t = emit (''storage'', ''touch'') [VNat n, VNat (length keys - n)] s"
proof -
  have "length keys - length (filter (has_key s) keys) = length (filter (\<lambda>k. \<not> has_key s k) keys)"
    using sum_length_filter_compl[of "has_key s" keys] by simp
  then show ?thesis by (auto simp: batch_touch_ttl_def touch_keys res_simps)
qed

text \<open>The mint limit is on the list, but looked up where it is not stored: it is always skipped.\<close>

lemma mint_limit_never_touched:
  assumes "batch_touch_ttl e (MintLimitConfig # keys) s = Inr (n, t)"
  shows "n = length (filter (has_key s) keys)"
  using assms by (simp add: batch_touch_Inr)

text \<open>Reading an expired rotation proposal changes nothing for its acceptance, which fails before and
  after, and leaves a running one alone.\<close>

lemma rotation_query_Inr:
  assumes "get_oracle_rotation_proposal e s = (p, t)"
  shows "p = o_rotation (s_orc t)"
    "t = s \<or> (\<exists>q. o_rotation (s_orc s) = Some q \<and> ro_expires_at q < e_time e \<and> o_rotation (s_orc t) = None)"
  using assms by (auto simp: get_oracle_rotation_proposal_def split: option.splits if_splits)

lemma rotation_query_harmless:
  assumes "get_oracle_rotation_proposal e s = (p, t)" "e_time e \<le> e_time e'"
  shows "accept_oracle_rotation e' t = Inr t' \<longleftrightarrow> accept_oracle_rotation e' s = Inr t'"
  using rotation_query_Inr(2)[OF assms(1)]
proof
  assume "\<exists>q. o_rotation (s_orc s) = Some q \<and> ro_expires_at q < e_time e \<and> o_rotation (s_orc t) = None"
  then have "o_rotation (s_orc t) = None" and "\<And>q. o_rotation (s_orc s) = Some q \<Longrightarrow> ro_expires_at q < e_time e'"
    using assms(2) by auto
  then show ?thesis by (auto simp: accept_oracle_rotation_def and_then_Inr ok_or_Inr not_less if_Inl_Inr)
qed simp

end
