(* ===== verification/Contract.thy ===== *)
theory Contract
  imports Oracle_Properties Governance_Properties Storage_Keys
begin

text \<open>
  The contract as a whole: \<open>contracts/src/contract.rs\<close>, whose entry points hand each call to
  the module that implements it.  A call is a value, grouped as the source groups the entry
  points; \<open>exec\<close> runs one call in an environment, and \<open>reaches n s\<close> says that the store \<open>s\<close>
  arises from an empty one by calls, \<open>n\<close> of them mints.  A call that returns an error leaves
  the store as it was, so only the successful ones make a step.
\<close>

section \<open>Calls\<close>

datatype setup_call =
    Initialize address address
  | MigrateSchemaV1 bool
  | MigrateSchemaV2 bool
  | AnnounceNextSchema nat
  | ClearNextSchema
  | PauseContract
  | UnpauseContract
  | SetRuntimeMode nat
  | ReclaimExpired address
  | ResetSeason
  | BatchTouchTtl "data_key_core list"

datatype oracle_call =
    ArmDeviationOverride
  | SetDeviationRefMode deviation_reference nat
  | SetAttestationKey "bytes option"
  | SetMinConfidence "nat option"
  | SetOracleStrictMode bool
  | SetHbStrictMode bool
  | ArmHbOverride
  | SetHbGrace nat
  | UpdateHeartbeat nat
  | SetQuorum "quorum_config option"
  | ProposeRotation address nat
  | AcceptRotation
  | CancelRotation
  | QueryRotation

datatype access_call =
    EnableAccess bool
  | AddAllowed address
  | RemoveAllowed address
  | AddDenied address
  | RemoveDenied address

datatype schedule_call =
    SetWindows nat nat
  | SetMaxStake "int option"
  | SetMinBet "int option"
  | SetMaxUserExposure "int option"
  | SetMaxPendingWinnings "int option"
  | SetStaleThreshold nat
  | SetMaxDeviation "nat option"
  | SetTimestampSkew nat
  | SetFeeBps "nat option"
  | SetPendingExpiry nat
  | ApplyScheduled config_kind
  | CancelScheduled config_kind

datatype config_call =
    SetFeeModel fee_model
  | SetCloseBuffer nat
  | SetMinParticipants "nat option"
  | SetMaxPrecisionParticipants nat
  | SetPayoutPolicy nat
  | SetMintLimit nat
  | SetEpochMintBudget int
  | SetArchiveRetention nat
  | SetDisputeLedgers nat
  | SetEarlyCashout "nat option"
  | SetRoundTemplate nat "nat option"
  | ClearRoundTemplate
  | WithdrawFee address int

datatype insurance_call =
    SetSplit nat
  | SetCoverage nat
  | SetEligibleEvents "nat list"
  | TopUpFund int
  | WithdrawFund address int

datatype round_call =
    CreateRound nat "nat option"
  | CreateFromTemplate
  | PlaceBet address int bet_side
  | PlacePrecision address int nat
  | PredictPrice address nat int
  | CommitPrediction address bytes int
  | RevealPrediction address nat bytes
  | CashOutEarly address
  | MintInitial address
  | ResolveRound oracle_payload
  | ResolveRoundMulti multi_feed_payload
  | CancelRound nat
  | VoidRound nat
  | FinalizeRound nat
  | ClaimWinnings address
  | ClaimMany "address list"

datatype call =
    Setup setup_call
  | Feed oracle_call
  | Access access_call
  | Schedule schedule_call
  | Configure config_call
  | Insure insurance_call
  | Round round_call
  | Govern gov_call

definition drop_result :: "('a \<times> store) res \<Rightarrow> store res" where
  "drop_result m = and_then m (\<lambda>(_, t). Inr t)"

lemma drop_result_Inr [res_simps]: "drop_result m = Inr t \<longleftrightarrow> (\<exists>x. m = Inr (x, t))"
  by (auto simp: drop_result_def and_then_Inr)

fun exec_setup :: "env \<Rightarrow> setup_call \<Rightarrow> store \<Rightarrow> store res" where
  "exec_setup e (Initialize admin orc) s = initialize e admin orc s"
| "exec_setup e (MigrateSchemaV1 dry) s = migrate_schema_v1_to_v2 e dry s"
| "exec_setup e (MigrateSchemaV2 dry) s = migrate_schema_v2_to_v3 e dry s"
| "exec_setup e (AnnounceNextSchema n) s = announce_next_schema e n s"
| "exec_setup e ClearNextSchema s = clear_next_schema e s"
| "exec_setup e PauseContract s = pause_contract e s"
| "exec_setup e UnpauseContract s = unpause_contract e s"
| "exec_setup e (SetRuntimeMode n) s = set_runtime_mode e n s"
| "exec_setup e (ReclaimExpired u) s = drop_result (reclaim_expired_pending_winnings e u s)"
| "exec_setup e ResetSeason s = drop_result (reset_leaderboard_season e s)"
| "exec_setup e (BatchTouchTtl keys) s = drop_result (batch_touch_ttl e keys s)"

fun exec_oracle :: "env \<Rightarrow> oracle_call \<Rightarrow> store \<Rightarrow> store res" where
  "exec_oracle e ArmDeviationOverride s = arm_oracle_deviation_override e s"
| "exec_oracle e (SetDeviationRefMode m n) s = set_deviation_ref_mode e m n s"
| "exec_oracle e (SetAttestationKey k) s = set_attestation_key e k s"
| "exec_oracle e (SetMinConfidence n) s = set_oracle_min_confidence_bps e n s"
| "exec_oracle e (SetOracleStrictMode b) s = set_oracle_strict_mode e b s"
| "exec_oracle e (SetHbStrictMode b) s = set_hb_strict_mode e b s"
| "exec_oracle e ArmHbOverride s = arm_hb_override e s"
| "exec_oracle e (SetHbGrace n) s = set_hb_grace_seconds e n s"
| "exec_oracle e (UpdateHeartbeat n) s = update_oracle_heartbeat e n s"
| "exec_oracle e (SetQuorum q) s = set_oracle_quorum_config e q s"
| "exec_oracle e (ProposeRotation a n) s = propose_oracle_rotation e a n s"
| "exec_oracle e AcceptRotation s = accept_oracle_rotation e s"
| "exec_oracle e CancelRotation s = cancel_oracle_rotation e s"
| "exec_oracle e QueryRotation s = Inr (snd (get_oracle_rotation_proposal e s))"

fun exec_access :: "env \<Rightarrow> access_call \<Rightarrow> store \<Rightarrow> store res" where
  "exec_access e (EnableAccess b) s = set_access_control_enabled e b s"
| "exec_access e (AddAllowed u) s = add_allowlisted e u s"
| "exec_access e (RemoveAllowed u) s = remove_allowlisted e u s"
| "exec_access e (AddDenied u) s = add_denylisted e u s"
| "exec_access e (RemoveDenied u) s = remove_denylisted e u s"

fun exec_schedule :: "env \<Rightarrow> schedule_call \<Rightarrow> store \<Rightarrow> store res" where
  "exec_schedule e (SetWindows b r) s = schedule_windows e b r s"
| "exec_schedule e (SetMaxStake x) s = schedule_max_stake e x s"
| "exec_schedule e (SetMinBet x) s = schedule_min_bet e x s"
| "exec_schedule e (SetMaxUserExposure x) s = schedule_max_user_exposure e x s"
| "exec_schedule e (SetMaxPendingWinnings x) s = schedule_max_pending_winnings e x s"
| "exec_schedule e (SetStaleThreshold n) s = schedule_oracle_stale_threshold e n s"
| "exec_schedule e (SetMaxDeviation n) s = schedule_oracle_deviation_bps e n s"
| "exec_schedule e (SetTimestampSkew n) s = schedule_oracle_timestamp_skew e n s"
| "exec_schedule e (SetFeeBps n) s = schedule_protocol_fee_bps e n s"
| "exec_schedule e (SetPendingExpiry n) s = schedule_pending_winnings_expiry e n s"
| "exec_schedule e (ApplyScheduled k) s = apply_scheduled_changes e k s"
| "exec_schedule e (CancelScheduled k) s = cancel_config_change e k s"

fun exec_config :: "env \<Rightarrow> config_call \<Rightarrow> store \<Rightarrow> store res" where
  "exec_config e (SetFeeModel m) s = set_fee_model e m s"
| "exec_config e (SetCloseBuffer n) s = set_close_buffer_ledgers e n s"
| "exec_config e (SetMinParticipants n) s = set_min_participants e n s"
| "exec_config e (SetMaxPrecisionParticipants n) s = set_max_precision_participants e n s"
| "exec_config e (SetPayoutPolicy n) s = set_precision_payout_policy e n s"
| "exec_config e (SetMintLimit n) s = set_mint_limit e n s"
| "exec_config e (SetEpochMintBudget x) s = set_epoch_mint_budget e x s"
| "exec_config e (SetArchiveRetention n) s = set_archive_retention e n s"
| "exec_config e (SetDisputeLedgers n) s = set_dispute_ledgers e n s"
| "exec_config e (SetEarlyCashout n) s = set_early_cashout_bps e n s"
| "exec_config e (SetRoundTemplate p m) s = set_round_template e p m s"
| "exec_config e ClearRoundTemplate s = clear_round_template e s"
| "exec_config e (WithdrawFee u x) s = drop_result (withdraw_protocol_fee e u x s)"

fun exec_insurance :: "env \<Rightarrow> insurance_call \<Rightarrow> store \<Rightarrow> store res" where
  "exec_insurance e (SetSplit n) s = set_insurance_split_bps e n s"
| "exec_insurance e (SetCoverage n) s = set_insurance_coverage_bps e n s"
| "exec_insurance e (SetEligibleEvents xs) s = set_insurance_eligible_events e xs s"
| "exec_insurance e (TopUpFund x) s = top_up_insurance_fund e x s"
| "exec_insurance e (WithdrawFund u x) s = drop_result (withdraw_insurance_fund e u x s)"

fun exec_round :: "env \<Rightarrow> round_call \<Rightarrow> store \<Rightarrow> store res" where
  "exec_round e (CreateRound p m) s = create_round e p m s"
| "exec_round e CreateFromTemplate s = drop_result (create_next_from_template e s)"
| "exec_round e (PlaceBet u x side) s = place_bet e u x side s"
| "exec_round e (PlacePrecision u x p) s = place_precision_prediction e u x p s"
| "exec_round e (PredictPrice u p x) s = predict_price e u p x s"
| "exec_round e (CommitPrediction u h x) s = commit_prediction e u h x s"
| "exec_round e (RevealPrediction u p salt) s = reveal_prediction e u p salt s"
| "exec_round e (CashOutEarly u) s = cash_out_early e u s"
| "exec_round e (MintInitial u) s = drop_result (mint_initial e u s)"
| "exec_round e (ResolveRound p) s = resolve_round e p s"
| "exec_round e (ResolveRoundMulti p) s = resolve_round_multi e p s"
| "exec_round e (CancelRound reason) s = cancel_round e reason s"
| "exec_round e (VoidRound rid) s = void_round e rid s"
| "exec_round e (FinalizeRound rid) s = finalize_round e rid s"
| "exec_round e (ClaimWinnings u) s = drop_result (claim_winnings e u s)"
| "exec_round e (ClaimMany us) s = drop_result (claim_many e us s)"

fun exec :: "env \<Rightarrow> call \<Rightarrow> store \<Rightarrow> store res" where
  "exec e (Setup c) s = exec_setup e c s"
| "exec e (Feed c) s = exec_oracle e c s"
| "exec e (Access c) s = exec_access e c s"
| "exec e (Schedule c) s = exec_schedule e c s"
| "exec e (Configure c) s = exec_config e c s"
| "exec e (Insure c) s = exec_insurance e c s"
| "exec e (Round c) s = exec_round e c s"
| "exec e (Govern c) s = gov_exec e c s"

fun mints :: "call \<Rightarrow> nat" where
  "mints (Round (MintInitial _)) = 1"
| "mints _ = 0"

inductive reaches :: "nat \<Rightarrow> store \<Rightarrow> bool" where
  deployed: "reaches 0 empty_store"
| called: "reaches n s \<Longrightarrow> exec e c s = Inr t \<Longrightarrow> reaches (n + mints c) t"

section \<open>Calls that touch neither money nor positions\<close>

definition quiet :: "store \<Rightarrow> store \<Rightarrow> bool" where
  "quiet s t \<longleftrightarrow> s_money t = s_money s \<and> s_book t = s_book s \<and> (config_ok s \<longrightarrow> config_ok t)"

lemma quiet_ok: "quiet s t \<Longrightarrow> contract_ok s \<Longrightarrow> contract_ok t \<and> wealth t = wealth s"
  by (simp add: quiet_def contract_ok_def wealth_def held_def at_stake_def)

lemma quietI: "s_money t = s_money s \<Longrightarrow> s_book t = s_book s \<Longrightarrow> s_config t = s_config s \<Longrightarrow> quiet s t"
  by (simp add: quiet_def config_ok_def)

lemma set_mode_quiet [simp]: "quiet s (set_mode m s)"
  by (simp add: quietI set_mode_def Let_def)

lemma initialize_quiet: "initialize e a b s = Inr t \<Longrightarrow> quiet s t"
  by (auto simp: initialize_def and_then_Inr quiet_def config_ok_def Let_def DEFAULT_BET_WINDOW_LEDGERS_def DEFAULT_RUN_WINDOW_LEDGERS_def
      config_bounds split: if_splits)

lemma setup_quiet:
  assumes "exec_setup e c s = Inr t" "\<nexists>u. c = ReclaimExpired u"
  shows "quiet s t"
proof (cases c)
  case (Initialize a b)
  with assms(1) show ?thesis by (simp add: initialize_quiet)
qed (use assms in \<open>auto intro!: quietI simp: and_then_Inr drop_result_Inr migrate_schema_v1_to_v2_def migrate_schema_v2_to_v3_def announce_next_schema_def
    clear_next_schema_def pause_contract_def unpause_contract_def set_runtime_mode_def set_mode_def reset_leaderboard_season_def batch_touch_ttl_def Let_def upd_board_def
    split: if_splits option.splits\<close>)

lemma oracle_quiet:
  assumes "exec_oracle e c s = Inr t"
  shows "quiet s t"
  using assms
  by (cases c) (auto intro!: quietI simp: and_then_Inr ok_or_Inr Let_def save_hb_config_def arm_oracle_deviation_override_def set_deviation_ref_mode_def
    set_attestation_key_def set_oracle_min_confidence_bps_def set_oracle_strict_mode_def set_hb_strict_mode_def arm_hb_override_def
    set_hb_grace_seconds_def update_oracle_heartbeat_def set_oracle_quorum_config_def propose_oracle_rotation_def accept_oracle_rotation_def
    cancel_oracle_rotation_def get_oracle_rotation_proposal_def split: if_splits option.splits)

lemma access_quiet:
  assumes "exec_access e c s = Inr t"
  shows "quiet s t"
  using assms
  by (cases c) (auto intro!: quietI simp: and_then_Inr Let_def upd_access_def set_access_control_enabled_def add_allowlisted_def remove_allowlisted_def
    add_denylisted_def remove_denylisted_def split: if_splits)

lemma config_ok_scheduled: "s_config t = (s_config s)\<lparr>c_scheduled := x\<rparr> \<Longrightarrow> config_ok t = config_ok s"
  by (simp add: config_ok_def Let_def)

lemma schedule_quiet:
  assumes "schedule_config_change e k p s = Inr t"
  shows "quiet s t"
  using schedule_Inr(5,6)[OF assms] config_ok_scheduled[OF schedule_Inr(3)[OF assms]] by (simp add: quiet_def)

lemma apply_quiet:
  assumes "apply_scheduled_changes e k s = Inr t"
  shows "quiet s t"
  using assms
proof (rule apply_scheduled_Inr)
  fix p s1
  assume a: "apply_config_value k (pcc_payload p) s = Inr s1" and t: "s_config t = (s_config s1)\<lparr>c_scheduled := (c_scheduled (s_config s1))(k := None)\<rparr>"
    "s_money t = s_money s1" "s_book t = s_book s1"
  have "config_ok t = config_ok s1" by (rule config_ok_scheduled[OF t(1)])
  then show ?thesis using apply_config_value_ok[OF _ a] apply_config_value_frame[OF a] t by (simp add: quiet_def)
qed

lemma schedules_quiet:
  assumes "exec_schedule e c s = Inr t"
  shows "quiet s t"
proof -
  from assms consider k p where "schedule_config_change e k p s = Inr t" | k where "apply_scheduled_changes e k s = Inr t"
    | k where "cancel_config_change e k s = Inr t"
    by (cases c) (auto simp: and_then_Inr schedule_windows_def schedule_max_stake_def schedule_min_bet_def schedule_max_user_exposure_def
      schedule_max_pending_winnings_def schedule_oracle_stale_threshold_def schedule_oracle_deviation_bps_def schedule_oracle_timestamp_skew_def
      schedule_protocol_fee_bps_def schedule_pending_winnings_expiry_def)
  then show ?thesis
  proof cases
    case 1
    then show ?thesis by (rule schedule_quiet)
  next
    case 2
    then show ?thesis by (rule apply_quiet)
  next
    case 3
    then show ?thesis by (auto simp: cancel_config_change_def and_then_Inr quiet_def config_ok_def Let_def split: if_splits)
  qed
qed

lemma config_quiet:
  assumes "exec_config e c s = Inr t" "\<nexists>u x. c = WithdrawFee u x"
  shows "quiet s t"
  using assms
  by (cases c) (auto simp: and_then_Inr quiet_def config_ok_def Let_def validators_Inr out_of_range MIN_ARCHIVE_RETENTION_def set_fee_model_def
    set_close_buffer_ledgers_def set_min_participants_def set_max_precision_participants_def set_precision_payout_policy_def set_mint_limit_def
    set_epoch_mint_budget_def set_archive_retention_def set_dispute_ledgers_def set_early_cashout_bps_def set_round_template_def
    clear_round_template_def split: if_splits)

text \<open>Transfers between balances, treasury and fund.\<close>

definition transfer :: "store \<Rightarrow> store \<Rightarrow> bool" where
  "transfer s t \<longleftrightarrow> held t = held s \<and> money_ok (s_money t) \<and> s_book t = s_book s \<and> s_config t = s_config s"

lemma transfer_ok: "transfer s t \<Longrightarrow> contract_ok s \<Longrightarrow> contract_ok t \<and> wealth t = wealth s"
  using config_ok_cong[of t s] by (simp add: transfer_def contract_ok_def wealth_def at_stake_def)

lemma withdraw_config:
  "withdraw_fee u x s = Inr (y, t) \<Longrightarrow> s_config t = s_config s"
  "execute_withdraw_insurance_fund u x s = Inr (y, t) \<Longrightarrow> s_config t = s_config s"
  by (auto simp: withdraw_fee_def execute_withdraw_insurance_fund_def and_then_Inr Let_def set_treasury_def split: if_splits)

lemma withdraw_transfer:
  assumes "money_ok (s_money s)"
  shows "withdraw_fee u x s = Inr (y, t) \<Longrightarrow> transfer s t" "execute_withdraw_insurance_fund u x s = Inr (y, t) \<Longrightarrow> transfer s t"
  using withdraw_fee_Inr[of u x s y t, OF _ assms] withdraw_insurance_Inr[of u x s y t, OF _ assms] withdraw_config[of u x s y t]
  by (simp_all add: transfer_def)

lemma reclaim_transfer:
  assumes "money_ok (s_money s)" "reclaim_expired_pending_winnings e u s = Inr (x, t)"
  shows "transfer s t"
proof -
  have "s_config t = s_config s"
    using assms(2) by (auto simp: reclaim_expired_pending_winnings_def and_then_Inr Let_def remove_pending_def split: if_splits)
  then show ?thesis using reclaim_effect[OF assms] by (simp add: transfer_def)
qed

lemma top_up_transfer:
  assumes "top_up_insurance_fund e x s = Inr t" "money_ok (s_money s)"
  shows "transfer s t"
proof -
  from assms(1) obtain a where r: "0 < x" "x \<le> balance s a"
    "t = emit (''ins'', ''topup'') [VAddr a, VInt x, VInt (get_insurance_fund_balance s + x)]
           (set_fund (get_insurance_fund_balance s + x) (set_balance a (balance s a - x) s))"
    by (auto simp: top_up_insurance_fund_def and_then_Inr ok_or_Inr Let_def checked_sub_Some checked_add_Some get_insurance_fund_balance_def
        not_less split: if_splits)
  let ?u = "set_balance a (balance s a - x) s"
  have m: "money_ok (s_money ?u)" "get_insurance_fund_balance ?u = get_insurance_fund_balance s"
    using money_ok_set_balance[OF assms(2)] r(2) by (simp_all add: get_insurance_fund_balance_def)
  have "held t = held s" using held_set_balance[OF assms(2), of a] m(2) by (simp add: r(3) held_set_fund)
  moreover have "money_ok (s_money t)" using money_ok_set_fund[OF m(1)] fund_nonneg[OF assms(2)] r(1) by (simp add: r(3))
  ultimately show ?thesis by (simp add: transfer_def r(3))
qed

lemma insurance_step:
  assumes "exec_insurance e c s = Inr t" "money_ok (s_money s)"
  shows "quiet s t \<or> transfer s t"
proof (cases c)
  case (TopUpFund x)
  then show ?thesis using top_up_transfer[OF _ assms(2)] assms(1) by simp
next
  case (WithdrawFund u x)
  then show ?thesis using withdraw_transfer(2)[OF assms(2)] assms(1)
    by (auto simp: drop_result_Inr withdraw_is_execute and_then_Inr split: if_splits)
qed (use assms(1) in \<open>auto intro!: quietI simp: and_then_Inr set_insurance_split_bps_def set_insurance_coverage_bps_def set_insurance_eligible_events_def
    split: if_splits\<close>)

section \<open>Every call keeps the invariant\<close>

text \<open>The measure of a step: the invariant holds after it and the wealth grew by no more than the
  initial amounts handed out.\<close>

definition sound_step :: "nat \<Rightarrow> store \<Rightarrow> store \<Rightarrow> bool" where
  "sound_step n s t \<longleftrightarrow> contract_ok t \<and> wealth t \<le> wealth s + INITIAL_AMOUNT * int n"

lemma sound_quiet: "quiet s t \<Longrightarrow> contract_ok s \<Longrightarrow> sound_step 0 s t"
  using quiet_ok by (simp add: sound_step_def)

lemma sound_transfer: "transfer s t \<Longrightarrow> contract_ok s \<Longrightarrow> sound_step 0 s t"
  using transfer_ok by (simp add: sound_step_def)

lemma sound_kept:
  assumes "contract_ok s" "s_config t = s_config s" "wealth t = wealth s" "money_ok (s_money t)" "book_ok (s_book t)"
  shows "sound_step 0 s t"
  using assms config_ok_cong[OF assms(2)] by (simp add: sound_step_def contract_ok_def)

lemma execute_action_sound:
  assumes "execute_action e act s = Inr t" "contract_ok s"
  shows "sound_step 0 s t"
proof -
  note m = contract_okD(1)[OF assms(2)]
  consider "quiet s t" | "transfer s t" | a where "t = set_treasury (TAddress a) s"
    using assms(1) withdraw_transfer[OF m]
    by (cases act) (auto simp: execute_action_def and_then_Inr quiet_def config_ok_def Let_def validators_Inr
      set_insurance_split_bps_def set_insurance_coverage_bps_def set_mode_def split: if_splits)
  then show ?thesis
  proof cases
    case (3 a)
    have "0 \<le> treasury_value (k_treasury (s_money s))" using m by (simp add: money_ok_def)
    moreover have "config_ok t = config_ok s" by (rule config_ok_cong) (simp add: 3 set_treasury_def)
    ultimately show ?thesis
      using assms(2) m
      by (simp add: 3 sound_step_def contract_ok_def money_ok_def wealth_def held_def at_stake_def treasury_value_def set_treasury_def)
  qed (use assms(2) sound_quiet sound_transfer in blast)+
qed

lemma govern_sound:
  assumes "gov_exec e c s = Inr t" "contract_ok s"
  shows "sound_step 0 s t"
proof (cases c)
  case (GExecute a i)
  with assms(1) have "execute e a i s = Inr t" by simp
  then show ?thesis
  proof (rule execute_Inr)
    fix p u
    assume a: "execute_action e (gp_action p) s = Inr u"
      and t: "t = emit (''gov'', ''executed'') [VNat i, VAddr a, VNat (action_code (gp_action p))] (put_proposal i (p\<lparr>gp_status := PsExecuted\<rparr>) u)"
    have q: "quiet u t" by (rule quietI) (simp_all add: t put_proposal_def)
    show ?thesis
      using execute_action_sound[OF a assms(2)] quiet_ok[OF q] by (simp add: sound_step_def)
  qed
next
  case (GQueryAmendment i)
  with assms(1) show ?thesis
    by (intro sound_quiet[OF quietI assms(2)]) (auto simp: get_amendment_def put_amendment_def Let_def split: option.splits)
next
  case (GCancel a i)
  with assms(1) obtain p where "t = emit (''gov'', ''cancel'') [VNat i, VAddr a] (put_proposal i p s)"
    by (cases "gp_status (the (proposals s i))") (auto simp: cancel_proposal_def and_then_Inr ok_or_Inr)
  then show ?thesis by (intro sound_quiet[OF quietI assms(2)]) (simp_all add: put_proposal_def)
qed (use assms in \<open>auto intro!: sound_quiet quietI simp: and_then_Inr ok_or_Inr Let_def set_gov_approver_def set_gov_proposal_ttl_def propose_def approve_def
    establish_constitution_def propose_amendment_def veto_amendment_def activate_amendment_def put_proposal_def put_amendment_def
    split: if_splits option.splits proposal_status.splits\<close>)

text \<open>Rounds: entries and exits, settlement, void, finalize, cancellation, claims.\<close>

lemma entry_sound:
  assumes ok: "contract_ok s"
  shows "place_bet e u x side s = Inr t \<Longrightarrow> sound_step 0 s t"
    "place_precision_prediction e u x price s = Inr t \<Longrightarrow> sound_step 0 s t"
    "commit_prediction e u hash x s = Inr t \<Longrightarrow> sound_step 0 s t"
    "reveal_prediction e u price salt s = Inr t \<Longrightarrow> sound_step 0 s t"
    "cash_out_early e u s = Inr t \<Longrightarrow> sound_step 0 s t"
    "create_round e price mode s = Inr t \<Longrightarrow> sound_step 0 s t"
proof -
  note m = contract_okD(1)[OF ok] and b = contract_okD(2)[OF ok] and c = contract_okD(3)[OF ok]
  show "sound_step 0 s t" if run: "place_bet e u x side s = Inr t"
  proof -
    have "s_config t = s_config s" using run by (rule place_bet_Inr) simp
    then show ?thesis using place_bet_effect[OF run m b] by (intro sound_kept[OF ok]) simp_all
  qed
  show "sound_step 0 s t" if run: "place_precision_prediction e u x price s = Inr t"
  proof -
    have "s_config t = s_config s" using run by (rule place_precision_Inr) simp
    then show ?thesis using precision_entry_effect[OF disjI1[OF run] m b] by (intro sound_kept[OF ok]) simp_all
  qed
  show "sound_step 0 s t" if run: "commit_prediction e u hash x s = Inr t"
  proof -
    have "s_config t = s_config s" using run by (rule commit_prediction_Inr) simp
    then show ?thesis using precision_entry_effect[OF disjI2[OF run] m b] by (intro sound_kept[OF ok]) simp_all
  qed
  show "sound_step 0 s t" if run: "reveal_prediction e u price salt s = Inr t"
  proof -
    have "s_config t = s_config s" using run by (rule reveal_prediction_Inr) simp
    then show ?thesis using reveal_effect[OF run b] m by (intro sound_kept[OF ok]) simp_all
  qed
  show "sound_step 0 s t" if run: "cash_out_early e u s = Inr t"
  proof -
    have "s_config t = s_config s" using run
    proof (rule cash_out_early_Inr)
      fix r p f s2 s3 bps
      let ?s1 = "upd_book (\<lambda>b. b\<lparr>b_active := Some (credit_pool (pos_side p) (- pos_amount p) r)\<rparr>) s"
      assume s2: "(if 0 < pos_amount p - f then accumulate_pending e u (pos_amount p - f) ?s1 else Inr ?s1) = Inr s2"
        and s3: "(if 0 < f then collect_protocol_fee (r_id r) f (Some bps) (read_fee_model s2) s2 else Inr s2) = Inr s3"
        and t: "s_config t = s_config s3"
      have "s_config s2 = s_config s" using s2 by (auto dest!: accumulate_control simp: same_control_def split: if_splits)
      moreover have "s_config s3 = s_config s2" using s3 by (auto dest!: collect_control simp: same_control_def split: if_splits)
      ultimately show ?thesis using t by simp
    qed
    then show ?thesis using cash_out_effect[OF run m b] by (intro sound_kept[OF ok]) simp_all
  qed
  show "sound_step 0 s t" if run: "create_round e price mode s = Inr t"
  proof -
    have "s_config t = s_config s" using run by (rule create_round_Inr) simp
    then show ?thesis using create_round_effect[OF run b c] m by (intro sound_kept[OF ok]) simp_all
  qed
qed

lemma closed_sound:
  assumes "contract_ok s" "round_closed rid s t" "distinct (members (s_book s) rid)" "held t \<le> held s + round_stake (s_book s) rid"
  shows "sound_step 0 s t"
  using round_closed_ok[OF assms(2,1)] round_closed_stake(1)[OF assms(2,1,3)] assms(4) by (simp add: sound_step_def wealth_def)

lemma resolve_sound:
  assumes "contract_ok s"
  shows "resolve_round e p s = Inr t \<Longrightarrow> sound_step 0 s t" "resolve_round_multi e q s = Inr t \<Longrightarrow> sound_step 0 s t"
proof -
  have settled: "sound_step 0 s t" if "oracle_only s u" "b_active (s_book s) = Some r" "settle_round_with_price e r fp c u = Inr t" for u r fp c
    using settle_round_ok[OF that(3)] oracle_only_ok[OF that(1)] that(1,2) assms by (simp add: sound_step_def oracle_only_def)
  show "resolve_round e p s = Inr t \<Longrightarrow> sound_step 0 s t" by (erule resolve_round_Inr) (rule settled)
  show "resolve_round_multi e q s = Inr t \<Longrightarrow> sound_step 0 s t" by (erule resolve_multi_Inr) (rule settled)
qed

lemma dispute_sound:
  assumes ok: "contract_ok s"
  shows "void_round e rid s = Inr t \<Longrightarrow> sound_step 0 s t" "finalize_round e rid s = Inr t \<Longrightarrow> sound_step 0 s t"
proof -
  have dist: "distinct (members (s_book s) rid)" if "b_disputes (s_book s) rid = Some pd" for pd
    using disputes_okD(1,2)[OF contract_okD(2)[OF ok] that] round_ok_distinct by metis
  show "void_round e rid s = Inr t \<Longrightarrow> sound_step 0 s t"
    by (erule void_round_Inr[OF _ ok]) (rule closed_sound[OF ok], auto intro: dist)
  show "finalize_round e rid s = Inr t \<Longrightarrow> sound_step 0 s t"
    by (erule finalize_round_Inr[OF _ ok]) (rule closed_sound[OF ok], assumption, erule dist, assumption)
qed

text \<open>The stakes of a round are part of the wealth, so they stay in range as long as the wealth does.\<close>

lemma parts_nonneg:
  assumes "contract_ok s"
  shows "0 \<le> held s" "0 \<le> at_stake s"
proof -
  note m = contract_okD(1)[OF assms] and st = contract_okD(5)[OF assms]
  have "0 \<le> total_of (k_balance (s_money s))" "0 \<le> total_of (k_pending (s_money s))"
    using m by (auto intro!: total_of_nonneg simp: money_ok_def get_or_def split: option.splits)
  then show "0 \<le> held s" using m by (simp add: held_def money_ok_def)
  have "0 \<le> v" if "position_stake (s_book s) k = Some v" for k v
    using position_stake_nonneg[OF st, of k] that by (simp add: get_or_def)
  then have "0 \<le> total_of (position_stake (s_book s))" by (rule total_of_nonneg)
  moreover have "0 \<le> v" if "precision_stake (s_book s) k = Some v" for k v
    using precision_stake_nonneg[OF st, of k] that by (simp add: get_or_def)
  then have "0 \<le> total_of (precision_stake (s_book s))" by (rule total_of_nonneg)
  ultimately show "0 \<le> at_stake s" by (simp add: at_stake_def)
qed

lemma round_stake_at_most_wealth:
  assumes "contract_ok s" "b_active (s_book s) = Some r"
  shows "round_stake (s_book s) (r_id r) \<le> wealth s"
proof -
  note a = active_okD[OF contract_okD(2)[OF assms(1)] assms(2)]
  let ?t = "s\<lparr>s_book := (close_book (r_id r) (members (s_book s) (r_id r)) (s_book s))\<lparr>b_active := None, b_disputes := b_disputes (s_book s)\<rparr>\<rparr>"
  have c: "round_closed (r_id r) s ?t"
    by (rule round_closedI[where a = None and d = "b_disputes (s_book s)"]) (use a(2) contract_okD(1)[OF assms(1)] in simp_all)
  have "0 \<le> at_stake ?t" by (rule parts_nonneg(2)[OF round_closed_ok[OF c assms(1)]])
  then show ?thesis
    using round_closed_stake(1)[OF c assms(1) round_ok_distinct[OF a(1)]] parts_nonneg(1)[OF assms(1)] by (simp add: wealth_def)
qed

lemma round_stake_in_range:
  assumes "contract_ok s" "b_active (s_book s) = Some r" "wealth s < 2 ^ 127"
  shows "in_i128 (round_stake (s_book s) (r_id r))"
  using round_stake_at_most_wealth[OF assms(1,2)] assms(3) round_stake_nonneg[OF contract_okD(5)[OF assms(1)], of "r_id r"]
  by (simp add: in_i128_def)

lemma cancel_sound:
  assumes "contract_ok s" "wealth s < 2 ^ 127" "cancel_round e reason s = Inr t"
  shows "sound_step 0 s t"
proof -
  obtain r where act: "b_active (s_book s) = Some r"
    using assms(3) by (auto simp: cancel_round_def and_then_Inr ok_or_Inr)
  note c = cancel_round_Inr[OF assms(3,1) act round_stake_in_range[OF assms(1) act assms(2)]]
  show ?thesis
    by (rule closed_sound[OF assms(1) c(1)])
       (use c(7) coverage_within_drawn(2)[OF contract_okD(5,1)[OF assms(1)], of "r_id r" reason]
         round_ok_distinct[OF active_okD(1)[OF contract_okD(2)[OF assms(1)] act]] in simp_all)
qed

lemma pay_out_sound: "pay_out e u s = Inr (x, t) \<Longrightarrow> contract_ok s \<Longrightarrow> sound_step 0 s t"
  using pay_out_Inr[of e u s x t] sound_kept[of s t] contract_okD by (simp add: wealth_def at_stake_def)

lemma sound_trans: "sound_step 0 s t \<Longrightarrow> sound_step 0 t u \<Longrightarrow> sound_step 0 s u"
  by (simp add: sound_step_def)

lemma pay_out_all_sound: "pay_out_all e us xs s = Inr (ys, t) \<Longrightarrow> contract_ok s \<Longrightarrow> sound_step 0 s t"
proof (induction us arbitrary: xs s)
  case (Cons u us)
  then obtain x s1 where s1: "pay_out e u s = Inr (x, s1)" "pay_out_all e us (xs @ [x]) s1 = Inr (ys, t)"
    by (auto simp: and_then_Inr)
  have a: "sound_step 0 s s1" by (rule pay_out_sound[OF s1(1) Cons.prems(2)])
  then have "contract_ok s1" by (simp add: sound_step_def)
  from sound_trans[OF a Cons.IH[OF s1(2) this]] show ?case .
qed (simp add: sound_step_def)

lemma round_sound:
  assumes "exec_round e c s = Inr t" "contract_ok s" "wealth s < 2 ^ 127"
  shows "sound_step (mints (Round c)) s t"
proof (cases c)
  case (MintInitial u)
  with assms(1) obtain x where x: "mint_initial e u s = Inr (x, t)" by (auto simp: drop_result_Inr)
  note r = mint_initial_Inr[OF x contract_okD(1)[OF assms(2)]]
  have "wealth t \<le> wealth s + INITIAL_AMOUNT" using r by (auto simp: INITIAL_AMOUNT_def split: if_splits)
  then show ?thesis using r config_ok_cong[of t s] assms(2) by (simp add: MintInitial sound_step_def contract_ok_def)
next
  case CreateFromTemplate
  with assms(1) obtain p m s1 x d where run: "create_round e p m s = Inr s1" and t: "t = emit x d s1"
    by (auto simp: drop_result_Inr create_next_from_template_def and_then_Inr ok_or_Inr Let_def)
  have "quiet s1 t" by (rule quietI) (simp_all add: t)
  then show ?thesis
    using entry_sound(6)[OF assms(2) run] quiet_ok by (simp add: CreateFromTemplate sound_step_def)
next
  case (ClaimMany us)
  with assms(1) show ?thesis using pay_out_all_sound[OF _ assms(2)]
    by (auto simp: ClaimMany drop_result_Inr claim_many_def and_then_Inr split: if_splits)
next
  case (ClaimWinnings u)
  with assms(1) show ?thesis using pay_out_sound[OF _ assms(2)]
    by (auto simp: ClaimWinnings drop_result_Inr claim_winnings_def and_then_Inr split: if_splits)
next
  case (PredictPrice u p x)
  with assms(1) show ?thesis using entry_sound(2)[OF assms(2)] by (simp add: predict_price_def)
qed (use assms entry_sound resolve_sound dispute_sound cancel_sound in simp_all)

lemma exec_sound:
  assumes "exec e c s = Inr t" "contract_ok s" "wealth s < 2 ^ 127"
  shows "sound_step (mints c) s t"
proof (cases c)
  case (Setup d)
  show ?thesis
  proof (cases "\<exists>u. d = ReclaimExpired u")
    case True
    then show ?thesis using assms(1) Setup sound_transfer[OF reclaim_transfer[OF contract_okD(1)[OF assms(2)]] assms(2)]
      by (auto simp: drop_result_Inr)
  next
    case False
    then show ?thesis using assms(1) Setup sound_quiet[OF setup_quiet assms(2)] by auto
  qed
next
  case (Configure d)
  show ?thesis
  proof (cases "\<exists>u x. d = WithdrawFee u x")
    case True
    then show ?thesis
      using assms(1) Configure sound_transfer[OF withdraw_transfer(1)[OF contract_okD(1)[OF assms(2)]] assms(2)]
      by (auto simp: drop_result_Inr withdraw_protocol_fee_def and_then_Inr split: if_splits)
  next
    case False
    then show ?thesis using assms(1) Configure sound_quiet[OF config_quiet assms(2)] by auto
  qed
next
  case (Insure d)
  then show ?thesis
    using assms(1) insurance_step[of e d s t] contract_okD(1)[OF assms(2)] sound_quiet sound_transfer assms(2) by auto
next
  case (Round d)
  then show ?thesis using assms round_sound by simp
qed (use assms sound_quiet oracle_quiet access_quiet schedules_quiet govern_sound in simp_all)

section \<open>Solvency\<close>

lemma empty_ok: "contract_ok empty_store" "wealth empty_store = 0"
proof -
  have "money_ok (s_money empty_store)" by (simp add: empty_store_def money_ok_def get_or_def treasury_value_def)
  moreover have "book_ok (s_book empty_store)"
    by (simp add: empty_store_def book_ok_def stakes_ok_def book_finite_def fresh_ids_def disputes_ok_def active_ok_def)
  moreover have "config_ok empty_store"
    by (simp add: empty_store_def config_ok_def in_range_def Let_def protocol_constants config_bounds)
  ultimately show "contract_ok empty_store" by (simp add: contract_ok_def)
  have "position_stake (s_book empty_store) = Map.empty" "precision_stake (s_book empty_store) = Map.empty"
    by (simp_all add: empty_store_def position_stake_def precision_stake_def fun_eq_iff)
  then show "wealth empty_store = 0" by (simp add: wealth_def at_stake_def held_def) (simp add: empty_store_def treasury_value_def)
qed

lemma reaches_sound:
  assumes "reaches n s" "INITIAL_AMOUNT * int n < 2 ^ 127"
  shows "contract_ok s \<and> wealth s \<le> INITIAL_AMOUNT * int n"
  using assms
proof (induction rule: reaches.induct)
  case deployed
  then show ?case using empty_ok by simp
next
  case (called n s e c t)
  have "INITIAL_AMOUNT * int n \<le> INITIAL_AMOUNT * int (n + mints c)" by (simp add: INITIAL_AMOUNT_def)
  then have "INITIAL_AMOUNT * int n < 2 ^ 127" using called.prems by linarith
  from called.IH[OF this] have ih: "contract_ok s" "wealth s \<le> INITIAL_AMOUNT * int n" by blast+
  have "wealth s < 2 ^ 127" using ih(2) \<open>INITIAL_AMOUNT * int n < 2 ^ 127\<close> by linarith
  from exec_sound[OF called.hyps(2) ih(1) this] ih(2) show ?case by (simp add: sound_step_def algebra_simps)
qed

text \<open>Two calls on a fresh contract, for the examples: the deployment and one mint.\<close>

definition first_calls :: "(env \<times> call) list" where
  "first_calls = [(sample_env 10 50 [1], Setup (Initialize 1 2)), (sample_env 11 55 [5], Round (MintInitial 5))]"

definition deployed_store :: store where
  "deployed_store = empty_store\<lparr>s_admin := Some 1, s_oracle := Some 2, s_mode := Some Normal, s_schema := Some 3,
     s_config := (s_config empty_store)\<lparr>c_bet_window := Some DEFAULT_BET_WINDOW_LEDGERS, c_run_window := Some DEFAULT_RUN_WINDOW_LEDGERS\<rparr>\<rparr>"

lemma deployed_store_fields:
  "s_mode deployed_store = Some Normal" "s_schema deployed_store = Some 3" "s_money deployed_store = s_money empty_store"
  "s_mint deployed_store = s_mint empty_store" "s_access deployed_store = s_access empty_store"
  "a_denied (s_access empty_store) = Map.empty" "a_enabled (s_access empty_store) = None" "c_mint_limit (s_config deployed_store) = None" "c_epoch_budget (s_config deployed_store) = None"
  "k_balance (s_money empty_store) = Map.empty" "k_pending (s_money empty_store) = Map.empty"
  by (simp_all add: deployed_store_def empty_store_def)

lemma first_calls_reach:
  obtains s where "fold_res (\<lambda>(e, c). exec e c) first_calls empty_store = Inr s" "reaches 1 s" "balance s 5 = INITIAL_AMOUNT"
    "pending_of s 5 = 0" "current_mode s = Normal" "s_schema s = Some 3"
proof -
  have s1: "initialize (sample_env 10 50 [1]) 1 2 empty_store = Inr deployed_store"
    by (simp add: initialize_def require_auth_def sample_env_def deployed_store_def empty_store_def CURRENT_SCHEMA_VERSION_def)
  obtain x s2 where s2: "mint_initial (sample_env 11 55 [5]) 5 deployed_store = Inr (x, s2)" "s_mode s2 = Some Normal" "s_schema s2 = Some 3"
    "balance s2 5 = INITIAL_AMOUNT" "pending_of s2 5 = 0"
    by (auto simp: mint_initial_def gate_simps deployed_store_fields sample_env_def protocol_constants count_mint_def
        consume_epoch_budget_def upd_mint_def balance_def pending_of_def get_or_def set_balance_def emit_def Let_def)
  have "reaches (0 + mints (Setup (Initialize 1 2))) deployed_store"
    by (rule reaches.called[OF reaches.deployed, where e = "sample_env 10 50 [1]"]) (simp only: exec.simps exec_setup.simps s1)
  then have "reaches (0 + mints (Setup (Initialize 1 2)) + mints (Round (MintInitial 5))) s2"
    by (rule reaches.called[where e = "sample_env 11 55 [5]"]) (simp add: s2(1) drop_result_Inr)
  moreover have "fold_res (\<lambda>(e, c). exec e c) first_calls empty_store = Inr s2"
    using s2(1) by (simp add: first_calls_def s1 drop_result_def del: One_nat_def)
  ultimately show thesis using that s2 by (simp add: current_mode_def)
qed

text \<open>C1 The contract is solvent.  Whatever calls were made since the deployment, by whomever and with
  whatever arguments, the balances, the pending winnings, the treasury, the insurance fund and
  the stakes of all open positions together are at most the initial amounts minted, none of
  them is negative, and the invariants of the money, of the round book and of the configuration
  hold.  The only condition is that fewer tokens were minted than an i128 can count.\<close>

theorem contract_is_solvent:
  assumes "reaches n s" "INITIAL_AMOUNT * int n < 2 ^ 127"
  shows "total_of (k_balance (s_money s)) + total_of (k_pending (s_money s)) + treasury_value (k_treasury (s_money s)) +
           get_insurance_fund_balance s + at_stake s \<le> INITIAL_AMOUNT * int n \<and>
         (\<forall>u. 0 \<le> balance s u \<and> 0 \<le> pending_of s u) \<and> 0 \<le> treasury_value (k_treasury (s_money s)) \<and>
         0 \<le> get_insurance_fund_balance s \<and> 0 \<le> at_stake s \<and>
         money_ok (s_money s) \<and> book_ok (s_book s) \<and> config_ok s"
proof -
  have r: "contract_ok s" "wealth s \<le> INITIAL_AMOUNT * int n" using reaches_sound[OF assms] by blast+
  note m = contract_okD(1)[OF r(1)]
  show ?thesis
    using r m parts_nonneg(2)[OF r(1)] balance_nonneg[OF m] pending_nonneg[OF m] fund_nonneg[OF m]
    by (simp add: wealth_def held_def get_insurance_fund_balance_def contract_ok_def money_ok_def)
qed

theorem contract_is_solvent_witness:
  "\<exists>s. fold_res (\<lambda>(e, c). exec e c) first_calls empty_store = Inr s \<and> balance s 5 = INITIAL_AMOUNT \<and>
     total_of (k_balance (s_money s)) + total_of (k_pending (s_money s)) + treasury_value (k_treasury (s_money s)) +
       get_insurance_fund_balance s + at_stake s \<le> INITIAL_AMOUNT"
proof -
  obtain s where s: "fold_res (\<lambda>(e, c). exec e c) first_calls empty_store = Inr s" "reaches 1 s" "balance s 5 = INITIAL_AMOUNT"
    by (rule first_calls_reach)
  have "INITIAL_AMOUNT * int 1 < 2 ^ 127" by (simp add: INITIAL_AMOUNT_def)
  from contract_is_solvent[OF s(2) this] s show ?thesis by auto
qed

text \<open>The stakes of the open positions and the pools of the active round are parts of the stakes.\<close>

lemma stake_at_most_wealth:
  assumes "contract_ok s"
  shows "get_or (position_stake (s_book s)) 0 k \<le> wealth s" "get_or (precision_stake (s_book s)) 0 k \<le> wealth s"
proof -
  note st = contract_okD(5)[OF assms] and fin = stakes_finite[OF contract_okD(6)[OF assms]]
  have pn: "0 \<le> get_or (position_stake (s_book s)) 0 k" "0 \<le> get_or (precision_stake (s_book s)) 0 k" for k
    by (rule position_stake_nonneg[OF st], rule precision_stake_nonneg[OF st])
  have m: "get_or (position_stake (s_book s)) 0 k \<le> total_of (position_stake (s_book s))" for k
    by (rule total_of_member[OF fin(1) pn(1)])
  have m': "get_or (precision_stake (s_book s)) 0 k \<le> total_of (precision_stake (s_book s))" for k
    by (rule total_of_member[OF fin(2) pn(2)])
  have z: "0 \<le> total_of (position_stake (s_book s))" "0 \<le> total_of (precision_stake (s_book s))"
    using m m' pn order_trans by blast+
  show "get_or (position_stake (s_book s)) 0 k \<le> wealth s" "get_or (precision_stake (s_book s)) 0 k \<le> wealth s"
    using m[of k] m'[of k] z parts_nonneg(1)[OF assms] by (simp_all add: wealth_def at_stake_def)
qed



text \<open>C2 A claim is always paid.  In every reachable store, whatever happened before, a user whose
  signature the environment has can claim unless the contract is fully paused or the schema
  unsupported: the call succeeds, pays the whole of the pending winnings into the balance, and
  leaves nothing pending.  In particular the addition cannot overflow.\<close>

theorem claim_is_paid:
  assumes "reaches n s" "INITIAL_AMOUNT * int n < 2 ^ 127"
    and "e_auth e u" "current_mode s \<noteq> FullyPaused" "require_supported_schema s = Inr v"
  shows "\<exists>t. claim_winnings e u s = Inr (pending_of s u, t) \<and> balance t u = balance s u + pending_of s u \<and>
             pending_of t u = 0 \<and> wealth t = wealth s"
proof -
  have r: "contract_ok s" "wealth s \<le> INITIAL_AMOUNT * int n" using reaches_sound[OF assms(1,2)] by blast+
  note m = contract_okD(1)[OF r(1)]
  have fin: "finite (dom (k_balance (s_money s)))" "finite (dom (k_pending (s_money s)))" using m by (simp_all add: money_ok_def)
  have b: "balance s u \<le> total_of (k_balance (s_money s))" unfolding balance_def
    by (rule total_of_member[OF fin(1)]) (use balance_nonneg[OF m] in \<open>simp add: balance_def\<close>)
  have p: "pending_of s u \<le> total_of (k_pending (s_money s))" unfolding pending_of_def
    by (rule total_of_member[OF fin(2)]) (use pending_nonneg[OF m] in \<open>simp add: pending_of_def\<close>)
  have "balance s u + pending_of s u \<le> wealth s"
    using b p m parts_nonneg(2)[OF r(1)] by (simp add: wealth_def held_def money_ok_def)
  then have "in_i128 (balance s u + pending_of s u)"
    using r(2) assms(2) balance_nonneg[OF m, of u] pending_nonneg[OF m, of u] by (simp add: in_i128_def)
  then have "\<exists>t. pay_out e u s = Inr (pending_of s u, t)"
    by (cases "pending_of s u = 0") (simp_all add: pay_out_def payout_add_def checked_add_def Let_def)
  then obtain t where p: "pay_out e u s = Inr (pending_of s u, t)" by blast
  moreover have "ensure_not_paused s = Inr ()"
    using assms(4) by (cases "current_mode s") (simp_all add: ensure_not_paused_def policy_gate_def)
  ultimately have t: "claim_winnings e u s = Inr (pending_of s u, t)" "pay_out e u s = Inr (pending_of s u, t)"
    using assms(3,5) by (simp_all add: claim_winnings_def require_auth_def)
  note q = pay_out_Inr[OF t(2) m]
  show ?thesis using t(1) q by (simp add: wealth_def at_stake_def)
qed

theorem claim_is_paid_witness:
  "\<exists>s t. fold_res (\<lambda>(e, c). exec e c) first_calls empty_store = Inr s \<and>
     claim_winnings (sample_env 12 60 [5]) 5 s = Inr (0, t) \<and> balance t 5 = INITIAL_AMOUNT"
proof -
  obtain s where s: "fold_res (\<lambda>(e, c). exec e c) first_calls empty_store = Inr s" "reaches 1 s" "balance s 5 = INITIAL_AMOUNT"
    "pending_of s 5 = 0" "current_mode s = Normal" "s_schema s = Some 3"
    by (rule first_calls_reach)
  have "INITIAL_AMOUNT * int 1 < 2 ^ 127" "e_auth (sample_env 12 60 [5]) 5" "current_mode s \<noteq> FullyPaused"
    "require_supported_schema s = Inr 3"
    using s(5,6) by (simp_all add: INITIAL_AMOUNT_def sample_env_def require_supported_schema_def schema_version_def CURRENT_SCHEMA_VERSION_def)
  from claim_is_paid[OF s(2) this] s show ?thesis by auto
qed

end
