(* ===== verification/Queries.thy ===== *)
theory Queries
  imports Leaderboard Oracle_Properties
begin

text \<open>
  \<open>contracts/src/queries.rs\<close> and the status queries of \<open>contract.rs\<close>: pool statistics, the
  market snapshot, the archive, positions and predictions by page and by cursor, and the
  leaderboard by cursor.  The legacy maps a few of them fall back to are written only under
  a feature that is off, so they are empty and the fallbacks left out; TTL extension is left
  out everywhere.
\<close>

section \<open>Status\<close>

datatype protocol_status = StatusActive | StatusPaused | StatusClaimsOnly

datatype round_status =
    RsUnknown | RsBetting | RsRunning | RsAwaitingResolve | RsResolved | RsCancelled | RsFallbackRefund | RsVoided

definition get_protocol_status :: "store \<Rightarrow> protocol_status" where
  "get_protocol_status s =
     (if is_paused s then StatusPaused
      else if b_active (s_book s) \<noteq> None then StatusActive
      else StatusClaimsOnly)"

definition phase_status :: "round_phase \<Rightarrow> round_status" where
  "phase_status p = (case p of Betting \<Rightarrow> RsBetting | Running \<Rightarrow> RsRunning | Resolvable \<Rightarrow> RsAwaitingResolve)"

definition archived_status :: "archive_status \<Rightarrow> round_status" where
  "archived_status st =
     (case st of Resolved \<Rightarrow> RsResolved | Cancelled \<Rightarrow> RsCancelled | FallbackRefund \<Rightarrow> RsFallbackRefund | Voided \<Rightarrow> RsVoided)"

definition closed_status :: "nat \<Rightarrow> store \<Rightarrow> round_status" where
  "closed_status rid s =
     (case h_archived (s_history s) rid of
        Some a \<Rightarrow> archived_status (ar_status a)
      | None \<Rightarrow> if is_round_cancelled s rid then RsCancelled else RsUnknown)"

definition get_round_status :: "env \<Rightarrow> nat \<Rightarrow> store \<Rightarrow> round_status" where
  "get_round_status e rid s =
     (case b_active (s_book s) of
        Some r \<Rightarrow> if r_id r = rid then phase_status (derive_round_phase (e_ledger e) r) else closed_status rid s
      | None \<Rightarrow> closed_status rid s)"

definition get_round_phase :: "env \<Rightarrow> store \<Rightarrow> round_phase res" where
  "get_round_phase e s =
     and_then (ok_or (b_active (s_book s)) NoActiveRound) (\<lambda>r. Inr (derive_round_phase (e_ledger e) r))"

section \<open>Pool statistics and the market snapshot\<close>

record pool_stats =
  pl_round_id :: nat
  pl_mode :: round_mode
  pl_up_stake :: int
  pl_down_stake :: int
  pl_up_count :: nat
  pl_down_count :: nat
  pl_up_ratio :: nat
  pl_down_ratio :: nat
  pl_precision_stake :: int
  pl_participants :: nat
  pl_predictions :: nat
  pl_commitments :: nat
  pl_revealed :: nat

definition no_pool :: "round \<Rightarrow> pool_stats" where
  "no_pool r = \<lparr>pl_round_id = r_id r, pl_mode = r_mode r, pl_up_stake = 0, pl_down_stake = 0, pl_up_count = 0,
     pl_down_count = 0, pl_up_ratio = 0, pl_down_ratio = 0, pl_precision_stake = 0, pl_participants = 0,
     pl_predictions = 0, pl_commitments = 0, pl_revealed = 0\<rparr>"

definition count_side :: "store \<Rightarrow> nat \<Rightarrow> address \<Rightarrow> pool_stats \<Rightarrow> pool_stats" where
  "count_side s rid user st =
     (case b_positions (s_book s) (rid, user) of
        None \<Rightarrow> st
      | Some p \<Rightarrow> (case pos_side p of
                     Up \<Rightarrow> st\<lparr>pl_up_count := Suc (pl_up_count st)\<rparr>
                   | Down \<Rightarrow> st\<lparr>pl_down_count := Suc (pl_down_count st)\<rparr>))"

text \<open>\<open>as u128\<close> wraps a negative pool, \<open>as u32\<close> truncates; the product saturates.\<close>

definition ratio_bps :: "int \<Rightarrow> int \<Rightarrow> nat" where
  "ratio_bps pool total_stake =
     min u128_max (nat (pool mod 2 ^ 128) * nat BPS_DENOMINATOR) div nat (total_stake mod 2 ^ 128) mod 2 ^ 32"

definition count_prediction :: "store \<Rightarrow> nat \<Rightarrow> address \<Rightarrow> pool_stats \<Rightarrow> pool_stats res" where
  "count_prediction s rid user st =
     (case b_predictions (s_book s) (rid, user) of
        Some p \<Rightarrow>
          and_then (or_trap (checked_add (pl_precision_stake st) (pp_amount p))) (\<lambda>stake.
          Inr (st\<lparr>pl_predictions := Suc (pl_predictions st), pl_precision_stake := stake\<rparr>))
      | None \<Rightarrow>
          (case b_commitments (s_book s) (rid, user) of
             Some c \<Rightarrow>
               and_then (or_trap (checked_add (pl_precision_stake st) (pc_amount c))) (\<lambda>stake.
               Inr (st\<lparr>pl_commitments := Suc (pl_commitments st), pl_precision_stake := stake,
                       pl_revealed := pl_revealed st + (if pc_revealed c then 1 else 0)\<rparr>))
           | None \<Rightarrow> Inr st))"

definition round_pool_stats :: "store \<Rightarrow> round \<Rightarrow> pool_stats res" where
  "round_pool_stats s r =
     (let participants = participants_of s (r_id r) in
      case r_mode r of
        UpDown \<Rightarrow>
          let st = fold (count_side s (r_id r)) participants
                     ((no_pool r)\<lparr>pl_up_stake := r_pool_up r, pl_down_stake := r_pool_down r\<rparr>);
              total_stake = unwrap_or (checked_add (r_pool_up r) (r_pool_down r)) 0
          in Inr (if total_stake > 0
                  then st\<lparr>pl_up_ratio := ratio_bps (r_pool_up r) total_stake,
                          pl_down_ratio := ratio_bps (r_pool_down r) total_stake\<rparr>
                  else st)
      | Precision \<Rightarrow>
          fold_res (count_prediction s (r_id r)) participants ((no_pool r)\<lparr>pl_participants := length participants\<rparr>))"

definition get_round_pool_stats :: "store \<Rightarrow> pool_stats option res" where
  "get_round_pool_stats s =
     (case b_active (s_book s) of
        None \<Rightarrow> Inr None
      | Some r \<Rightarrow> and_then (round_pool_stats s r) (\<lambda>st. Inr (Some st)))"

record market_snapshot =
  mk_phase :: "round_phase list"
  mk_pool_stats :: "pool_stats list"
  mk_bet_window :: nat
  mk_run_window :: nat
  mk_close_buffer :: nat
  mk_fee_bps :: "nat option"
  mk_fee_model :: fee_model

definition get_bet_window_ledgers :: "store \<Rightarrow> nat" where
  "get_bet_window_ledgers s = unwrap_or (c_bet_window (s_config s)) DEFAULT_BET_WINDOW_LEDGERS"

definition get_run_window_ledgers :: "store \<Rightarrow> nat" where
  "get_run_window_ledgers s = unwrap_or (c_run_window (s_config s)) DEFAULT_RUN_WINDOW_LEDGERS"

definition get_close_buffer_ledgers :: "store \<Rightarrow> nat" where
  "get_close_buffer_ledgers s = unwrap_or (c_close_buffer (s_config s)) 0"

definition get_market_snapshot :: "env \<Rightarrow> store \<Rightarrow> market_snapshot res" where
  "get_market_snapshot e s =
     and_then (get_round_pool_stats s) (\<lambda>stats.
     Inr \<lparr>mk_phase = (case get_round_phase e s of Inr p \<Rightarrow> [p] | Inl _ \<Rightarrow> []),
          mk_pool_stats = (case stats of Some st \<Rightarrow> [st] | None \<Rightarrow> []),
          mk_bet_window = get_bet_window_ledgers s, mk_run_window = get_run_window_ledgers s,
          mk_close_buffer = get_close_buffer_ledgers s, mk_fee_bps = c_fee_bps (s_config s),
          mk_fee_model = read_fee_model s\<rparr>)"

section \<open>The archive\<close>

definition get_last_round_id :: "store \<Rightarrow> nat" where
  "get_last_round_id s = unwrap_or (b_last_id (s_book s)) 0"

definition get_archived_round :: "nat \<Rightarrow> store \<Rightarrow> archived_round option" where
  "get_archived_round rid s = h_archived (s_history s) rid"

text \<open>The loop from the newest id down; a missing summary is skipped and does not count.\<close>

fun fetch_recent :: "(nat \<rightharpoonup> archived_round) \<Rightarrow> nat \<Rightarrow> nat list \<Rightarrow> archived_round list \<Rightarrow> archived_round list" where
  "fetch_recent archived fetch_cap [] result = result"
| "fetch_recent archived fetch_cap (rid # older) result =
     (if length result < fetch_cap then
        (case archived rid of
           Some summary \<Rightarrow> fetch_recent archived fetch_cap older (result @ [summary])
         | None \<Rightarrow> fetch_recent archived fetch_cap older result)
      else result)"

definition get_recent_archived_rounds :: "nat \<Rightarrow> store \<Rightarrow> archived_round list" where
  "get_recent_archived_rounds limit s =
     (let recent = unwrap_or (h_recent (s_history s)) [];
          retention_limit = unwrap_or (c_archive_retention (s_config s)) DEFAULT_ARCHIVE_RETENTION;
          fetch_cap = (if limit > retention_limit then retention_limit else limit)
      in if limit = 0 \<or> recent = [] then []
         else fetch_recent (h_archived (s_history s)) fetch_cap (rev recent) [])"

definition get_user_archived_participation :: "address \<Rightarrow> nat \<Rightarrow> store \<Rightarrow> user_round_outcome option" where
  "get_user_archived_participation user rid s =
     (if h_archived (s_history s) rid = None then None else h_outcomes (s_history s) (rid, user))"

text \<open>The loop of \<open>get_user_archive_history\<close> ends at the index \<open>end\<close> or at a full page; nothing in
  its shape says that it reaches either, so not returning is the value \<open>None\<close>.\<close>

partial_function (option) history_loop ::
  "(nat \<rightharpoonup> archived_round) \<Rightarrow> nat list \<Rightarrow> nat \<Rightarrow> nat \<Rightarrow> nat \<Rightarrow> archived_round list \<Rightarrow> archived_round list option" where
  "history_loop archived user_rounds limit bottom idx result =
     (let result' = (if idx < length user_rounds then
                       (case archived (user_rounds ! idx) of Some summary \<Rightarrow> result @ [summary] | None \<Rightarrow> result)
                     else result)
      in if idx = bottom \<or> length result' = limit then Some result'
         else history_loop archived user_rounds limit bottom (idx - 1) result')"

definition get_user_archive_history :: "address \<Rightarrow> nat \<Rightarrow> nat \<Rightarrow> store \<Rightarrow> archived_round list res option" where
  "get_user_archive_history user offset limit s =
     (if limit = 0 \<or> limit > MAX_PAGE_SIZE then Some (Inl (Fail PageSizeExceeded))
      else
        let user_rounds = get_or (h_user_rounds (s_history s)) [] user in
        if offset \<ge> length user_rounds then Some (Inr [])
        else
          let start = usaturating_sub (length user_rounds) (offset + 1); bottom = usaturating_sub start (usaturating_sub limit 1)
          in map_option Inr (history_loop (h_archived (s_history s)) user_rounds limit bottom start []))"

section \<open>Positions and predictions\<close>

definition get_user_position :: "address \<Rightarrow> store \<Rightarrow> user_position option" where
  "get_user_position user s =
     (case b_active (s_book s) of None \<Rightarrow> None | Some r \<Rightarrow> b_positions (s_book s) (r_id r, user))"

definition get_user_precision_prediction :: "address \<Rightarrow> store \<Rightarrow> precision_prediction option" where
  "get_user_precision_prediction user s =
     (case b_active (s_book s) of None \<Rightarrow> None | Some r \<Rightarrow> b_predictions (s_book s) (r_id r, user))"

definition push_found :: "('k \<rightharpoonup> 'v) \<Rightarrow> 'k \<Rightarrow> 'v list \<Rightarrow> 'v list" where
  "push_found m k items = (case m k of Some v \<Rightarrow> items @ [v] | None \<Rightarrow> items)"

definition get_precision_predictions :: "store \<Rightarrow> precision_prediction list" where
  "get_precision_predictions s =
     (case b_active (s_book s) of
        None \<Rightarrow> []
      | Some r \<Rightarrow>
          fold (push_found (\<lambda>u. b_predictions (s_book s) (r_id r, u))) (participants_of s (r_id r)) [])"

definition set_found :: "('k \<rightharpoonup> 'v) \<Rightarrow> 'k \<Rightarrow> ('k \<rightharpoonup> 'v) \<Rightarrow> ('k \<rightharpoonup> 'v)" where
  "set_found m k found = (case m k of Some v \<Rightarrow> found(k \<mapsto> v) | None \<Rightarrow> found)"

definition get_updown_positions :: "store \<Rightarrow> address \<rightharpoonup> user_position" where
  "get_updown_positions s =
     (case b_active (s_book s) of
        None \<Rightarrow> Map.empty
      | Some r \<Rightarrow>
          fold (set_found (\<lambda>u. b_positions (s_book s) (r_id r, u))) (participants_of s (r_id r)) Map.empty)"

text \<open>A page of what the lookup finds for the participants in order of address.  The predictions
  are looked up as they are, a position is paired with its owner.\<close>

definition prediction_of :: "store \<Rightarrow> nat \<Rightarrow> address \<rightharpoonup> precision_prediction" where
  "prediction_of s rid user = b_predictions (s_book s) (rid, user)"

definition owned_position :: "store \<Rightarrow> nat \<Rightarrow> address \<rightharpoonup> address \<times> user_position" where
  "owned_position s rid user = map_option (\<lambda>p. (user, p)) (b_positions (s_book s) (rid, user))"

definition found_page :: "(store \<Rightarrow> nat \<Rightarrow> address \<rightharpoonup> 'v) \<Rightarrow> nat \<Rightarrow> nat \<Rightarrow> store \<Rightarrow> 'v list" where
  "found_page lookup offset limit s =
     (let limit = min limit MAX_PAGE_SIZE in
      if limit = 0 then []
      else
        (case b_active (s_book s) of
           None \<Rightarrow> []
         | Some r \<Rightarrow>
             let participants = sort_addresses (participants_of s (r_id r)) in
             if offset \<ge> length participants then []
             else
               let fin = min (usaturating_add u32_max offset limit) (length participants) in
               fold (push_found (lookup s (r_id r))) (map (\<lambda>i. participants ! i) [offset..<fin]) []))"

definition get_precision_predictions_page :: "nat \<Rightarrow> nat \<Rightarrow> store \<Rightarrow> precision_prediction list" where
  "get_precision_predictions_page = found_page prediction_of"

definition get_updown_positions_page :: "nat \<Rightarrow> nat \<Rightarrow> store \<Rightarrow> (address \<times> user_position) list" where
  "get_updown_positions_page = found_page owned_position"

section \<open>Cursors\<close>

text \<open>The index of the first element whose key is beyond the cursor.\<close>

fun position_after :: "address list \<Rightarrow> address \<Rightarrow> nat" where
  "position_after [] cursor = 0"
| "position_after (a # rest) cursor = (if a > cursor then 0 else Suc (position_after rest cursor))"

definition find_cursor_position :: "address list \<Rightarrow> address option \<Rightarrow> nat" where
  "find_cursor_position addresses cursor = (case cursor of None \<Rightarrow> 0 | Some c \<Rightarrow> position_after addresses c)"

definition push_with_cursor ::
  "(address \<rightharpoonup> 'v) \<Rightarrow> address \<Rightarrow> 'v list \<times> address option \<Rightarrow> 'v list \<times> address option" where
  "push_with_cursor m user = (\<lambda>(items, last_addr).
     case m user of Some v \<Rightarrow> (items @ [v], Some user) | None \<Rightarrow> (items, last_addr))"

definition found_cursor ::
  "(store \<Rightarrow> nat \<Rightarrow> address \<rightharpoonup> 'v) \<Rightarrow> address option \<Rightarrow> nat \<Rightarrow> store \<Rightarrow> ('v list \<times> address option) res" where
  "found_cursor lookup cursor limit s =
     (if limit = 0 \<or> limit > MAX_PAGE_SIZE then Inl (Fail PageSizeExceeded)
      else
        (case b_active (s_book s) of
           None \<Rightarrow> Inr ([], None)
         | Some r \<Rightarrow>
             let participants = sort_addresses (participants_of s (r_id r));
                 start = find_cursor_position participants cursor
             in if start \<ge> length participants then Inr ([], None)
                else
                  let fin = min (usaturating_add u32_max start limit) (length participants) in
                  Inr (fold (push_with_cursor (lookup s (r_id r)))
                         (map (\<lambda>i. participants ! i) [start..<fin]) ([], None))))"

definition get_precision_predictions_cursor ::
  "address option \<Rightarrow> nat \<Rightarrow> store \<Rightarrow> (precision_prediction list \<times> address option) res" where
  "get_precision_predictions_cursor = found_cursor prediction_of"

definition get_updown_positions_cursor ::
  "address option \<Rightarrow> nat \<Rightarrow> store \<Rightarrow> ((address \<times> user_position) list \<times> address option) res" where
  "get_updown_positions_cursor = found_cursor owned_position"

section \<open>The leaderboard by cursor\<close>

record leaderboard_entry =
  le_user :: address
  le_stats :: user_stats

definition note_seen :: "address \<Rightarrow> address list \<Rightarrow> address list" where
  "note_seen user seen = (if user \<in> set seen then seen else seen @ [user])"

definition collect_leaderboard_entries :: "store \<Rightarrow> leaderboard_entry list" where
  "collect_leaderboard_entries s =
     (let seen = (case b_active (s_book s) of
                    None \<Rightarrow> []
                  | Some r \<Rightarrow> fold note_seen (participants_of s (r_id r)) [])
      in map (\<lambda>u. \<lparr>le_user = u, le_stats = lifetime_user_stats s u\<rparr>) seen)"

text \<open>The insertion of the two rankings, by a score that is higher first and the address that breaks ties.\<close>

fun rank_insert :: "(user_stats \<Rightarrow> nat) \<Rightarrow> leaderboard_entry \<Rightarrow> leaderboard_entry list \<Rightarrow> leaderboard_entry list" where
  "rank_insert score x [] = [x]"
| "rank_insert score x (cur # rest) =
     (if score (le_stats x) > score (le_stats cur) \<or> score (le_stats x) = score (le_stats cur) \<and> le_user x < le_user cur
      then x # cur # rest
      else cur # rank_insert score x rest)"

definition ranking_cursor ::
  "(user_stats \<Rightarrow> nat) \<Rightarrow> address option \<Rightarrow> nat \<Rightarrow> store \<Rightarrow> (leaderboard_entry list \<times> address option) res" where
  "ranking_cursor score cursor limit s =
     (if limit = 0 \<or> limit > MAX_PAGE_SIZE then Inl (Fail PageSizeExceeded)
      else
        let ranked = fold (rank_insert score) (collect_leaderboard_entries s) [];
            start = find_cursor_position (map le_user ranked) cursor
        in if start \<ge> length ranked then Inr ([], None)
           else
             let fin = min (usaturating_add u32_max start limit) (length ranked);
                 items = map (\<lambda>i. ranked ! i) [start..<fin]
             in Inr (items, if items = [] then None else Some (le_user (last items))))"

definition leaderboard_by_wins_cursor ::
  "address option \<Rightarrow> nat \<Rightarrow> store \<Rightarrow> (leaderboard_entry list \<times> address option) res" where
  "leaderboard_by_wins_cursor = ranking_cursor st_total_wins"

definition leaderboard_by_streak_cursor ::
  "address option \<Rightarrow> nat \<Rightarrow> store \<Rightarrow> (leaderboard_entry list \<times> address option) res" where
  "leaderboard_by_streak_cursor = ranking_cursor st_best_streak"

end
