(* ===== verification/Paging.thy ===== *)
theory Paging
  imports Queries
begin

text \<open>
  What the paginated queries return: the pages of an offset are slices, the archive history
  ends and is the requested slice of the history, and a client that follows the cursor from
  page to page is modelled as \<open>walk\<close>.  A walk over positions visits each of them once; a walk
  over the leaderboard need not end, and one over predictions may stop early.
\<close>

section \<open>Slices\<close>

lemma fold_push_found: "fold (push_found m) xs items = items @ List.map_filter m xs"
  by (induction xs arbitrary: items)
     (simp_all add: push_found_def List.map_filter_simps split: option.splits)

lemma map_nth_slice: "hi \<le> length xs \<Longrightarrow> map ((!) xs) [lo..<hi] = take (hi - lo) (drop lo xs)"
  by (rule nth_equalityI) auto

lemma map_filter_append: "List.map_filter f (xs @ ys) = List.map_filter f xs @ List.map_filter f ys"
  by (simp add: List.map_filter_def)

lemma length_map_filter: "length (List.map_filter f xs) \<le> length xs"
  by (induction xs) (auto simp: List.map_filter_simps split: option.splits)

lemma found_page_slice:
  assumes "b_active (s_book s) = Some r" "length (participants_of s (r_id r)) \<le> u32_max"
  shows "found_page lookup offset limit s =
     List.map_filter (lookup s (r_id r)) (take (min limit MAX_PAGE_SIZE) (drop offset (sort_addresses (participants_of s (r_id r)))))"
proof -
  let ?ps = "sort_addresses (participants_of s (r_id r))" and ?n = "min limit MAX_PAGE_SIZE"
  have l: "length ?ps \<le> u32_max" using assms(2) by (simp add: sort_addresses_def)
  show ?thesis
  proof (cases "?n = 0 \<or> offset \<ge> length ?ps")
    case True
    then show ?thesis using assms(1) by (auto simp: found_page_def Let_def List.map_filter_simps)
  next
    case False
    let ?fin = "min (usaturating_add u32_max offset ?n) (length ?ps)"
    have "?fin = min (offset + ?n) (length ?ps)" using l by (auto simp: usaturating_add_def)
    then have "map ((!) ?ps) [offset..<?fin] = take ?n (drop offset ?ps)"
      by (simp add: map_nth_slice min_def)
    then show ?thesis using False assms(1) by (simp add: found_page_def fold_push_found Let_def)
  qed
qed

section \<open>The archive history\<close>

text \<open>With a page still to fill the loop goes down to \<open>bottom\<close> and returns.\<close>

lemma history_loop_returns:
  assumes "bottom \<le> idx" "idx < length rounds" "length result + (idx - bottom) < limit"
  shows "history_loop archived rounds limit bottom idx result =
     Some (result @ List.map_filter archived (rev (take (Suc idx - bottom) (drop bottom rounds))))"
  using assms
proof (induction "idx - bottom" arbitrary: idx result)
  case 0
  then have "idx = bottom" "take (Suc idx - bottom) (drop bottom rounds) = [rounds ! idx]"
    by (simp_all add: take_Suc_conv_app_nth)
  then show ?case using 0
    by (subst history_loop.simps) (simp add: Let_def List.map_filter_simps split: option.splits)
next
  case (Suc n)
  let ?result = "case archived (rounds ! idx) of Some a \<Rightarrow> result @ [a] | None \<Rightarrow> result"
  have i: "idx \<noteq> bottom" "Suc (idx - 1) - bottom = idx - bottom" "bottom \<le> idx - 1" using Suc.hyps(2) by auto
  have full: "length ?result + (idx - 1 - bottom) < limit" "length ?result \<noteq> limit"
    using Suc.prems Suc.hyps(2) by (auto split: option.splits)
  have "take (Suc idx - bottom) (drop bottom rounds) = take (idx - bottom) (drop bottom rounds) @ [rounds ! idx]"
    using Suc.prems Suc.hyps(2) by (simp add: take_Suc_conv_app_nth Suc_diff_le)
  moreover have "history_loop archived rounds limit bottom (idx - 1) ?result =
      Some (?result @ List.map_filter archived (rev (take (Suc (idx - 1) - bottom) (drop bottom rounds))))"
    using Suc.hyps Suc.prems full i by (intro Suc.hyps(1)) auto
  ultimately show ?case using Suc.prems full i
    by (subst history_loop.simps) (simp add: Let_def List.map_filter_simps split: option.splits)
qed

lemma newest_slice:
  assumes "offset < length xs" "0 < limit"
  shows "rev (take (Suc (length xs - (offset + 1)) - (length xs - (offset + 1) - (limit - 1)))
           (drop (length xs - (offset + 1) - (limit - 1)) xs)) = take limit (drop offset (rev xs))"
  using assms by (intro nth_equalityI) (auto simp: rev_nth)

text \<open>C28 The query for a user's archive history returns on every input.  Its loop, whose index saturates
  at zero instead of running out, ends on every history, offset and limit, and the answer is
  the error for a limit out of range, and otherwise the summaries still archived among the
  \<open>limit\<close> newest rounds after the \<open>offset\<close> newest, newest first.\<close>

theorem archive_history_returns:
  "get_user_archive_history user offset limit s = Some (
     if limit \<in> {1..MAX_PAGE_SIZE}
     then Inr (List.map_filter (h_archived (s_history s))
                (take limit (drop offset (rev (get_or (h_user_rounds (s_history s)) [] user)))))
     else Inl (Fail PageSizeExceeded))"
proof -
  let ?rounds = "get_or (h_user_rounds (s_history s)) [] user"
  show ?thesis
  proof (cases "limit \<in> {1..MAX_PAGE_SIZE} \<and> offset < length ?rounds")
    case True
    let ?start = "length ?rounds - (offset + 1)"
    have "history_loop (h_archived (s_history s)) ?rounds limit (?start - (limit - 1)) ?start [] =
      Some (List.map_filter (h_archived (s_history s)) (rev (take (Suc ?start - (?start - (limit - 1))) (drop (?start - (limit - 1)) ?rounds))))"
      using True by (subst history_loop_returns) auto
    then show ?thesis using True newest_slice[of offset ?rounds limit]
      by (simp add: get_user_archive_history_def Let_def usaturating_sub_def)
  qed (auto simp: get_user_archive_history_def Let_def List.map_filter_simps)
qed

section \<open>Walking along the cursor\<close>

text \<open>A client that asks page after page with the cursor of the previous page, at most \<open>n\<close> pages:
  \<open>None\<close> when the pages do not end within them.\<close>

fun walk :: "(address option \<Rightarrow> ('v list \<times> address option) res) \<Rightarrow> nat \<Rightarrow> address option \<Rightarrow> 'v list res option" where
  "walk fetch 0 cursor = None"
| "walk fetch (Suc n) cursor =
     (case fetch cursor of
        Inl e \<Rightarrow> Some (Inl e)
      | Inr (items, None) \<Rightarrow> Some (Inr items)
      | Inr (items, Some c) \<Rightarrow> map_option (map_sum id ((@) items)) (walk fetch n (Some c)))"

text \<open>The cursor after the first \<open>k\<close> keys.\<close>

definition cursor_at :: "address list \<Rightarrow> nat \<Rightarrow> address option" where
  "cursor_at ks k = (if k = 0 then None else Some (ks ! (k - 1)))"

text \<open>A feed serves the items of its keys in order, a page at a time, and its cursor is the last key served.\<close>

locale cursor_feed =
  fixes feed_ok :: "'s \<Rightarrow> bool"
    and fetch :: "address option \<Rightarrow> nat \<Rightarrow> 's \<Rightarrow> ('v list \<times> address option) res"
    and feed_keys :: "'s \<Rightarrow> address list"
    and item :: "'s \<Rightarrow> address \<Rightarrow> 'v"
  assumes page_served: "feed_ok s \<Longrightarrow> limit \<in> {1..MAX_PAGE_SIZE} \<Longrightarrow> k \<le> length (feed_keys s) \<Longrightarrow>
    fetch (cursor_at (feed_keys s) k) limit s =
      Inr (map (item s) (take limit (drop k (feed_keys s))),
           if k < length (feed_keys s) then cursor_at (feed_keys s) (min (k + limit) (length (feed_keys s))) else None)"
begin

lemma walk_from:
  assumes "feed_ok s" "limit \<in> {1..MAX_PAGE_SIZE}" "k \<le> length (feed_keys s)" "length (feed_keys s) - k < n"
  shows "walk (\<lambda>c. fetch c limit s) n (cursor_at (feed_keys s) k) = Some (Inr (map (item s) (drop k (feed_keys s))))"
  using assms(3,4)
proof (induction n arbitrary: k)
  case (Suc n)
  let ?ks = "feed_keys s"
  show ?case
  proof (cases "k < length ?ks")
    case True
    let ?k = "min (k + limit) (length ?ks)"
    have k: "?k \<noteq> 0" "?k \<le> length ?ks" "length ?ks - ?k < n" using True assms(2) Suc.prems by auto
    have "take limit (drop k ?ks) @ drop ?k ?ks = drop k ?ks"
      by (simp add: min_def) (metis add.commute append_take_drop_id drop_drop)
    then have "map (item s) (take limit (drop k ?ks)) @ map (item s) (drop ?k ?ks) = map (item s) (drop k ?ks)"
      by (metis map_append)
    moreover have "cursor_at ?ks ?k = Some (?ks ! (?k - 1))" using k(1) by (simp add: cursor_at_def)
    ultimately show ?thesis
      using page_served[OF assms(1,2) Suc.prems(1)] Suc.IH[OF k(2,3)] True by (simp del: min_less_iff_conj)
  next
    case False
    then show ?thesis using page_served[OF assms(1,2) Suc.prems(1)] Suc.prems by simp
  qed
qed simp

lemma walk_visits_all:
  assumes "feed_ok s" "limit \<in> {1..MAX_PAGE_SIZE}" "length (feed_keys s) < n"
  shows "walk (\<lambda>c. fetch c limit s) n None = Some (Inr (map (item s) (feed_keys s)))"
  using walk_from[OF assms(1,2), of 0 n] assms(3) by (simp add: cursor_at_def)

end

section \<open>The feeds of positions and predictions\<close>

lemma position_after_nth:
  "sorted_wrt (<) xs \<Longrightarrow> k < length xs \<Longrightarrow> position_after xs (xs ! k) = Suc k"
proof (induction xs arbitrary: k)
  case (Cons a xs)
  have "position_after xs a = 0" using Cons.prems(1) by (cases xs) auto
  moreover have "a < xs ! i" if "i < length xs" for i using Cons.prems(1) that by simp
  ultimately show ?case using Cons by (cases k) (auto simp: not_less order.strict_implies_order)
qed simp

lemma find_cursor_at:
  assumes "sorted_wrt (<) xs" "k \<le> length xs"
  shows "find_cursor_position xs (cursor_at xs k) = k"
  using assms position_after_nth[OF assms(1), of "k - 1"] by (auto simp: find_cursor_position_def cursor_at_def)

lemma strict_sorted_sort_addresses: "distinct xs \<Longrightarrow> sorted_wrt (<) (sort_addresses xs)"
  by (auto simp: sort_addresses_def strict_sorted_iff sorted01)

lemma fold_push_with_cursor:
  assumes "\<And>u. u \<in> set xs \<Longrightarrow> m u \<noteq> None"
  shows "fold (push_with_cursor m) xs (items, l) = (items @ map (the \<circ> m) xs, if xs = [] then l else Some (last xs))"
  using assms by (induction xs arbitrary: items l) (fastforce simp: push_with_cursor_def)+

definition feed_members :: "store \<Rightarrow> address list" where
  "feed_members s = (case b_active (s_book s) of None \<Rightarrow> [] | Some r \<Rightarrow> sort_addresses (members (s_book s) (r_id r)))"

definition active_id :: "store \<Rightarrow> nat" where
  "active_id s = (case b_active (s_book s) of None \<Rightarrow> 0 | Some r \<Rightarrow> r_id r)"

text \<open>The lookup finds every participant, and there are at most as many as an index can count.\<close>

definition all_found :: "(store \<Rightarrow> nat \<Rightarrow> address \<rightharpoonup> 'v) \<Rightarrow> store \<Rightarrow> bool" where
  "all_found lookup s \<longleftrightarrow> book_ok (s_book s) \<and> b_active (s_book s) \<noteq> None \<and> length (feed_members s) \<le> u32_max \<and>
     (\<forall>u \<in> set (feed_members s). lookup s (active_id s) u \<noteq> None)"

lemma feed_members_strict: "book_ok (s_book s) \<Longrightarrow> sorted_wrt (<) (feed_members s)"
  using active_okD(1)[of "s_book s"]
  by (auto simp: feed_members_def round_ok_def strict_sorted_sort_addresses split: option.splits)

lemma found_cursor_page:
  assumes "all_found lookup s" "limit \<in> {1..MAX_PAGE_SIZE}" "k \<le> length (feed_members s)"
  shows "found_cursor lookup (cursor_at (feed_members s) k) limit s =
    Inr (map (the \<circ> lookup s (active_id s)) (take limit (drop k (feed_members s))),
         if k < length (feed_members s) then cursor_at (feed_members s) (min (k + limit) (length (feed_members s))) else None)"
proof -
  let ?ps = "feed_members s"
  obtain r where r: "b_active (s_book s) = Some r" using assms(1) by (auto simp: all_found_def)
  have ps: "sort_addresses (participants_of s (r_id r)) = ?ps" "active_id s = r_id r"
    using r by (simp_all add: feed_members_def active_id_def members_participants)
  have strict: "sorted_wrt (<) ?ps" using assms(1) by (simp add: all_found_def feed_members_strict)
  let ?fin = "min (usaturating_add u32_max k limit) (length ?ps)"
  have fin: "?fin = min (k + limit) (length ?ps)"
    using assms(1) by (auto simp: usaturating_add_def all_found_def)
  have xs: "map ((!) ?ps) [k..<?fin] = take limit (drop k ?ps)" using fin by (simp add: map_nth_slice min_def)
  have "set (take limit (drop k ?ps)) \<subseteq> set ?ps" by (meson order_trans set_drop_subset set_take_subset)
  then have found: "\<And>u. u \<in> set (take limit (drop k ?ps)) \<Longrightarrow> lookup s (r_id r) u \<noteq> None"
    using assms(1) ps(2) by (auto simp: all_found_def)
  have last: "k < length ?ps \<Longrightarrow> last (take limit (drop k ?ps)) = ?ps ! (min (k + limit) (length ?ps) - 1)"
    using assms(2) by (subst last_conv_nth) (auto simp: min_def intro!: arg_cong[where f = "(!) ?ps"])
  show ?thesis
    using assms(2) r ps fin last find_cursor_at[OF strict assms(3)]
    by (auto simp: found_cursor_def Let_def xs[unfolded fin] fold_push_with_cursor[OF found] cursor_at_def not_le)
qed

interpretation positions: cursor_feed "all_found owned_position" get_updown_positions_cursor feed_members
    "\<lambda>s. the \<circ> owned_position s (active_id s)"
  by unfold_locales (simp add: get_updown_positions_cursor_def found_cursor_page)

interpretation predictions: cursor_feed "all_found prediction_of" get_precision_predictions_cursor feed_members
    "\<lambda>s. the \<circ> prediction_of s (active_id s)"
  by unfold_locales (simp add: get_precision_predictions_cursor_def found_cursor_page)

section \<open>Properties\<close>

text \<open>C29 Paging through positions by cursor is complete.  In a contract whose invariant holds, with an
  active UpDown round, a client that starts without a cursor and hands each page's cursor to
  the next call ends after finitely many pages, whatever the page size, and has then seen
  the position of every bettor exactly once, in order of address.\<close>

theorem positions_cursor_complete:
  assumes "contract_ok s" "b_active (s_book s) = Some r" "r_mode r = UpDown"
    and "length (members (s_book s) (r_id r)) \<le> u32_max" "limit \<in> {1..MAX_PAGE_SIZE}"
    and "length (members (s_book s) (r_id r)) < n"
  shows "\<exists>items. walk (\<lambda>c. get_updown_positions_cursor c limit s) n None = Some (Inr items) \<and>
     sorted_wrt (<) (map fst items) \<and>
     (\<forall>u p. (u, p) \<in> set items \<longleftrightarrow> b_positions (s_book s) (r_id r, u) = Some p)"
proof -
  let ?b = "s_book s" and ?item = "the \<circ> owned_position s (active_id s)"
  note ok = contract_okD(2)[OF assms(1)]
  have ps: "feed_members s = sort_addresses (members ?b (r_id r))" "active_id s = r_id r"
    using assms(2) by (simp_all add: feed_members_def active_id_def)
  have mem: "u \<in> set (feed_members s) \<longleftrightarrow> b_positions ?b (r_id r, u) \<noteq> None" for u
    using active_okD(1)[OF ok assms(2)] assms(3) ps by (auto simp: round_ok_def sort_addresses_def)
  then have "all_found owned_position s"
    using ok assms(2,4) ps by (auto simp: all_found_def owned_position_def sort_addresses_def)
  then have run: "walk (\<lambda>c. get_updown_positions_cursor c limit s) n None = Some (Inr (map ?item (feed_members s)))"
    using assms(5,6) ps by (intro positions.walk_visits_all) (auto simp: sort_addresses_def)
  have item: "?item u = (u, the (b_positions ?b (r_id r, u)))" if "u \<in> set (feed_members s)" for u
    using that mem ps by (auto simp: owned_position_def)
  have fst: "map fst (map ?item (feed_members s)) = feed_members s" using item by (simp add: map_idI)
  have "(u, p) \<in> set (map ?item (feed_members s)) \<longleftrightarrow> b_positions ?b (r_id r, u) = Some p" for u p
    using item mem by (auto simp del: o_apply simp: image_iff)
  then show ?thesis using run fst feed_members_strict[OF ok] by auto
qed

theorem positions_cursor_complete_witness:
  "\<exists>items. walk (\<lambda>c. get_updown_positions_cursor c 1 two_bets) 3 None = Some (Inr items) \<and>
     sorted_wrt (<) (map fst items) \<and>
     (\<forall>u p. (u, p) \<in> set items \<longleftrightarrow> b_positions (s_book two_bets) (1, u) = Some p)"
  using positions_cursor_complete[OF two_bets_ok two_bets_book(1), of 1 3]
  by (simp add: two_bets_book MAX_PAGE_SIZE_def u32_max_def del: One_nat_def)

text \<open>Two bettors of which the second, user 6, has won more often.\<close>

definition ranked_bets :: store where
  "ranked_bets = upd_board (\<lambda>b. b\<lparr>l_stats := [6 \<mapsto> no_stats\<lparr>st_total_wins := 2\<rparr>]\<rparr>) two_bets"

lemma ranked_bets_order:
  "fold (rank_insert st_total_wins) (collect_leaderboard_entries ranked_bets) [] =
    [\<lparr>le_user = 6, le_stats = no_stats\<lparr>st_total_wins := 2\<rparr>\<rparr>, \<lparr>le_user = 5, le_stats = no_stats\<rparr>]"
proof -
  have "s_book ranked_bets = s_book two_bets" "l_stats (s_board ranked_bets) = [6 \<mapsto> no_stats\<lparr>st_total_wins := 2\<rparr>]"
    by (simp_all add: ranked_bets_def)
  then show ?thesis
    by (simp add: collect_leaderboard_entries_def two_bets_book members_participants note_seen_def
        lifetime_user_stats_def get_or_def no_stats_def del: One_nat_def)
qed

lemma ranked_bets_ok: "contract_ok ranked_bets"
  using two_bets_ok
  by (simp add: ranked_bets_def contract_ok_def config_ok_def fee_ok_def Let_def)

lemma ranked_bets_pages:
  "leaderboard_by_wins_cursor None 2 ranked_bets = Inr ([\<lparr>le_user = 6, le_stats = no_stats\<lparr>st_total_wins := 2\<rparr>\<rparr>, \<lparr>le_user = 5, le_stats = no_stats\<rparr>], Some 5)"
  "leaderboard_by_wins_cursor (Some 5) 2 ranked_bets = leaderboard_by_wins_cursor None 2 ranked_bets"
  "leaderboard_by_wins_cursor None 1 ranked_bets = Inr ([\<lparr>le_user = 6, le_stats = no_stats\<lparr>st_total_wins := 2\<rparr>\<rparr>], Some 6)"
  "leaderboard_by_wins_cursor (Some 6) 1 ranked_bets = Inr ([], None)"
  by (simp_all add: leaderboard_by_wins_cursor_def ranking_cursor_def ranked_bets_order find_cursor_position_def Let_def
      MAX_PAGE_SIZE_def usaturating_add_def u32_max_def upt_rec)


text \<open>A Precision round of two participants, of which only the second has revealed a prediction.\<close>

definition half_revealed :: store where
  "half_revealed = (sample_store Precision)\<lparr>s_book := (s_book (sample_store Precision))\<lparr>
     b_commitments := [(1, 5) \<mapsto> \<lparr>pc_hash = [42, 1, 2], pc_amount = 300, pc_revealed = False\<rparr>],
     b_predictions := [(1, 6) \<mapsto> \<lparr>pp_user = 6, pp_price = 120, pp_amount = 200\<rparr>],
     b_participants := [1 \<mapsto> [5, 6]]\<rparr>\<rparr>"

lemma half_revealed_book:
  "b_active (s_book half_revealed) = Some (sample_round Precision)" "members (s_book half_revealed) 1 = [5, 6]"
  "b_positions (s_book half_revealed) = Map.empty" "r_id (sample_round Precision) = 1" "r_mode (sample_round Precision) = Precision"
  "b_predictions (s_book half_revealed) = [(1, 6) \<mapsto> \<lparr>pp_user = 6, pp_price = 120, pp_amount = 200\<rparr>]"
  "b_commitments (s_book half_revealed) = [(1, 5) \<mapsto> \<lparr>pc_hash = [42, 1, 2], pc_amount = 300, pc_revealed = False\<rparr>]"
  by (simp_all add: half_revealed_def sample_store_def sample_round_def empty_store_def members_def get_or_def)

text \<open>Paging through predictions by cursor may stop early.  It is complete when every participant has
  a prediction (\<open>predictions.walk_visits_all\<close>), but a page of participants without one returns
  no cursor, which is how the end is told.  With one commitment still closed before the only prediction, the
  first page of one is empty and without cursor, and the prediction is never seen.\<close>

theorem predictions_cursor_stops_early:
  "get_precision_predictions half_revealed = [\<lparr>pp_user = 6, pp_price = 120, pp_amount = 200\<rparr>] \<and>
   walk (\<lambda>c. get_precision_predictions_cursor c 1 half_revealed) 1 None = Some (Inr [])"
proof -
  have "get_precision_predictions_cursor None 1 half_revealed = Inr ([], None)"
    by (simp add: get_precision_predictions_cursor_def found_cursor_def half_revealed_book members_participants Let_def
        find_cursor_position_def sort_addresses_def MAX_PAGE_SIZE_def usaturating_add_def u32_max_def push_with_cursor_def
        prediction_of_def upt_rec del: One_nat_def)
  moreover have "get_precision_predictions half_revealed = [\<lparr>pp_user = 6, pp_price = 120, pp_amount = 200\<rparr>]"
    by (simp add: get_precision_predictions_def half_revealed_book members_participants push_found_def del: One_nat_def)
  ultimately show ?thesis by simp
qed

end
