(* ===== verification/Query_Properties.thy ===== *)
theory Query_Properties
  imports Contract Paging
begin

text \<open>
  What the statistics of the active round say: the pools, counts and ratios that
  \<open>get_round_pool_stats\<close> shows are those of the book, and the query cannot trap in a store whose
  invariant holds.
\<close>

section \<open>Pool statistics\<close>

definition bets_on :: "book \<Rightarrow> nat \<Rightarrow> bet_side \<Rightarrow> address set" where
  "bets_on b rid side = {u. \<exists>p. b_positions b (rid, u) = Some p \<and> pos_side p = side}"

lemma count_sides:
  "fold (count_side s rid) us st =
     st\<lparr>pl_up_count := pl_up_count st + length (filter (\<lambda>u. u \<in> bets_on (s_book s) rid Up) us),
        pl_down_count := pl_down_count st + length (filter (\<lambda>u. u \<in> bets_on (s_book s) rid Down) us)\<rparr>"
  by (induction us arbitrary: st) (auto simp: count_side_def bets_on_def split: option.splits bet_side.splits)

lemma length_filter_card: "distinct us \<Longrightarrow> A \<subseteq> set us \<Longrightarrow> length (filter (\<lambda>u. u \<in> A) us) = card A"
  by (subst distinct_card[symmetric]) (auto intro: arg_cong[where f = card])

lemma ratio_bps_exact:
  assumes "0 \<le> pool" "pool \<le> stake" "0 < stake" "stake * BPS_DENOMINATOR < 2 ^ 128"
  shows "int (ratio_bps pool stake) = pool * BPS_DENOMINATOR div stake"
proof -
  have b: "pool < 2 ^ 128" "stake < 2 ^ 128" using assms by (simp_all add: protocol_constants)
  have "pool * BPS_DENOMINATOR \<le> stake * BPS_DENOMINATOR" using assms(2) by (simp add: protocol_constants)
  then have le: "nat pool * nat BPS_DENOMINATOR \<le> u128_max"
    using assms by (simp add: u128_max_def protocol_constants nat_mult_distrib[symmetric])
  have "pool * BPS_DENOMINATOR div stake \<le> BPS_DENOMINATOR"
    using zdiv_mono1[of "pool * BPS_DENOMINATOR" "stake * BPS_DENOMINATOR" stake] assms(2,3) by (simp add: protocol_constants)
  moreover have "0 \<le> pool * BPS_DENOMINATOR div stake"
    using assms(1,3) by (simp add: protocol_constants pos_imp_zdiv_nonneg_iff)
  ultimately have "pool * BPS_DENOMINATOR div stake mod 2 ^ 32 = pool * BPS_DENOMINATOR div stake"
    by (simp add: protocol_constants)
  then show ?thesis
    using b assms(1,3) le by (simp add: ratio_bps_def min_absorb2 zdiv_int zmod_int protocol_constants)
qed

lemma ratios_add_up:
  fixes up down :: int
  assumes "0 \<le> up" "0 \<le> down" "0 < up + down"
  shows "up * 10000 div (up + down) + down * 10000 div (up + down) \<in> {9999, 10000}"
proof -
  define t where "t = up + down"
  define q where "q = up * 10000 div t + down * 10000 div t"
  have "up * 10000 div t * t + up * 10000 mod t = up * 10000" "down * 10000 div t * t + down * 10000 mod t = down * 10000"
    by (simp_all only: div_mult_mod_eq)
  then have e: "q * t + (up * 10000 mod t + down * 10000 mod t) = 10000 * t"
    by (simp add: q_def t_def algebra_simps)
  have m: "0 \<le> up * 10000 mod t" "up * 10000 mod t < t" "0 \<le> down * 10000 mod t" "down * 10000 mod t < t" and t: "0 < t"
    using assms by (simp_all add: t_def)
  have "q * t \<le> 10000 * t" "9998 * t < q * t" using e m by linarith+
  then have "q \<le> 10000" "9998 < q" using t by (simp_all only: mult_le_cancel_right mult_less_cancel_right)
  then have "q \<in> {9999, 10000}" by auto
  then show ?thesis by (simp only: q_def t_def)
qed

text \<open>The fold over the participants of a Precision round adds up their stakes without overflow.\<close>

lemma count_predictions:
  assumes "\<And>u. u \<in> set us \<Longrightarrow> precision_stake (s_book s) (rid, u) \<noteq> None"
    and "\<And>u. 0 \<le> get_or (precision_stake (s_book s)) 0 (rid, u)" "0 \<le> pl_precision_stake st"
    and "in_i128 (pl_precision_stake st + (\<Sum>u\<leftarrow>us. get_or (precision_stake (s_book s)) 0 (rid, u)))"
  shows "\<exists>st'. fold_res (count_prediction s rid) us st = Inr st' \<and>
     pl_precision_stake st' = pl_precision_stake st + (\<Sum>u\<leftarrow>us. get_or (precision_stake (s_book s)) 0 (rid, u)) \<and>
     pl_predictions st' = pl_predictions st + length (filter (\<lambda>u. u \<in> {u. b_predictions (s_book s) (rid, u) \<noteq> None}) us) \<and>
     pl_predictions st' + pl_commitments st' = pl_predictions st + pl_commitments st + length us \<and>
     pl_round_id st' = pl_round_id st \<and> pl_participants st' = pl_participants st"
  using assms
proof (induction us arbitrary: st)
  case (Cons u us)
  let ?x = "get_or (precision_stake (s_book s)) 0 (rid, u)" and ?rest = "\<Sum>u\<leftarrow>us. get_or (precision_stake (s_book s)) 0 (rid, u)"
  have rest: "0 \<le> ?rest" by (rule sum_list_nonneg) (use Cons.prems(2) in auto)
  have x: "0 \<le> ?x" by (rule Cons.prems(2))
  have add: "checked_add (pl_precision_stake st) ?x = Some (pl_precision_stake st + ?x)"
    using Cons.prems(3,4) rest x by (simp add: checked_add_def in_i128_def)
  obtain st1 where st1: "count_prediction s rid u st = Inr st1" "pl_precision_stake st1 = pl_precision_stake st + ?x"
    "pl_predictions st1 = pl_predictions st + (if b_predictions (s_book s) (rid, u) \<noteq> None then 1 else 0)"
    "pl_predictions st1 + pl_commitments st1 = Suc (pl_predictions st + pl_commitments st)"
    "pl_round_id st1 = pl_round_id st" "pl_participants st1 = pl_participants st"
    using Cons.prems(1)[of u] add
    by (cases "b_predictions (s_book s) (rid, u)"; cases "b_commitments (s_book s) (rid, u)")
       (auto simp: count_prediction_def precision_stake_def get_or_def)
  have "\<exists>st'. fold_res (count_prediction s rid) us st1 = Inr st' \<and>
     pl_precision_stake st' = pl_precision_stake st1 + ?rest \<and>
     pl_predictions st' = pl_predictions st1 + length (filter (\<lambda>u. u \<in> {u. b_predictions (s_book s) (rid, u) \<noteq> None}) us) \<and>
     pl_predictions st' + pl_commitments st' = pl_predictions st1 + pl_commitments st1 + length us \<and>
     pl_round_id st' = pl_round_id st1 \<and> pl_participants st' = pl_participants st1"
    by (rule Cons.IH) (use Cons.prems st1(2) x in \<open>auto simp: add.assoc\<close>)
  then show ?case using st1 by (auto simp: add.assoc)
qed simp

text \<open>C31 The pool statistics are those of the book.  In a store whose invariant holds and whose wealth is
  below the bound where the ratio saturates, the query never traps.  For an UpDown round it
  shows the sum of the stakes and the number of bettors on each side, and ratios in basis
  points that are rounded down and add up to 10000 but for the rounding; for a Precision
  round it shows the pot, every participant is counted once, as a prediction or as a
  commitment, and the predictions counted are those open.\<close>

theorem pool_stats_exact:
  assumes "contract_ok s" "wealth s * BPS_DENOMINATOR < 2 ^ 127" "b_active (s_book s) = Some r"
  shows "\<exists>st. get_round_pool_stats s = Inr (Some st) \<and> pl_round_id st = r_id r \<and>
     (case r_mode r of
        UpDown \<Rightarrow>
          pl_up_stake st = side_pool (s_book s) (r_id r) Up \<and> pl_down_stake st = side_pool (s_book s) (r_id r) Down \<and>
          pl_up_count st = card (bets_on (s_book s) (r_id r) Up) \<and> pl_down_count st = card (bets_on (s_book s) (r_id r) Down) \<and>
          (if pl_up_stake st + pl_down_stake st = 0 then pl_up_ratio st = 0 \<and> pl_down_ratio st = 0
           else int (pl_up_ratio st) = pl_up_stake st * BPS_DENOMINATOR div (pl_up_stake st + pl_down_stake st) \<and>
                pl_up_ratio st + pl_down_ratio st \<in> {9999, 10000})
      | Precision \<Rightarrow>
          pl_precision_stake st = precision_pot (s_book s) (r_id r) \<and> pl_participants st = length (members (s_book s) (r_id r)) \<and>
          pl_predictions st = card {u. b_predictions (s_book s) (r_id r, u) \<noteq> None} \<and>
          pl_predictions st + pl_commitments st = pl_participants st)"
proof -
  let ?b = "s_book s" and ?rid = "r_id r"
  let ?us = "members ?b ?rid"
  note ok = active_okD(1)[OF contract_okD(2)[OF assms(1)] assms(3)] and st = contract_okD(5)[OF assms(1)]
  have w: "0 \<le> wealth s" using parts_nonneg[OF assms(1)] by (simp add: wealth_def)
  then have w127: "wealth s < 2 ^ 127" using assms(2) by (simp add: protocol_constants)
  note le = round_stake_at_most_wealth[OF assms(1,3)] and range = round_stake_in_range[OF assms(1,3) w127]
  show ?thesis
  proof (cases "r_mode r")
    case UpDown
    let ?up = "side_pool ?b ?rid Up" and ?down = "side_pool ?b ?rid Down"
    have pools: "r_pool_up r = ?up" "r_pool_down r = ?down" using ok UpDown by (simp_all add: round_ok_def)
    have nn: "0 \<le> ?up" "0 \<le> ?down" by (rule side_pool_nonneg[OF st])+
    have sum: "round_stake ?b ?rid = ?up + ?down" using round_stake_mode(1)[OF ok UpDown] pools by simp
    have add: "checked_add ?up ?down = Some (?up + ?down)" using range sum by (simp add: checked_add_def)
    have sides: "distinct ?us" "bets_on ?b ?rid side \<subseteq> set ?us" for side
      using ok UpDown by (auto simp: round_ok_def bets_on_def)
    note counts = length_filter_card[OF sides]
    have bps: "(?up + ?down) * BPS_DENOMINATOR < 2 ^ 128"
      using le sum assms(2) by (simp add: protocol_constants)
    have ratios: "int (ratio_bps ?up (?up + ?down)) = ?up * BPS_DENOMINATOR div (?up + ?down)"
      "int (ratio_bps ?down (?up + ?down)) = ?down * BPS_DENOMINATOR div (?up + ?down)" if "0 < ?up + ?down"
      using that nn bps by (auto intro!: ratio_bps_exact)
    have "ratio_bps ?up (?up + ?down) + ratio_bps ?down (?up + ?down) \<in> {9999, 10000}" if "0 < ?up + ?down"
      using ratios[OF that] ratios_add_up[OF nn that] by (auto simp: protocol_constants)
    then show ?thesis using UpDown assms(3) pools add nn ratios
      by (auto simp: get_round_pool_stats_def round_pool_stats_def members_participants count_sides counts no_pool_def Let_def)
  next
    case Precision
    have mem: "u \<in> set ?us \<longleftrightarrow> precision_stake ?b (?rid, u) \<noteq> None" for u using ok Precision by (simp add: round_ok_def)
    have pot: "(\<Sum>u\<leftarrow>?us. get_or (precision_stake ?b) 0 (?rid, u)) = precision_pot ?b ?rid" by (simp add: precision_pot_def)
    have "in_i128 (precision_pot ?b ?rid)" using range round_stake_mode(2)[OF ok Precision] by simp
    then obtain st' where st': "fold_res (count_prediction s ?rid) ?us ((no_pool r)\<lparr>pl_participants := length ?us\<rparr>) = Inr st'"
      "pl_precision_stake st' = precision_pot ?b ?rid"
      "pl_predictions st' = length (filter (\<lambda>u. u \<in> {u. b_predictions ?b (?rid, u) \<noteq> None}) ?us)"
      "pl_predictions st' + pl_commitments st' = length ?us" "pl_round_id st' = ?rid" "pl_participants st' = length ?us"
      using count_predictions[of ?us s ?rid "(no_pool r)\<lparr>pl_participants := length ?us\<rparr>"] mem precision_stake_nonneg[OF st] pot
      by (auto simp: no_pool_def)
    have "pl_predictions st' = card {u. b_predictions ?b (?rid, u) \<noteq> None}"
      unfolding st'(3) by (rule length_filter_card) (use mem ok in \<open>auto simp: precision_stake_def round_ok_def\<close>)
    then show ?thesis using Precision assms(3) st'(1,2,4-6)
      by (simp add: get_round_pool_stats_def round_pool_stats_def members_participants st'(3))
  qed
qed

lemma two_bets_wealth: "wealth two_bets = 2500"
proof -
  have "position_stake (s_book two_bets) = [(1, 5) \<mapsto> 300, (1, 6) \<mapsto> 200]" "precision_stake (s_book two_bets) = Map.empty"
    by (auto simp: position_stake_def precision_stake_def two_bets_book fun_eq_iff)
  then have "at_stake two_bets = 500" by (simp add: at_stake_def total_of_upd get_or_def)
  moreover have "k_balance (s_money two_bets) = [5 \<mapsto> 1000, 6 \<mapsto> 1000]" "k_treasury (s_money two_bets) = k_treasury (s_money empty_store)"
    "k_fund (s_money two_bets) = None"
    by (simp_all add: two_bets_def sample_store_def empty_store_def)
  then have "held two_bets = 2000"
    using two_bets_no_money by (simp add: held_def total_of_upd get_or_def) (simp add: empty_store_def treasury_value_def)
  ultimately show ?thesis by (simp add: wealth_def)
qed

theorem pool_stats_exact_witness:
  "\<exists>st. get_round_pool_stats two_bets = Inr (Some st) \<and> pl_up_stake st = 300 \<and> pl_down_stake st = 200 \<and>
     int (pl_up_ratio st) = 6000"
proof -
  have pools: "side_pool (s_book two_bets) 1 Up = 300" "side_pool (s_book two_bets) 1 Down = 200"
    by (simp_all add: side_pool_def side_stake_def two_bets_book del: One_nat_def)
  have "wealth two_bets * BPS_DENOMINATOR < 2 ^ 127" by (simp add: two_bets_wealth protocol_constants)
  from pool_stats_exact[OF two_bets_ok this two_bets_book(1)] show ?thesis
    using pools by (auto simp: two_bets_book protocol_constants simp del: One_nat_def)
qed

end
