(* ===== verification/Stake_Return.thy ===== *)
theory Stake_Return
  imports Query_Properties
begin

text \<open>
  When stakes can be returned.  The refund loops of \<open>cancel_round\<close>, \<open>void_round\<close> and the fallback of
  the settlement (\<open>contracts/src/settlement.rs\<close>) credit each participant through
  \<open>_accumulate_pending\<close>, which refuses beyond the cap on pending winnings.  In a reachable store that
  cap is the only thing that can stop them.
\<close>

section \<open>Refund loops\<close>

definition fits_cap :: "store \<Rightarrow> address \<Rightarrow> int \<Rightarrow> bool" where
  "fits_cap s u x \<longleftrightarrow> pred_option (\<lambda>cap. pending_of s u + x \<le> cap) (c_max_pending (s_config s))"

text \<open>A refund loop runs over states that hold the store and count what was refunded, where the code
  counts it.  One step credits the stake when it fits under the cap and is refused otherwise; nothing
  else can go wrong within the range of an i128.\<close>

locale stake_return =
  fixes step :: "address \<Rightarrow> 't \<Rightarrow> 't res"
    and held_by :: "'t \<Rightarrow> store"
    and counted :: "'t \<Rightarrow> int"
    and stake :: "book \<Rightarrow> address \<Rightarrow> int"
  assumes returns: "0 < stake (s_book (held_by t)) u \<Longrightarrow> in_i128 (pending_of (held_by t) u + stake (s_book (held_by t)) u) \<Longrightarrow>
      in_i128 (counted t + stake (s_book (held_by t)) u) \<Longrightarrow> fits_cap (held_by t) u (stake (s_book (held_by t)) u) \<Longrightarrow>
      \<exists>t'. step u t = Inr t' \<and> credited u (stake (s_book (held_by t)) u) (held_by t) (held_by t') \<and>
           counted t \<le> counted t' \<and> counted t' \<le> counted t + stake (s_book (held_by t)) u"
    and refuses: "0 < stake (s_book (held_by t)) u \<Longrightarrow> in_i128 (pending_of (held_by t) u + stake (s_book (held_by t)) u) \<Longrightarrow>
      in_i128 (counted t + stake (s_book (held_by t)) u) \<Longrightarrow> \<not> fits_cap (held_by t) u (stake (s_book (held_by t)) u) \<Longrightarrow>
      step u t = Inl (Fail PendingWinningsCapExceeded)"
begin

lemma loop_returns:
  assumes "distinct us" "0 \<le> counted t" "in_i128 (counted t + sum_list (map (stake (s_book (held_by t))) us))"
    and "\<forall>u\<in>set us. 0 < stake (s_book (held_by t)) u \<and> in_i128 (pending_of (held_by t) u + stake (s_book (held_by t)) u)"
  shows "if \<forall>u\<in>set us. fits_cap (held_by t) u (stake (s_book (held_by t)) u) then \<exists>t'. fold_res step us t = Inr t'
         else fold_res step us t = Inl (Fail PendingWinningsCapExceeded)"
  using assms
proof (induction us arbitrary: t)
  case (Cons u us)
  let ?b = "s_book (held_by t)"
  have pos: "0 \<le> sum_list (map (stake ?b) us)" using Cons.prems(4) by (intro sum_list_nonneg) (auto simp: less_imp_le)
  have u: "0 < stake ?b u" "in_i128 (pending_of (held_by t) u + stake ?b u)" using Cons.prems(4) by simp_all
  have range: "in_i128 (counted t + stake ?b u)"
    using in_i128_between[OF in_i128_0 Cons.prems(3), of "counted t + stake ?b u"] pos u(1) Cons.prems(2) by simp
  show ?case
  proof (cases "fits_cap (held_by t) u (stake ?b u)")
    case False
    then show ?thesis using refuses[OF u range] by simp
  next
    case True
    obtain t' where t': "step u t = Inr t'" "credited u (stake ?b u) (held_by t) (held_by t')" "counted t \<le> counted t'" "counted t' \<le> counted t + stake ?b u"
      using returns[OF u range True] by blast
    have same: "s_book (held_by t') = ?b" "s_config (held_by t') = s_config (held_by t)"
      "\<And>v. v \<noteq> u \<Longrightarrow> pending_of (held_by t') v = pending_of (held_by t) v"
      using t'(2) by (simp_all add: credited_def)
    have fit: "fits_cap (held_by t') v x = fits_cap (held_by t) v x" if "v \<noteq> u" for v x
      using same that by (simp add: fits_cap_def)
    have other: "v \<noteq> u" if "v \<in> set us" for v using Cons.prems(1) that by auto
    have "if \<forall>v\<in>set us. fits_cap (held_by t') v (stake ?b v) then \<exists>t''. fold_res step us t' = Inr t''
          else fold_res step us t' = Inl (Fail PendingWinningsCapExceeded)"
    proof -
      have "in_i128 (counted t' + sum_list (map (stake ?b) us))"
        using in_i128_between[OF in_i128_0 Cons.prems(3)] pos t'(3,4) Cons.prems(2) by simp
      then show ?thesis using Cons.IH[of t'] Cons.prems t'(3) other same by simp
    qed
    moreover have "(\<forall>v\<in>set us. fits_cap (held_by t') v (stake ?b v)) \<longleftrightarrow> (\<forall>v\<in>set us. fits_cap (held_by t) v (stake ?b v))"
      using fit other by blast
    ultimately show ?thesis using t'(1) True by simp
  qed
qed simp

end

text \<open>The stake a round of either mode holds for a participant.\<close>

definition mode_stake :: "round \<Rightarrow> book \<Rightarrow> address \<Rightarrow> int" where
  "mode_stake r b u =
     (case r_mode r of
        UpDown \<Rightarrow> get_or (position_stake b) 0 (r_id r, u)
      | Precision \<Rightarrow> get_or (precision_stake b) 0 (r_id r, u))"

lemma mode_stake_user: "round_ok b r \<Longrightarrow> mode_stake r b u = user_stake b (r_id r) u"
  using user_stake_mode[of b r u] by (cases "r_mode r") (simp_all add: mode_stake_def)

lemma accumulate_returns:
  assumes "in_i128 (pending_of s u + x)"
  shows "if fits_cap s u x then \<exists>s'. accumulate_pending e u x s = Inr s' \<and> credited u x s s'
         else accumulate_pending e u x s = Inl (Fail PendingWinningsCapExceeded)"
proof -
  have "if fits_cap s u x then \<exists>s'. accumulate_pending e u x s = Inr s'
        else accumulate_pending e u x s = Inl (Fail PendingWinningsCapExceeded)"
    using assms by (auto simp: accumulate_pending_def fits_cap_def payout_add_def checked_add_def split: option.split)
  then show ?thesis using accumulate_credited by (metis (full_types))
qed

lemma position_pos: "0 < get_or (position_stake b) 0 k \<Longrightarrow> \<exists>p. b_positions b k = Some p \<and> get_or (position_stake b) 0 k = pos_amount p"
  by (auto simp: position_stake_def get_or_def split: option.splits)

lemma refund_position_returns:
  assumes "b_positions (s_book s) (rid, u) = Some p" "in_i128 (pending_of s u + pos_amount p)"
  shows "if fits_cap s u (pos_amount p) then \<exists>s'. refund_position e rid m oc u s = Inr s' \<and> credited u (pos_amount p) s s'
         else refund_position e rid m oc u s = Inl (Fail PendingWinningsCapExceeded)"
  using accumulate_returns[OF assms(2), of e] assms(1) by (auto simp: refund_position_def credited_persist split: if_splits)

lemma refund_entry_returns:
  assumes "0 < x" "in_i128 (pending_of s u + x)"
  shows "if fits_cap s u x then \<exists>s'. refund_entry e rid price oc u x s = Inr s' \<and> credited u x s s'
         else refund_entry e rid price oc u x s = Inl (Fail PendingWinningsCapExceeded)"
  using accumulate_returns[OF assms(2), of e] assms(1) by (auto simp: refund_entry_def credited_persist split: if_splits)

definition fallback_step :: "env \<Rightarrow> round \<Rightarrow> address \<Rightarrow> store \<Rightarrow> store res" where
  "fallback_step e r u s =
     (case r_mode r of
        UpDown \<Rightarrow> refund_position e (r_id r) 0 Refund u s
      | Precision \<Rightarrow> refund_entry e (r_id r) 0 Refund u (precision_amount s (r_id r) u) s)"

interpretation fallback: stake_return "fallback_step e r" "\<lambda>s. s" "\<lambda>_. 0" "mode_stake r" for e r
proof unfold_locales
  fix s :: store and u
  let ?x = "mode_stake r (s_book s) u"
  assume a: "0 < ?x" "in_i128 (pending_of s u + ?x)"
  have run: "if fits_cap s u ?x then \<exists>s'. fallback_step e r u s = Inr s' \<and> credited u ?x s s'
        else fallback_step e r u s = Inl (Fail PendingWinningsCapExceeded)"
  proof (cases "r_mode r")
    case UpDown
    then obtain p where p: "b_positions (s_book s) (r_id r, u) = Some p" "?x = pos_amount p"
      using position_pos[of "s_book s" "(r_id r, u)"] a(1) by (auto simp: mode_stake_def)
    show ?thesis
      using refund_position_returns[OF p(1), of e 0 Refund] a(2) UpDown by (simp add: p(2) fallback_step_def)
  next
    case Precision
    then have "precision_amount s (r_id r) u = ?x" by (simp add: mode_stake_def precision_amount_stake)
    then show ?thesis using refund_entry_returns[OF a, of e "r_id r" 0 Refund] Precision by (simp add: fallback_step_def)
  qed
  then show "fits_cap s u ?x \<Longrightarrow> \<exists>s'. fallback_step e r u s = Inr s' \<and> credited u ?x s s' \<and> (0::int) \<le> 0 \<and> 0 \<le> 0 + ?x"
    "\<not> fits_cap s u ?x \<Longrightarrow> fallback_step e r u s = Inl (Fail PendingWinningsCapExceeded)"
    using a(1) by auto
qed

interpretation voiding: stake_return "void_refund e r" snd fst "mode_stake r" for e r
proof unfold_locales
  fix t :: "int \<times> store" and u
  obtain n s where t: "t = (n, s)" by (cases t)
  let ?x = "mode_stake r (s_book (snd t)) u"
  assume a: "0 < ?x" "in_i128 (pending_of (snd t) u + ?x)" "in_i128 (fst t + ?x)"
  have run: "if fits_cap s u ?x then \<exists>s'. void_refund e r u t = Inr (n + ?x, s') \<and> credited u ?x s s'
        else void_refund e r u t = Inl (Fail PendingWinningsCapExceeded)"
  proof (cases "r_mode r")
    case UpDown
    then obtain p where p: "b_positions (s_book s) (r_id r, u) = Some p" "?x = pos_amount p"
      using position_pos[of "s_book s" "(r_id r, u)"] a(1) by (auto simp: t mode_stake_def)
    show ?thesis
      using refund_position_returns[OF p(1), of e 0 Void] a(2,3) UpDown p
      by (auto simp: t void_refund_def payout_add_def checked_add_def split: if_splits)
  next
    case Precision
    then have x: "precision_amount s (r_id r) u = ?x" by (simp add: t mode_stake_def precision_amount_stake)
    obtain price where "price = (case b_predictions (s_book s) (r_id r, u) of Some p \<Rightarrow> pp_price p | None \<Rightarrow> 0)" by blast
    then show ?thesis
      using refund_entry_returns[OF a(1,2), of e "r_id r" price Void] a(1,3) Precision x
      by (auto simp: t void_refund_def payout_add_def checked_add_def Let_def split: if_splits)
  qed
  then show "fits_cap (snd t) u ?x \<Longrightarrow>
      \<exists>t'. void_refund e r u t = Inr t' \<and> credited u ?x (snd t) (snd t') \<and> fst t \<le> fst t' \<and> fst t' \<le> fst t + ?x"
    "\<not> fits_cap (snd t) u ?x \<Longrightarrow> void_refund e r u t = Inl (Fail PendingWinningsCapExceeded)"
    using a(1) t by auto
qed

interpretation cancelling: stake_return "cancel_refund e r" snd "\<lambda>t. snd (fst t)" "mode_stake r" for e r
proof unfold_locales
  fix t :: "(int list \<times> int) \<times> store" and u
  obtain xs n s where t: "t = ((xs, n), s)" by (metis prod.exhaust)
  let ?x = "mode_stake r (s_book (snd t)) u"
  assume a: "0 < ?x" "in_i128 (pending_of (snd t) u + ?x)" "in_i128 (snd (fst t) + ?x)"
  have run: "if fits_cap s u ?x then \<exists>s'. cancel_refund e r u t = Inr ((xs @ [?x], n + ?x), s') \<and> credited u ?x s s'
        else cancel_refund e r u t = Inl (Fail PendingWinningsCapExceeded)"
  proof (cases "r_mode r")
    case UpDown
    then obtain p where p: "b_positions (s_book s) (r_id r, u) = Some p" "?x = pos_amount p"
      using position_pos[of "s_book s" "(r_id r, u)"] a(1) by (auto simp: t mode_stake_def)
    show ?thesis
      using refund_position_returns[OF p(1), of e 0 Void] a(2,3) UpDown p
      by (auto simp: t cancel_refund_def checked_add_def split: if_splits)
  next
    case Precision
    then have x: "precision_amount s (r_id r) u = ?x" by (simp add: t mode_stake_def precision_amount_stake)
    show ?thesis
      using accumulate_returns[OF a(2), of e] a(1,3) Precision x
      by (auto simp: t cancel_refund_def checked_add_def credited_persist Let_def split: if_splits)
  qed
  then show "fits_cap (snd t) u ?x \<Longrightarrow> \<exists>t'. cancel_refund e r u t = Inr t' \<and> credited u ?x (snd t) (snd t') \<and>
      snd (fst t) \<le> snd (fst t') \<and> snd (fst t') \<le> snd (fst t) + ?x"
    "\<not> fits_cap (snd t) u ?x \<Longrightarrow> cancel_refund e r u t = Inl (Fail PendingWinningsCapExceeded)"
    using a(1) t by auto
qed

section \<open>Within range\<close>

lemma round_stake_at_stake:
  assumes "contract_ok s" "distinct (members (s_book s) rid)"
  shows "round_stake (s_book s) rid \<le> at_stake s"
proof -
  let ?b = "s_book s" and ?us = "members (s_book s) rid"
  note st = contract_okD(5)[OF assms(1)] and fin = stakes_finite[OF contract_okD(6)[OF assms(1)]]
  have part: "sum_list (map (\<lambda>u. get_or m 0 (rid, u)) ?us) \<le> total_of m"
    if f: "finite (dom m)" "\<And>k. 0 \<le> get_or m 0 k" for m :: "nat \<times> address \<rightharpoonup> int"
  proof -
    have "0 \<le> v" if "clear_keys rid ?us m k = Some v" for k v
      using that f(2)[of k] by (auto simp: clear_keys_def get_or_def split: if_splits)
    then have "0 \<le> total_of (clear_keys rid ?us m)" by (rule total_of_nonneg)
    then show ?thesis using total_of_clear[OF f(1) assms(2), of rid] by simp
  qed
  show ?thesis
    using part[OF fin(1) position_stake_nonneg[OF st]] part[OF fin(2) precision_stake_nonneg[OF st]]
    by (simp add: round_stake_def user_stake_def[abs_def] at_stake_def sum_list_addf)
qed

lemma member_stake_pos:
  assumes "contract_ok s" "round_ok (s_book s) r" "u \<in> set (members (s_book s) (r_id r))"
  shows "0 < user_stake (s_book s) (r_id r) u"
proof (cases "r_mode r")
  case UpDown
  then obtain p where "b_positions (s_book s) (r_id r, u) = Some p" using assms(2,3) by (auto simp: round_ok_def)
  then show ?thesis using contract_okD(5)[OF assms(1)] user_stake_mode(1)[OF assms(2) UpDown, of u]
    by (auto simp: stakes_ok_def position_stake_def get_or_def)
next
  case Precision
  then obtain x where x: "precision_stake (s_book s) (r_id r, u) = Some x" using assms(2,3) by (auto simp: round_ok_def)
  then have "0 < x" using contract_okD(5)[OF assms(1)] by (auto simp: precision_stake_def stakes_ok_def split: option.splits)
  then show ?thesis using user_stake_mode(2)[OF assms(2) Precision, of u] x by (simp add: get_or_def)
qed

lemma refunds_in_range:
  assumes "contract_ok s" "wealth s < 2 ^ 127" "round_ok (s_book s) r"
  shows "in_i128 (sum_list (map (mode_stake r (s_book s)) (members (s_book s) (r_id r))))"
    "\<forall>u\<in>set (members (s_book s) (r_id r)). 0 < mode_stake r (s_book s) u \<and> in_i128 (pending_of s u + mode_stake r (s_book s) u)"
proof -
  let ?us = "members (s_book s) (r_id r)"
  note m = contract_okD(1)[OF assms(1)]
  have sum: "sum_list (map (mode_stake r (s_book s)) ?us) = round_stake (s_book s) (r_id r)"
    by (simp add: round_stake_def mode_stake_user[OF assms(3), abs_def])
  have le: "round_stake (s_book s) (r_id r) \<le> at_stake s"
    by (rule round_stake_at_stake[OF assms(1)]) (use assms(3) in \<open>simp add: round_ok_def\<close>)
  have held: "0 \<le> held s" "pending_of s u \<le> held s" for u
  proof -
    have fin: "finite (dom (k_balance (s_money s)))" "finite (dom (k_pending (s_money s)))" using m by (simp_all add: money_ok_def)
    have "0 \<le> total_of (k_balance (s_money s))"
      using m by (auto intro!: total_of_nonneg simp: money_ok_def get_or_def split: option.splits)
    moreover have "pending_of s u \<le> total_of (k_pending (s_money s))" unfolding pending_of_def
      by (rule total_of_member[OF fin(2)]) (use pending_nonneg[OF m] in \<open>simp add: pending_of_def\<close>)
    ultimately show "pending_of s u \<le> held s" using m by (simp add: held_def money_ok_def)
  qed (rule parts_nonneg(1)[OF assms(1)])
  have pos: "0 < mode_stake r (s_book s) u" if "u \<in> set ?us" for u
    using member_stake_pos[OF assms(1,3) that] by (simp add: mode_stake_user[OF assms(3)])
  then have nonneg: "0 \<le> sum_list (map (mode_stake r (s_book s)) ?us)" by (intro sum_list_nonneg) (auto simp: less_imp_le)
  show "in_i128 (sum_list (map (mode_stake r (s_book s)) ?us))"
    using nonneg le held(1) assms(2) unfolding sum by (simp add: in_i128_def wealth_def)
  have one: "mode_stake r (s_book s) u \<le> sum_list (map (mode_stake r (s_book s)) ?us)" if "u \<in> set ?us" for u
    using that pos by (intro member_le_sum_list) (auto simp: less_imp_le)
  show "\<forall>u\<in>set ?us. 0 < mode_stake r (s_book s) u \<and> in_i128 (pending_of s u + mode_stake r (s_book s) u)"
  proof
    fix u assume u: "u \<in> set ?us"
    have "0 \<le> pending_of s u" by (rule pending_nonneg[OF m])
    then show "0 < mode_stake r (s_book s) u \<and> in_i128 (pending_of s u + mode_stake r (s_book s) u)"
      using pos[OF u] one[OF u] le held(2)[of u] assms(2) unfolding sum by (simp add: in_i128_def wealth_def)
  qed
qed

section \<open>The three ways out of a round\<close>

abbreviation all_fit :: "store \<Rightarrow> nat \<Rightarrow> bool" where
  "all_fit s rid \<equiv> \<forall>u\<in>set (members (s_book s) rid). fits_cap s u (user_stake (s_book s) rid u)"


text \<open>The two bets of the examples, with a cap below the larger stake.\<close>

definition capped_bets :: store where
  "capped_bets = two_bets\<lparr>s_config := (s_config two_bets)\<lparr>c_max_pending := Some 299\<rparr>\<rparr>"

lemma capped_bets_fields:
  "s_book capped_bets = s_book two_bets" "s_money capped_bets = s_money two_bets" "s_schema capped_bets = Some 3"
  "s_admin capped_bets = Some 1" "c_max_pending (s_config capped_bets) = Some 299"
  by (simp_all add: capped_bets_def two_bets_gates)

lemma capped_bets_ok: "contract_ok capped_bets" "wealth capped_bets < 2 ^ 127"
  using two_bets_ok two_bets_wealth
  by (simp_all add: contract_ok_def capped_bets_def config_ok_def Let_def wealth_def held_def at_stake_def)

lemma two_bets_fit: "all_fit two_bets 1" "\<not> all_fit capped_bets 1"
  by (simp_all add: fits_cap_def two_bets_book two_bets_config capped_bets_fields user_stake_def position_stake_def precision_stake_def
      pending_of_def two_bets_no_money get_or_def del: One_nat_def)


text \<open>C10 The same cap, and nothing else, stops the other two ways in which stakes go back.  A disputed
  round can be voided by anyone until its deadline, and a round below the minimum
  of participants is refunded by its settlement at every price, exactly if every participant's pending
  winnings and stake fit under the cap; otherwise both fail with \<open>PendingWinningsCapExceeded\<close>.\<close>

theorem refunds_stopped_by_cap_only:
  assumes ok: "contract_ok s" "wealth s < 2 ^ 127" and "require_supported_schema s = Inr v"
  shows "(\<forall>pd. b_disputes (s_book s) rid = Some pd \<longrightarrow> current_mode s \<noteq> FullyPaused \<longrightarrow> e_ledger e < pd_deadline pd \<longrightarrow>
            (if all_fit s rid then \<exists>s'. void_round e rid s = Inr s'
             else void_round e rid s = Inl (Fail PendingWinningsCapExceeded))) \<and>
         (\<forall>r least. b_active (s_book s) = Some r \<longrightarrow> c_min_participants (s_config s) = Some least \<longrightarrow>
            length (members (s_book s) (r_id r)) < least \<longrightarrow>
            (if all_fit s (r_id r) then \<exists>s'. settle_round_with_price e r fp c s = Inr s'
             else settle_round_with_price e r fp c s = Inl (Fail PendingWinningsCapExceeded)))"
proof (intro conjI allI impI)
  fix pd
  assume d: "b_disputes (s_book s) rid = Some pd" "current_mode s \<noteq> FullyPaused" "e_ledger e < pd_deadline pd"
  note r = disputes_okD(1,2)[OF contract_okD(2)[OF ok(1)] d(1)]
  have "if all_fit s rid then \<exists>t. fold_res (void_refund e (pd_round pd)) (members (s_book s) rid) (0, s) = Inr t
        else fold_res (void_refund e (pd_round pd)) (members (s_book s) rid) (0, s) = Inl (Fail PendingWinningsCapExceeded)"
    using voiding.loop_returns[of "members (s_book s) rid" "(0, s)" "pd_round pd" e] refunds_in_range[OF ok r(1)] r
    by (simp add: round_ok_def mode_stake_user[OF r(1)])
  moreover have "ensure_not_paused s = Inr ()"
    using d(2) by (cases "current_mode s") (simp_all add: ensure_not_paused_def policy_gate_def)
  ultimately show "if all_fit s rid then \<exists>s'. void_round e rid s = Inr s'
      else void_round e rid s = Inl (Fail PendingWinningsCapExceeded)"
    using d(1,3) assms(3) by (auto simp: void_round_def members_participants Let_def split: if_splits)
next
  fix r least
  assume a: "b_active (s_book s) = Some r" "c_min_participants (s_config s) = Some least" "length (members (s_book s) (r_id r)) < least"
  note r = active_okD(1)[OF contract_okD(2)[OF ok(1)] a(1)]
  let ?us = "members (s_book s) (r_id r)" and ?t = "archive_round e r FallbackRefund fp (members (s_book s) (r_id r)) 0 c s"
  have same: "pending_of ?t u = pending_of s u" "fits_cap ?t u x = fits_cap s u x" for u x by (simp_all add: pending_of_def fits_cap_def)
  have "if all_fit s (r_id r) then \<exists>t. fold_res (fallback_step e r) ?us ?t = Inr t
        else fold_res (fallback_step e r) ?us ?t = Inl (Fail PendingWinningsCapExceeded)"
    using fallback.loop_returns[where us = ?us and t = ?t and r = r and e = e] refunds_in_range[OF ok r] r
    by (simp add: round_ok_def mode_stake_user[OF r] same in_i128_def)
  moreover have "(case r_mode r of
          UpDown \<Rightarrow> fold_res (refund_position e (r_id r) 0 Refund) ?us ?t
        | Precision \<Rightarrow> fold_res (\<lambda>user t. refund_entry e (r_id r) 0 Refund user (precision_amount t (r_id r) user) t) ?us ?t) =
      fold_res (fallback_step e r) ?us ?t"
    by (cases "r_mode r") (simp_all add: fallback_step_def[abs_def])
  ultimately show "if all_fit s (r_id r) then \<exists>s'. settle_round_with_price e r fp c s = Inr s'
      else settle_round_with_price e r fp c s = Inl (Fail PendingWinningsCapExceeded)"
    using a(2,3) by (auto simp: settle_round_with_price_def refund_under_threshold_def members_participants Let_def split: if_splits)
qed

theorem refunds_stopped_by_cap_only_witness:
  "(\<exists>s'. void_round (sample_env 35 60 []) 1 (staged_bets None) = Inr s') \<and>
   settle_round_with_price (sample_env 30 60 []) two_bets_round 150 None
     (capped_bets\<lparr>s_config := (s_config capped_bets)\<lparr>c_min_participants := Some 3\<rparr>\<rparr>) = Inl (Fail PendingWinningsCapExceeded)"
proof
  let ?v = "staged_bets None" and ?s = "capped_bets\<lparr>s_config := (s_config capped_bets)\<lparr>c_min_participants := Some 3\<rparr>\<rparr>"
  have "position_stake (s_book ?v) = position_stake (s_book two_bets) \<and> precision_stake (s_book ?v) = precision_stake (s_book two_bets)"
    by (rule stake_maps_cong) (simp_all add: staged_bets_def)
  then have w: "wealth ?v = 2500" using two_bets_wealth by (simp add: wealth_def held_def at_stake_def) (simp add: staged_bets_def)
  have v: "contract_ok ?v" "wealth ?v < 2 ^ 127" "require_supported_schema ?v = Inr 3"
    using staged_bets_ok[of None] w by (simp_all add: require_supported_schema_def schema_version_def staged_fields CURRENT_SCHEMA_VERSION_def)
  have "all_fit ?v 1" using staged_fields(4) by (simp add: fits_cap_def two_bets_config)
  then show "\<exists>s'. void_round (sample_env 35 60 []) 1 ?v = Inr s'"
    using refunds_stopped_by_cap_only[OF v, of 1 "sample_env 35 60 []" 0 None]
    by (simp add: staged_fields current_mode_def sample_env_def del: One_nat_def)
  have s: "contract_ok ?s" "wealth ?s < 2 ^ 127" "require_supported_schema ?s = Inr 3"
    using capped_bets_ok
    by (simp_all add: contract_ok_def config_ok_def in_range_def wealth_def held_def at_stake_def require_supported_schema_def schema_version_def
        capped_bets_fields CURRENT_SCHEMA_VERSION_def config_bounds Let_def)
  have "\<not> all_fit ?s 1" using two_bets_fit(2) by (simp add: fits_cap_def pending_of_def)
  moreover have "b_active (s_book ?s) = Some two_bets_round" "length (members (s_book ?s) (r_id two_bets_round)) < 3"
    by (simp_all add: capped_bets_fields two_bets_book del: One_nat_def)
  ultimately show "settle_round_with_price (sample_env 30 60 []) two_bets_round 150 None ?s = Inl (Fail PendingWinningsCapExceeded)"
    using refunds_stopped_by_cap_only[OF s, of 1 "sample_env 30 60 []" 150 None] by (simp add: two_bets_book del: One_nat_def)
qed

end
