(* ===== verification/Preview.thy ===== *)
theory Preview
  imports Queries
begin

text \<open>
  \<open>simulate_payout\<close> of \<open>contracts/src/queries.rs\<close>, which tells what the active round would pay at
  a price, and the theorem that it does not drift from the settlement: whatever the settlement
  credits and collects, the preview announced.
\<close>

section \<open>The preview\<close>

record simulation =
  sm_mode :: round_mode
  sm_pool_up :: int
  sm_pool_down :: int
  sm_precision_stake :: int
  sm_fee :: int
  sm_fee_model :: nat
  sm_outcomes :: "user_round_outcome list"

text \<open>UpDown: the winning side and what it shares, then one outcome per position.\<close>

definition preview_sides ::
  "store \<Rightarrow> round \<Rightarrow> nat \<Rightarrow> (bet_side \<times> int \<times> int \<times> int \<times> int) res" where
  "preview_sides s r final_price =
     (let bps = c_fee_bps (s_config s); model = read_fee_model s;
          one_sided = (r_pool_up r = 0) \<noteq> (r_pool_down r = 0)
      in if final_price \<noteq> r_price_start r \<and> \<not> one_sided then
           (if final_price > r_price_start r then
              and_then (calculate_protocol_fee_updown bps model (r_pool_up r) (r_pool_down r)) (\<lambda>(dw, dl, fee).
              Inr (Up, r_pool_up r, dw, dl, fee))
            else
              and_then (calculate_protocol_fee_updown bps model (r_pool_down r) (r_pool_up r)) (\<lambda>(dw, dl, fee).
              Inr (Down, r_pool_down r, dw, dl, fee)))
         else Inr (Up, 0, 0, 0, 0))"

definition preview_position ::
  "store \<Rightarrow> nat \<Rightarrow> bool \<Rightarrow> bet_side \<Rightarrow> int \<Rightarrow> int \<Rightarrow> address \<Rightarrow> user_round_outcome list \<Rightarrow> user_round_outcome list res" where
  "preview_position s rid refund winning_side winning_pool distributable user outcomes =
     (case b_positions (s_book s) (rid, user) of
        None \<Rightarrow> Inr outcomes
      | Some p \<Rightarrow>
          and_then (if refund then Inr (pos_amount p, Refund)
                    else if pos_side p = winning_side then
                      and_then (payout_mul (pos_amount p) distributable) (\<lambda>m.
                      and_then (or_trap (checked_div m winning_pool)) (\<lambda>payout. Inr (payout, Win)))
                    else Inr (0, Loss)) (\<lambda>(payout, kind).
          Inr (outcomes @ [\<lparr>uo_user = user, uo_round_mode = 0, uo_prediction_side = side_code (pos_side p),
                             uo_predicted_price = 0, uo_stake = pos_amount p, uo_payout = payout, uo_outcome = kind\<rparr>])))"

definition preview_updown :: "store \<Rightarrow> round \<Rightarrow> nat \<Rightarrow> address list \<Rightarrow> (user_round_outcome list \<times> int) res" where
  "preview_updown s r final_price participants =
     (let refund = (final_price = r_price_start r \<or> (r_pool_up r = 0) \<noteq> (r_pool_down r = 0)) in
      and_then (preview_sides s r final_price) (\<lambda>(side, pool, dist_winning, dist_losing, fee).
      and_then (payout_add dist_winning dist_losing) (\<lambda>distributable.
      and_then (fold_res (preview_position s (r_id r) refund side pool distributable) participants []) (\<lambda>outcomes.
      Inr (outcomes, fee)))))"

text \<open>Precision: the scan of the settlement, except that an overflow of the pot has another error and
  that the vector of revealed flags is not kept; its split is the code of
  \<open>_calculate_precision_payouts\<close> again, so \<open>calculate_precision_payouts\<close> stands for it.\<close>

definition preview_scan :: "store \<Rightarrow> nat \<Rightarrow> nat \<Rightarrow> address \<Rightarrow> precision_scan \<Rightarrow> precision_scan res" where
  "preview_scan s rid final_price user sc =
     (let pred = b_predictions (s_book s) (rid, user);
          amount = precision_amount s rid user;
          idx = length (sc_mask sc)
      in and_then (ok_or (checked_add (sc_pot sc) amount) Overflow) (\<lambda>pot.
         let sc1 = sc\<lparr>sc_pot := pot, sc_amounts := sc_amounts sc @ [amount],
                      sc_prices := sc_prices sc @ [case pred of Some p \<Rightarrow> pp_price p | None \<Rightarrow> 0],
                      sc_mask := sc_mask sc @ [False]\<rparr>
         in case pred of
              None \<Rightarrow> Inr sc1
            | Some p \<Rightarrow>
                and_then (or_trap (if pp_price p \<ge> final_price then uchecked_sub (pp_price p) final_price
                                   else uchecked_sub final_price (pp_price p))) (\<lambda>diff.
                case sc_min_diff sc of
                  None \<Rightarrow>
                    Inr (sc1\<lparr>sc_min_diff := Some diff, sc_winners := sc_winners sc @ [p],
                             sc_mask := (sc_mask sc1)[idx := True]\<rparr>)
                | Some current_min \<Rightarrow>
                    if diff < current_min then
                      Inr (sc1\<lparr>sc_min_diff := Some diff, sc_winners := [p],
                               sc_mask := (replicate idx False @ drop idx (sc_mask sc1))[idx := True]\<rparr>)
                    else if diff = current_min then
                      Inr (sc1\<lparr>sc_winners := sc_winners sc @ [p], sc_mask := (sc_mask sc1)[idx := True]\<rparr>)
                    else Inr sc1)))"

definition winner_stakes_or_skip :: "precision_prediction list \<Rightarrow> int" where
  "winner_stakes_or_skip winners = fold (\<lambda>w acc. unwrap_or (checked_add acc (pp_amount w)) acc) winners 0"

text \<open>The outcomes in order of address; the winners' payouts are taken in their order.\<close>

definition preview_entry ::
  "precision_scan \<Rightarrow> int list \<Rightarrow> nat \<times> address \<Rightarrow> user_round_outcome list \<times> nat \<Rightarrow> user_round_outcome list \<times> nat" where
  "preview_entry sc payouts = (\<lambda>(i, user) (outcomes, winner_idx).
     let amount = (if i < length (sc_amounts sc) then sc_amounts sc ! i else 0);
         price = (if i < length (sc_prices sc) then sc_prices sc ! i else 0);
         wins = (if i < length (sc_mask sc) then sc_mask sc ! i else False);
         (payout, kind, winner_idx') =
           (if sc_winners sc = [] then (amount, Refund, winner_idx)
            else if wins then (if winner_idx < length payouts then payouts ! winner_idx else 0, Win, Suc winner_idx)
            else (0, Loss, winner_idx))
     in (outcomes @ [\<lparr>uo_user = user, uo_round_mode = 1, uo_prediction_side = 2, uo_predicted_price = price,
                       uo_stake = amount, uo_payout = payout, uo_outcome = kind\<rparr>], winner_idx'))"

definition preview_precision ::
  "store \<Rightarrow> round \<Rightarrow> nat \<Rightarrow> address list \<Rightarrow> (user_round_outcome list \<times> int \<times> int) res" where
  "preview_precision s r final_price participants =
     and_then (fold_res (preview_scan s (r_id r) final_price) participants empty_scan) (\<lambda>sc.
     let winners = sc_winners sc; total_pot = sc_pot sc in
     and_then (if winners \<noteq> [] \<and> total_pot > 0
               then calculate_protocol_fee_precision (c_fee_bps (s_config s)) (read_fee_model s) total_pot
                      (winner_stakes_or_skip winners)
               else Inr (0, 0)) (\<lambda>(payout_pool, fee).
     and_then (if winners \<noteq> []
               then calculate_precision_payouts (read_precision_payout_policy s) (map pp_amount winners) payout_pool
               else Inr []) (\<lambda>payouts.
     Inr (fst (fold (preview_entry sc payouts) (enumerate 0 participants) ([], 0)), fee, total_pot))))"

definition simulate_payout :: "nat \<Rightarrow> store \<Rightarrow> simulation res" where
  "simulate_payout final_price s =
     and_then (ok_or (b_active (s_book s)) NoActiveRound) (\<lambda>r.
     let participants = sort_addresses (participants_of s (r_id r));
         result = (\<lambda>outcomes fee stake.
           \<lparr>sm_mode = r_mode r, sm_pool_up = r_pool_up r, sm_pool_down = r_pool_down r, sm_precision_stake = stake,
            sm_fee = fee, sm_fee_model = fee_model_code (read_fee_model s), sm_outcomes = outcomes\<rparr>)
     in case r_mode r of
          UpDown \<Rightarrow> and_then (preview_updown s r final_price participants) (\<lambda>(outcomes, fee). Inr (result outcomes fee 0))
        | Precision \<Rightarrow>
            and_then (preview_precision s r final_price participants) (\<lambda>(outcomes, fee, pot).
            Inr (result outcomes fee pot)))"

section \<open>What the outcomes of a list of participants sum up to\<close>

definition previewed :: "user_round_outcome list \<Rightarrow> address \<Rightarrow> int" where
  "previewed outcomes v = sum_list (map uo_payout (filter (\<lambda>out. uo_user out = v) outcomes))"

lemma previewed_simps [simp]:
  "previewed [] v = 0"
  "previewed (outs @ [out]) v = previewed outs v + (if uo_user out = v then uo_payout out else 0)"
  by (simp_all add: previewed_def)

text \<open>A loop that gives every user its due adds up to the due of each, once.\<close>

lemma preview_loop:
  assumes step: "\<And>u outs. u \<in> set us \<Longrightarrow> \<exists>outs'. step u outs = Inr outs' \<and>
      (\<forall>v. previewed outs' v = previewed outs v + (if v = u then due u else 0))"
    and "distinct us"
  shows "\<exists>outs'. fold_res step us outs = Inr outs' \<and>
      (\<forall>v. previewed outs' v = previewed outs v + (if v \<in> set us then due v else (0::int)))"
  using assms
proof (induction us arbitrary: outs)
  case (Cons u us)
  obtain o1 where o1: "step u outs = Inr o1" "\<forall>v. previewed o1 v = previewed outs v + (if v = u then due u else 0)"
    using Cons.prems(1)[of u outs] by auto
  obtain o2 where o2: "fold_res step us o1 = Inr o2" "\<forall>v. previewed o2 v = previewed o1 v + (if v \<in> set us then due v else 0)"
    using Cons.IH[of o1] Cons.prems by auto
  show ?case using o1 o2 Cons.prems(2) by auto
qed simp

section \<open>UpDown: the preview follows the settlement\<close>

lemma updown_win_multiplies:
  assumes "fold_res (updown_step e rid side pool d) us s = Inr s'" "u \<in> set us"
    "b_positions (s_book s) (rid, u) = Some p" "pos_side p = side"
  shows "\<exists>x. compute_updown_winner_payout (pos_amount p) pool d = Inr x"
  using assms
proof (induction us arbitrary: s)
  case (Cons w us)
  then obtain t where t: "updown_step e rid side pool d w s = Inr t" "fold_res (updown_step e rid side pool d) us t = Inr s'"
    by (auto simp: and_then_Inr)
  have "s_book t = s_book s" using winning.step_frame[OF t(1)] by simp
  then show ?case
    using Cons.IH[OF t(2)] Cons.prems t(1) by (cases "u = w") (auto simp: updown_step_def and_then_Inr)
qed simp

lemma preview_position_refund:
  "\<exists>outs'. preview_position s rid True side pool d u outs = Inr outs' \<and>
     (\<forall>v. previewed outs' v = previewed outs v + (if v = u then get_or (position_stake (s_book s)) 0 (rid, u) else 0))"
  by (cases "b_positions (s_book s) (rid, u)") (auto simp: preview_position_def position_stake_def get_or_def)

lemma preview_position_pays:
  assumes "\<And>p. b_positions (s_book s) (rid, u) = Some p \<Longrightarrow> pos_side p = side \<Longrightarrow>
      \<exists>x. compute_updown_winner_payout (pos_amount p) pool d = Inr x"
    and "0 < pool" "0 \<le> d" "stakes_ok (s_book s)"
  shows "\<exists>outs'. preview_position s rid False side pool d u outs = Inr outs' \<and>
     (\<forall>v. previewed outs' v = previewed outs v + (if v = u then side_stake (s_book s) rid side u * d div pool else 0))"
proof (cases "b_positions (s_book s) (rid, u)")
  case None
  then show ?thesis by (simp add: preview_position_def side_stake_def)
next
  case (Some p)
  show ?thesis
  proof (cases "pos_side p = side")
    case True
    obtain x where x: "payout_mul (pos_amount p) d = Inr (pos_amount p * d)"
      "checked_div (pos_amount p * d) pool = Some (pos_amount p * d sdiv pool)"
      using assms(1)[OF Some True] assms(2)
      by (auto simp: compute_updown_winner_payout_def and_then_Inr payout_mul_Inr or_trap_Inr checked_div_Some)
    have "0 \<le> pos_amount p" using assms(4) Some by (auto simp: stakes_ok_def less_imp_le)
    then have "pos_amount p * d sdiv pool = pos_amount p * d div pool" using assms(2,3) by (simp add: sdiv_nonneg)
    then show ?thesis using True Some x by (auto simp: preview_position_def side_stake_def or_trap_def)
  qed (use Some in \<open>auto simp: preview_position_def side_stake_def\<close>)
qed

text \<open>A decided round: the winning pool \<open>W\<close>, what it shares after the fee, and that no winner's share
  overflows.\<close>

definition losing_pool_of :: "round \<Rightarrow> bet_side \<Rightarrow> int" where
  "losing_pool_of r side = (case side of Up \<Rightarrow> r_pool_down r | Down \<Rightarrow> r_pool_up r)"

lemma winner_direction:
  assumes "updown_winner r fp = Some side"
  shows "fp \<noteq> r_price_start r" "(r_pool_up r = 0) = (r_pool_down r = 0)" "side = (if fp > r_price_start r then Up else Down)"
    "pool_of r side + losing_pool_of r side = r_pool_up r + r_pool_down r"
  using assms by (auto simp: updown_winner_def is_one_sided_pool_def classify_price_direction_def pool_of_def losing_pool_of_def
      split: if_splits bet_side.split)

lemma decided_pool_pos:
  assumes "stakes_ok (s_book s)" and ok: "round_ok (s_book s) r" "r_mode r = UpDown"
    and "updown_winner r fp = Some side" "members (s_book s) (r_id r) \<noteq> []"
  shows "0 < pool_of r side" "0 \<le> losing_pool_of r side"
proof -
  let ?b = "s_book s" and ?rid = "r_id r"
  have pools: "0 \<le> r_pool_up r" "0 \<le> r_pool_down r" using ok side_pool_nonneg[OF assms(1)] by (auto simp: round_ok_def)
  then show "0 \<le> losing_pool_of r side" by (cases side) (simp_all add: losing_pool_of_def)
  obtain u where u: "u \<in> set (members ?b ?rid)" using assms(5) by (cases "members ?b ?rid") auto
  moreover from u obtain p where up: "b_positions ?b (?rid, u) = Some p" using ok by (auto simp: round_ok_def)
  moreover have "0 < user_stake ?b ?rid u"
    using assms(1) up user_stake_mode(1)[OF ok, of u] by (auto simp: stakes_ok_def position_stake_def get_or_def)
  moreover have "user_stake ?b ?rid u \<le> round_stake ?b ?rid" unfolding round_stake_def
    using u user_stake_nonneg[OF assms(1)] by (intro member_le_sum_list) auto
  ultimately have "0 < r_pool_up r + r_pool_down r" using round_stake_mode(1)[OF ok] by simp
  then show "0 < pool_of r side" using pools winner_direction(2)[OF assms(4)] by (cases side) (auto simp: pool_of_def)
qed

lemma updown_decided:
  assumes run: "resolve_updown_mode e r fp s = Inr ((one_sided, fee), s')"
    and m: "money_ok (s_money s)" "fee_ok s" "stakes_ok (s_book s)" and ok: "round_ok (s_book s) r" "r_mode r = UpDown"
    and side: "updown_winner r fp = Some side" and some: "members (s_book s) (r_id r) \<noteq> []"
  obtains dw dl d where
    "calculate_protocol_fee_updown (c_fee_bps (s_config s)) (read_fee_model s) (pool_of r side) (losing_pool_of r side) = Inr (dw, dl, fee)"
    "payout_add dw dl = Inr d" "d = r_pool_up r + r_pool_down r - fee" "0 \<le> d"
    "\<And>u p. u \<in> set (members (s_book s) (r_id r)) \<Longrightarrow> b_positions (s_book s) (r_id r, u) = Some p \<Longrightarrow> pos_side p = side \<Longrightarrow>
      \<exists>x. compute_updown_winner_payout (pos_amount p) (pool_of r side) d = Inr x"
proof -
  let ?b = "s_book s" and ?rid = "r_id r" and ?us = "sort_addresses (members (s_book s) (r_id r))"
  let ?W = "pool_of r side" and ?L = "losing_pool_of r side"
  note dir = winner_direction[OF side] and pos = decided_pool_pos[OF m(3) ok side some]
  from run have "record_winnings_indexed e ?rid ?us side ?W ?L s = Inr (fee, s')"
    using dir some side by (auto simp: resolve_updown_mode_def members_participants and_then_Inr Let_def losing_pool_of_def pool_of_def
      is_one_sided_pool_def classify_price_direction_def split: if_splits)
  then obtain dw dl s1 d where f: "apply_protocol_fee_updown ?rid ?W ?L s = Inr ((dw, dl, fee), s1)" "payout_add dw dl = Inr d"
    and loop: "fold_res (updown_step e ?rid side ?W d) ?us s1 = Inr s'"
    using pos by (auto simp: record_winnings_indexed_def and_then_Inr)
  have nn: "0 \<le> ?W" "0 \<le> ?L" using pos by auto
  have calc: "calculate_protocol_fee_updown (c_fee_bps (s_config s)) (read_fee_model s) ?W ?L = Inr (dw, dl, fee)"
    using f(1) by (auto simp: apply_protocol_fee_updown_def and_then_Inr Let_def)
  have split: "dw + dl + fee = ?W + ?L" "0 \<le> dw" "0 \<le> dl"
    using protocol_fee.fee_split[OF nn fee_ok_bps[OF m(2)] calc] by auto
  have b1: "s_book s1 = ?b" using apply_fee_updown_Inr[OF f(1) m(1,2) nn] by simp
  show thesis
  proof (rule that[OF calc f(2)])
    show "d = r_pool_up r + r_pool_down r - fee" "0 \<le> d" using f(2) split dir(4) by (auto simp: payout_add_Inr)
    fix u p assume "u \<in> set (members ?b ?rid)" "b_positions ?b (?rid, u) = Some p" "pos_side p = side"
    then show "\<exists>x. compute_updown_winner_payout (pos_amount p) ?W d = Inr x"
      using updown_win_multiplies[OF loop, of u p] b1 by simp
  qed
qed

lemma preview_sides_decided:
  assumes "updown_winner r fp = Some side"
  shows "preview_sides s r fp = and_then (calculate_protocol_fee_updown (c_fee_bps (s_config s)) (read_fee_model s)
            (pool_of r side) (losing_pool_of r side)) (\<lambda>(dw, dl, f). Inr (side, pool_of r side, dw, dl, f))"
  using winner_direction[OF assms] by (simp add: preview_sides_def losing_pool_of_def pool_of_def)

lemma updown_preview:
  assumes run: "resolve_updown_mode e r fp s = Inr ((one_sided, fee), s')"
    and m: "money_ok (s_money s)" "fee_ok s" "stakes_ok (s_book s)" and ok: "round_ok (s_book s) r" "r_mode r = UpDown"
  shows "\<exists>outs. preview_updown s r fp (sort_addresses (members (s_book s) (r_id r))) = Inr (outs, fee) \<and>
     (\<forall>v. previewed outs v = updown_due (s_book s) r fp (r_pool_up r + r_pool_down r - fee) v)"
proof -
  let ?b = "s_book s" and ?rid = "r_id r" and ?us = "sort_addresses (members (s_book s) (r_id r))"
  note a = resolve_updown_Inr[OF run m ok]
  have mem: "distinct ?us" "\<And>v. v \<notin> set (members ?b ?rid) \<Longrightarrow> b_positions ?b (?rid, v) = None"
    "r_pool_up r = side_pool ?b ?rid Up" "r_pool_down r = side_pool ?b ?rid Down"
    using ok by (auto simp: round_ok_def)
  have zero: "payout_add 0 0 = Inr 0" by (simp add: payout_add_def checked_add_def in_i128_def)
  show ?thesis
  proof (cases "updown_winner r fp")
    case None
    then have fee: "fee = 0" and refund: "fp = r_price_start r \<or> (r_pool_up r = 0) \<noteq> (r_pool_down r = 0)"
      using a(10) by (auto simp: updown_winner_def is_one_sided_pool_def classify_price_direction_def split: if_splits)
    let ?step = "preview_position s ?rid True Up 0 0"
    obtain outs where outs: "fold_res ?step ?us [] = Inr outs"
      "\<forall>v. previewed outs v = previewed [] v + (if v \<in> set ?us then get_or (position_stake ?b) 0 (?rid, v) else 0)"
      using preview_loop[where step = ?step and us = ?us and outs = "[]" and due = "\<lambda>v. get_or (position_stake ?b) 0 (?rid, v)",
        OF preview_position_refund mem(1)] by blast
    have "previewed outs v = get_or (position_stake ?b) 0 (?rid, v)" for v
      using outs(2) mem(2)[of v] by (auto simp: position_stake_def get_or_def)
    then show ?thesis using outs(1) refund fee zero None
      by (auto simp: preview_updown_def preview_sides_def updown_due_def Let_def)
  next
    case (Some side)
    note dir = winner_direction[OF Some] and sides = preview_sides_decided[OF Some]
    have due: "updown_due ?b r fp x v = side_stake ?b ?rid side v * x div pool_of r side" for x v by (simp add: updown_due_def Some)
    show ?thesis
    proof (cases "members ?b ?rid = []")
      case True
      then have z: "r_pool_up r = 0" "r_pool_down r = 0" using mem(3,4) by (simp_all add: side_pool_def)
      then have z': "pool_of r side = 0" "losing_pool_of r side = 0" by (cases side; simp add: pool_of_def losing_pool_of_def)+
      have "calculate_protocol_fee_updown (c_fee_bps (s_config s)) (read_fee_model s) 0 0 = Inr (0, 0, 0)"
        by (cases "c_fee_bps (s_config s)"; cases "read_fee_model s")
          (simp_all add: calculate_protocol_fee_updown_def zero checked_mul_def in_i128_def BPS_DENOMINATOR_def)
      moreover have "fee = 0" using a(5,6) z by simp
      ultimately show ?thesis
        using True dir z' zero by (auto simp: preview_updown_def sides due Let_def sort_addresses_def)
    next
      case False
      note pos = decided_pool_pos[OF m(3) ok Some False]
      obtain dw dl d where f: "calculate_protocol_fee_updown (c_fee_bps (s_config s)) (read_fee_model s) (pool_of r side) (losing_pool_of r side) = Inr (dw, dl, fee)"
        "payout_add dw dl = Inr d" "d = r_pool_up r + r_pool_down r - fee" "0 \<le> d"
        and pays: "\<And>u p. u \<in> set (members ?b ?rid) \<Longrightarrow> b_positions ?b (?rid, u) = Some p \<Longrightarrow> pos_side p = side \<Longrightarrow>
          \<exists>x. compute_updown_winner_payout (pos_amount p) (pool_of r side) d = Inr x"
        using updown_decided[OF run m ok Some False] by metis
      have step: "\<exists>outs'. preview_position s ?rid False side (pool_of r side) d u outs = Inr outs' \<and>
          (\<forall>v. previewed outs' v = previewed outs v + (if v = u then side_stake ?b ?rid side u * d div pool_of r side else 0))"
        if "u \<in> set ?us" for u outs
        by (rule preview_position_pays) (use pays[of u] that pos(1) f(4) m(3) in auto)
      obtain outs where outs: "fold_res (preview_position s ?rid False side (pool_of r side) d) ?us [] = Inr outs"
        "\<forall>v. previewed outs v = previewed [] v + (if v \<in> set ?us then side_stake ?b ?rid side v * d div pool_of r side else 0)"
        using preview_loop[OF step mem(1)] by blast
      have "previewed outs v = side_stake ?b ?rid side v * d div pool_of r side" for v
        using outs(2) mem(2)[of v] by (auto simp: side_stake_def)
      then show ?thesis using outs(1) f(1,2) dir f(3)
        by (auto simp: preview_updown_def sides due Let_def)
    qed
  qed
qed

section \<open>Precision: the preview follows the settlement\<close>

lemma preview_scan_step:
  assumes "scan_step s rid fp u sc = Inr t"
  shows "preview_scan s rid fp u (sc\<lparr>sc_revealed := z\<rparr>) = Inr (t\<lparr>sc_revealed := z\<rparr>)"
proof (cases "b_predictions (s_book s) (rid, u)")
  case None
  with assms show ?thesis
    by (auto simp: scan_step_def preview_scan_def and_then_Inr payout_add_Inr checked_add_def Let_def)
next
  case (Some p)
  have diff: "ok_or (if pp_price p \<ge> fp then uchecked_sub (pp_price p) fp else uchecked_sub fp (pp_price p)) Overflow = Inr (distance fp p)"
    "or_trap (if pp_price p \<ge> fp then uchecked_sub (pp_price p) fp else uchecked_sub fp (pp_price p)) = Inr (distance fp p)"
    by (simp_all add: uchecked_sub_def distance_def abs_diff_def or_trap_def)
  have pot: "in_i128 (sc_pot sc + precision_amount s rid u)"
    using assms by (auto simp: scan_step_def and_then_Inr payout_add_Inr Let_def)
  show ?thesis
    using assms unfolding scan_step_def preview_scan_def Let_def Some option.case diff
    by (cases "sc_min_diff sc") (simp_all add: payout_add_def checked_add_def pot diff split: if_splits, auto)
qed

lemma preview_scan_follows:
  "fold_res (scan_step s rid fp) us sc = Inr t \<Longrightarrow>
   fold_res (preview_scan s rid fp) us (sc\<lparr>sc_revealed := z\<rparr>) = Inr (t\<lparr>sc_revealed := z\<rparr>)"
proof (induction us arbitrary: sc)
  case (Cons u us)
  then obtain sc1 where "scan_step s rid fp u sc = Inr sc1" "fold_res (scan_step s rid fp) us sc1 = Inr t"
    by (auto simp: and_then_Inr)
  then show ?case using Cons.IH preview_scan_step by simp
qed simp

lemma winner_stakes_follow: "sum_stakes (map pp_amount ws) acc = Inr x \<Longrightarrow>
  fold (\<lambda>w a. unwrap_or (checked_add a (pp_amount w)) a) ws acc = x"
  by (induction ws arbitrary: acc) (auto simp: and_then_Inr payout_add_Inr checked_add_def)

text \<open>The outcome loop hands the payouts to the marked users in order.\<close>

lemma preview_entries_pay:
  assumes "sc_winners sc \<noteq> []" "\<forall>i<length us. n + i < length (sc_mask sc) \<and> sc_mask sc ! (n + i) = near (us ! i)"
    "j + length (filter near us) \<le> length ps"
  shows "previewed (fst (fold (preview_entry sc ps) (enumerate n us) (outs, j))) v
       = previewed outs v + sum_list (map snd (filter (\<lambda>(u, x). u = v) (zip (filter near us) (drop j ps))))"
  using assms(2,3)
proof (induction us arbitrary: n j outs)
  case (Cons u us)
  have n: "n < length (sc_mask sc)" "sc_mask sc ! n = near u" using Cons.prems(1) by force+
  have rest: "\<forall>i<length us. Suc n + i < length (sc_mask sc) \<and> sc_mask sc ! (Suc n + i) = near (us ! i)"
    using Cons.prems(1) by (metis Suc_less_eq add_Suc_right add_Suc_shift length_Cons nth_Cons_Suc)
  show ?case
  proof (cases "near u")
    case True
    then have j: "j < length ps" "drop j ps = ps ! j # drop (Suc j) ps"
      using Cons.prems(2) by (simp_all add: Cons_nth_drop_Suc)
    have "Suc j + length (filter near us) \<le> length ps" using Cons.prems(2) True by simp
    from Cons.IH[OF rest this] show ?thesis
      using True n j assms(1) by (simp add: preview_entry_def Let_def)
  next
    case False
    then have "j + length (filter near us) \<le> length ps" using Cons.prems(2) by simp
    from Cons.IH[OF rest this] show ?thesis using False n assms(1) by (simp add: preview_entry_def Let_def)
  qed
qed simp

lemma preview_entries_refund:
  assumes "sc_winners sc = []" "\<forall>i<length us. n + i < length (sc_amounts sc) \<and> sc_amounts sc ! (n + i) = amt (us ! i)" "distinct us"
  shows "previewed (fst (fold (preview_entry sc ps) (enumerate n us) (outs, j))) v
       = previewed outs v + (if v \<in> set us then amt v else 0)"
  using assms(2,3)
proof (induction us arbitrary: n outs)
  case (Cons u us)
  have n: "n < length (sc_amounts sc)" "sc_amounts sc ! n = amt u" using Cons.prems(1) by force+
  have rest: "\<forall>i<length us. Suc n + i < length (sc_amounts sc) \<and> sc_amounts sc ! (Suc n + i) = amt (us ! i)"
    using Cons.prems(1) by (metis Suc_less_eq add_Suc_right add_Suc_shift length_Cons nth_Cons_Suc)
  show ?case using Cons.IH[OF rest] n assms(1) Cons.prems(2) by (auto simp: preview_entry_def Let_def)
qed simp

text \<open>The winners are the marked users.\<close>

lemma nearest_users:
  assumes "\<forall>u p. b_predictions b (rid, u) = Some p \<longrightarrow> pp_user p = u"
  shows "map pp_user (nearest fp (revealed_in b rid us)) = filter (is_nearest b rid fp (least_distance fp (revealed_in b rid us))) us"
proof -
  have "map pp_user (filter (\<lambda>p. Some (distance fp p) = m) (revealed_in b rid vs)) = filter (is_nearest b rid fp m) vs" for m vs
    using assms by (induction vs) (auto simp: revealed_in_def List.map_filter_def is_nearest_def split: option.splits)
  then show ?thesis by (simp add: nearest_def)
qed

lemma zip_users: "map snd (filter (\<lambda>(w, x). pp_user w = v) (zip ws ps)) = map snd (filter (\<lambda>(u, x). u = v) (zip (map pp_user ws) ps))"
  by (induction ws arbitrary: ps) (auto simp: zip_Cons1 split: list.split)

lemma precision_preview:
  assumes run: "resolve_precision_mode e (r_id r) fp False s = Inr ((fee, pot), s')"
    and m: "money_ok (s_money s)" "fee_ok s" "stakes_ok (s_book s)" and ok: "round_ok (s_book s) r" "r_mode r = Precision"
    and due: "precision_due (read_precision_payout_policy s) (s_book s) (r_id r) fp fee due"
  shows "\<exists>outs. preview_precision s r fp (sort_addresses (members (s_book s) (r_id r))) = Inr (outs, fee, pot) \<and>
     (\<forall>v. previewed outs v = due v)"
proof -
  let ?b = "s_book s" and ?rid = "r_id r" and ?us = "sort_addresses (members (s_book s) (r_id r))"
  let ?ws = "nearest fp (round_entries ?b ?rid)" and ?policy = "read_precision_payout_policy s"
  let ?near = "is_nearest ?b ?rid fp (least_distance fp (round_entries ?b ?rid))"
  note a = resolve_precision_Inr[OF run m ok refl]
  have mem: "distinct ?us" "\<And>v. v \<in> set (members ?b ?rid) \<longleftrightarrow> precision_stake ?b (?rid, v) \<noteq> None"
    using ok by (auto simp: round_ok_def)
  have users: "\<forall>u p. b_predictions ?b (?rid, u) = Some p \<longrightarrow> pp_user p = u" using m(3) by (auto simp: stakes_ok_def)
  have re: "round_entries ?b ?rid = revealed_in ?b ?rid ?us" by (simp add: round_entries_def)
  show ?thesis
  proof (cases "?us = []")
    case True
    then have e: "?ws = []" unfolding re by (simp only: revealed_in_def List.map_filter_simps nearest_simps)
    have "get_or (precision_stake ?b) 0 (?rid, v) = 0" for v using mem(2)[of v] True by (simp add: get_or_def)
    then have "due v = 0" for v using due e by (simp add: precision_due_def)
    moreover have "fee = 0" "pot = 0" using run True by (auto simp: resolve_precision_mode_def members_participants)
    ultimately show ?thesis using True by (simp add: preview_precision_def empty_scan_def sort_addresses_def Let_def)
  next
    case False
    obtain sc where scan: "fold_res (scan_step s ?rid fp) ?us empty_scan = Inr sc"
      using run False by (auto simp: resolve_precision_mode_def members_participants Let_def and_then_Inr)
    note sc = scan_result[OF scan, folded re]
    let ?sc = "sc\<lparr>sc_revealed := []\<rparr>"
    have "empty_scan\<lparr>sc_revealed := []\<rparr> = empty_scan" by (simp add: empty_scan_def)
    then have pscan: "fold_res (preview_scan s ?rid fp) ?us empty_scan = Inr ?sc"
      using preview_scan_follows[OF scan, of "[]"] by simp
    have pot: "sc_pot sc = pot"
      using sc a(6) by (simp add: precision_pot_def sum_sort_addresses precision_amount_stake[abs_def])
    have pot0: "0 < pot"
    proof -
      obtain u where u: "u \<in> set (members ?b ?rid)" using False by (cases "members ?b ?rid") auto
      then obtain x where "precision_stake ?b (?rid, u) = Some x" using mem(2)[of u] by auto
      moreover from this have "0 < x" using m(3) by (auto simp: precision_stake_def stakes_ok_def split: option.splits)
      ultimately have "0 < get_or (precision_stake ?b) 0 (?rid, u)" by (simp add: get_or_def)
      also have "\<dots> \<le> precision_pot ?b ?rid" unfolding precision_pot_def
        using u precision_stake_nonneg[OF m(3)] by (intro member_le_sum_list) auto
      finally show ?thesis using a(6) by simp
    qed
    show ?thesis
    proof (cases "?ws = []")
      case True
      then have fee: "fee = 0" "due = (\<lambda>u. get_or (precision_stake ?b) 0 (?rid, u))" using due by (simp_all add: precision_due_def)
      have w: "sc_winners ?sc = []" using sc True by simp
      have amounts: "\<forall>i<length ?us. 0 + i < length (sc_amounts ?sc) \<and> sc_amounts ?sc ! (0 + i) = precision_amount s ?rid (?us ! i)"
        using sc by simp
      have "previewed (fst (fold (preview_entry ?sc []) (enumerate 0 ?us) ([], 0))) v = due v" for v
        using preview_entries_refund[OF w amounts mem(1), where ps = "[]" and outs = "[]" and j = 0 and v = v] mem(2)[of v] fee(2)
        by (auto simp: precision_amount_stake get_or_def)
      then show ?thesis using pscan w pot fee(1) by (simp add: preview_precision_def)
    next
      case ws: False
      obtain x pool s1 where split: "sum_stakes (map pp_amount ?ws) 0 = Inr x"
        "apply_protocol_fee_precision ?rid pot x s = Inr ((pool, fee), s1)"
        using run False scan ws sc pot pot0
        by (auto simp: resolve_precision_mode_def members_participants Let_def and_then_Inr split: prod.splits)
      have calc: "calculate_protocol_fee_precision (c_fee_bps (s_config s)) (read_fee_model s) pot x = Inr (pool, fee)"
        using split(2) by (auto simp: apply_protocol_fee_precision_def and_then_Inr Let_def)
      have "\<forall>y\<in>set (map pp_amount ?ws). 0 \<le> y"
        using m(3) set_revealed_in[of ?b ?rid ?us] by (auto simp: nearest_def re stakes_ok_def less_imp_le)
      then have "0 \<le> sum_list (map pp_amount ?ws)" by (intro sum_list_nonneg) blast
      then have "0 \<le> x" using sum_stakes_Inr[OF split(1)] by simp
      then have pool: "pool = pot - fee"
        using calculate_precision_split[OF calc fee_ok_bps[OF m(2)] less_imp_le[OF pot0]] by simp
      obtain ps where ps: "calculate_precision_payouts ?policy (map pp_amount ?ws) pool = Inr ps" "length ps = length ?ws"
        "due = (\<lambda>u. sum_list (map snd (filter (\<lambda>(w, x). pp_user w = u) (zip ?ws ps))))"
        using due ws a(6) pool by (auto simp: precision_due_def Let_def)
      have w: "sc_winners ?sc = ?ws" "sc_winners ?sc \<noteq> []" using sc ws by simp_all
      have mask: "\<forall>i<length ?us. 0 + i < length (sc_mask ?sc) \<and> sc_mask ?sc ! (0 + i) = ?near (?us ! i)" using sc by simp
      have near: "map pp_user ?ws = filter ?near ?us" using nearest_users[OF users] by (simp add: re)
      have len: "0 + length (filter ?near ?us) \<le> length ps" using ps(2) arg_cong[OF near, of length] by simp
      have "previewed (fst (fold (preview_entry ?sc ps) (enumerate 0 ?us) ([], 0))) v = due v" for v
        using preview_entries_pay[OF w(2) mask len, where outs = "[]" and v = v] ps(3) zip_users[of v ?ws ps] near by simp
      moreover have "winner_stakes_or_skip ?ws = x"
        using winner_stakes_follow[OF split(1)] by (simp add: winner_stakes_or_skip_def)
      ultimately show ?thesis using pscan w pot pot0 calc ps(1) by (simp add: preview_precision_def)
    qed
  qed
qed

section \<open>Properties\<close>

text \<open>C3 The preview never drifts from the settlement.  Whenever the active round can be settled at a
  price, \<open>simulate_payout\<close> at that price succeeds on the same store, announces exactly the fee that
  is then collected, and its outcomes add up, for every user, to exactly the pending winnings the
  settlement credits; this holds for both modes, both fee models and both payout policies.\<close>

theorem preview_matches_settlement:
  assumes "complete_settlement e r fp c s = Inr ((fee, n), s')" "contract_ok s" "b_active (s_book s) = Some r"
  shows "\<exists>sim. simulate_payout fp s = Inr sim \<and> sm_fee sim = fee \<and> protocol_funds s' = protocol_funds s + sm_fee sim \<and>
           (\<forall>v. pending_of s' v = pending_of s v + previewed (sm_outcomes sim) v)"
proof -
  note ok = active_okD(1)[OF contract_okD(2)[OF assms(2)] assms(3)] and k = contract_okD(1,4,5)[OF assms(2)]
  note a = complete_settlement_Inr[OF assms(1) k ok]
  obtain due where due: "settlement_due (read_precision_payout_policy s) (s_book s) r fp fee due"
    "\<forall>v. pending_of s' v = pending_of s v + due v" using a(8) by blast
  show ?thesis
  proof (cases "r_mode r")
    case UpDown
    then obtain one_sided t where "resolve_updown_mode e r fp s = Inr ((one_sided, fee), t)"
      using assms(1) by (auto simp: complete_settlement_def and_then_Inr Let_def)
    from updown_preview[OF this k ok UpDown] due UpDown show ?thesis
      using assms(3) a(7) by (auto simp: simulate_payout_def members_participants settlement_due_def Let_def)
  next
    case Precision
    then obtain pot t where run: "resolve_precision_mode e (r_id r) fp False s = Inr ((fee, pot), t)"
      using assms(1) by (auto simp: complete_settlement_def and_then_Inr Let_def)
    have "precision_due (read_precision_payout_policy s) (s_book s) (r_id r) fp fee due"
      using due(1) Precision by (simp add: settlement_due_def)
    from precision_preview[OF run k ok Precision this] due Precision show ?thesis
      using assms(3) a(7) by (auto simp: simulate_payout_def members_participants Let_def)
  qed
qed

theorem preview_matches_settlement_witness:
  "\<exists>s' sim. complete_settlement (sample_env 30 60 []) two_bets_round 150 None two_bets = Inr ((0, 2), s') \<and>
     simulate_payout 150 two_bets = Inr sim \<and> sm_fee sim = 0 \<and>
     pending_of s' 5 = pending_of two_bets 5 + previewed (sm_outcomes sim) 5"
proof -
  obtain s' where run: "complete_settlement (sample_env 30 60 []) two_bets_round 150 None two_bets = Inr ((0, 2), s')"
    using settlement_runs_two_bets by blast
  from preview_matches_settlement[OF run two_bets_ok two_bets_book(1)] run show ?thesis by blast
qed

end
