(* ===== verification/Replay.thy ===== *)
theory Replay
  imports Preview
begin

text \<open>
  The replay engine (\<open>replay-engine/src\<close>): transcripts of rounds and their validation
  (\<open>transcript.rs\<close>), the recomputation of the outcome (\<open>engine.rs\<close>) and its comparison with the
  recorded one (\<open>diagnostics.rs\<close>).  The engine compiles the contract's \<open>settlement_math.rs\<close>, so it
  runs on the definitions of theory \<open>Settlement_Math\<close>.  Not modelled: JSON, the SHA-256
  commitment over it, the display of errors, and the command line.
\<close>

section \<open>Transcripts\<close>

definition TRANSCRIPT_SCHEMA_VERSION :: nat where "TRANSCRIPT_SCHEMA_VERSION = 1"

datatype transcript_mode = TUpDown | TPrecision

datatype terminal_action = TResolve | TCancel | TVoid | TFallbackRefund

datatype replay_status = RResolved | RCancelled | RFallbackRefund | RVoided

datatype outcome_kind = OWin | OLoss | ORefund | OVoid

record oracle_transcript =
  ot_price :: nat
  ot_timestamp :: nat
  ot_round_id :: nat
  ot_nonce :: nat
  ot_confidence :: "nat option"

record commit_reveal =
  cr_commit_hash_hex :: "string option"
  cr_revealed :: bool
  cr_predicted_price :: nat

record transcript_participant =
  tp_index :: nat
  tp_address :: "string option"
  tp_amount :: int
  tp_side_up :: "bool option"
  tp_commit_reveal :: commit_reveal

record expected_payout =
  ep_index :: nat
  ep_payout :: int
  ep_outcome :: outcome_kind

record expected_outcome =
  eo_archive_status :: replay_status
  eo_total_fee :: int
  eo_payouts :: "expected_payout list"

record round_transcript =
  tr_schema_version :: nat
  tr_round_id :: nat
  tr_mode :: transcript_mode
  tr_terminal :: terminal_action
  tr_price_start :: nat
  tr_final_price :: nat
  tr_pool_up :: int
  tr_pool_down :: int
  tr_fee_bps :: "nat option"
  tr_min_participants :: "nat option"
  tr_participant_count :: nat
  tr_oracle :: oracle_transcript
  tr_participants :: "transcript_participant list"
  tr_expected :: expected_outcome

datatype transcript_error =
    UnsupportedSchema nat
  | EmptyParticipants
  | ParticipantOrder nat nat
  | ParticipantCountMismatch nat nat

fun check_order :: "nat \<Rightarrow> transcript_participant list \<Rightarrow> (transcript_error, unit) result" where
  "check_order i [] = Inr ()"
| "check_order i (p # ps) =
     (if tp_index p \<noteq> i then Inl (Fail (ParticipantOrder i (tp_index p))) else check_order (Suc i) ps)"

definition validate_schema :: "round_transcript \<Rightarrow> (transcript_error, unit) result" where
  "validate_schema t =
     (if tr_schema_version t \<noteq> TRANSCRIPT_SCHEMA_VERSION then Inl (Fail (UnsupportedSchema (tr_schema_version t)))
      else if tr_participants t = [] then Inl (Fail EmptyParticipants)
      else
        and_then (check_order 0 (tr_participants t)) (\<lambda>_.
        if tr_participant_count t \<noteq> length (tr_participants t)
        then Inl (Fail (ParticipantCountMismatch (tr_participant_count t) (length (tr_participants t) mod 2 ^ 32)))
        else Inr ()))"

definition canonicalize_participants :: "round_transcript \<Rightarrow> round_transcript" where
  "canonicalize_participants t =
     (let ps = sort_key tp_index (tr_participants t)
      in t\<lparr>tr_participants := ps, tr_participant_count := length ps mod 2 ^ 32\<rparr>)"

section \<open>The engine\<close>

record replay_payout =
  rp_index :: nat
  rp_payout :: int
  rp_outcome :: outcome_kind

record replay_result =
  rr_archive_status :: replay_status
  rr_total_fee :: int
  rr_payouts :: "replay_payout list"

datatype replay_error =
    Transcript transcript_error
  | Settlement contract_error
  | OracleRoundMismatch nat nat

type_synonym 'a replayed = "(replay_error, 'a) result"

text \<open>The two \<open>From\<close> conversions behind the question marks.\<close>

fun lift_error :: "('e \<Rightarrow> 'f) \<Rightarrow> ('e, 'a) result \<Rightarrow> ('f, 'a) result" where
  "lift_error f (Inl (Fail e)) = Inl (Fail (f e))"
| "lift_error f (Inl Trap) = Inl Trap"
| "lift_error f (Inr x) = Inr x"

definition replay_full_refund :: "round_transcript \<Rightarrow> replay_status \<Rightarrow> outcome_kind \<Rightarrow> replay_result replayed" where
  "replay_full_refund t status outcome =
     Inr \<lparr>rr_archive_status = status, rr_total_fee = 0,
          rr_payouts = map (\<lambda>p. \<lparr>rp_index = tp_index p, rp_payout = tp_amount p, rp_outcome = outcome\<rparr>) (tr_participants t)\<rparr>"

definition outcome_of :: "bool \<Rightarrow> bool \<Rightarrow> outcome_kind" where
  "outcome_of is_refund is_winner = (if is_refund then ORefund else if is_winner then OWin else OLoss)"

definition updown_row :: "transcript_participant \<Rightarrow> updown_position" where
  "updown_row p = \<lparr>up_index = tp_index p, up_amount = tp_amount p, up_side_up = unwrap_or (tp_side_up p) True\<rparr>"

definition replay_updown :: "round_transcript \<Rightarrow> replay_result replayed" where
  "replay_updown t =
     and_then (lift_error Settlement (compute_updown_payouts (map updown_row (tr_participants t))
                 (tr_price_start t) (tr_final_price t) (tr_pool_up t) (tr_pool_down t) (tr_fee_bps t))) (\<lambda>entries.
     let all_refund = list_all ux_is_refund entries;
         total_fee = (if all_refund then 0
                      else case compute_updown_fee (max (tr_pool_up t) 0) (max (tr_pool_down t) 0) (tr_fee_bps t) of
                             Inr (_, _, fee_amount) \<Rightarrow> fee_amount
                           | Inl _ \<Rightarrow> 0)
     in Inr \<lparr>rr_archive_status = RResolved, rr_total_fee = total_fee,
             rr_payouts = map (\<lambda>x. \<lparr>rp_index = ux_index x, rp_payout = ux_payout x,
                                    rp_outcome = outcome_of (ux_is_refund x) (ux_is_winner x)\<rparr>) entries\<rparr>)"

definition precision_row :: "transcript_participant \<Rightarrow> precision_entry" where
  "precision_row p = \<lparr>pe_index = tp_index p, pe_price = cr_predicted_price (tp_commit_reveal p), pe_amount = tp_amount p,
                      pe_revealed = cr_revealed (tp_commit_reveal p)\<rparr>"

text \<open>The sum of the stakes panics on overflow, the workspace builds with overflow checks.\<close>

definition replay_precision :: "round_transcript \<Rightarrow> replay_result replayed" where
  "replay_precision t =
     (let entries = map precision_row (tr_participants t) in
      and_then (fold_res (\<lambda>x pot. or_trap (checked_add pot (pe_amount x))) entries 0) (\<lambda>total_pot.
      let fee_amount = (case compute_precision_fee total_pot (tr_fee_bps t) of Inr (_, fee) \<Rightarrow> fee | Inl _ \<Rightarrow> 0) in
      and_then (lift_error Settlement (compute_precision_payouts entries (tr_final_price t) (tr_fee_bps t))) (\<lambda>math.
      let all_refund = list_all px_is_refund math
      in Inr \<lparr>rr_archive_status = RResolved, rr_total_fee = (if all_refund then 0 else fee_amount),
              rr_payouts = map (\<lambda>x. \<lparr>rp_index = px_index x, rp_payout = px_payout x,
                                     rp_outcome = outcome_of (px_is_refund x) (px_is_winner x)\<rparr>) math\<rparr>)))"

definition replay_resolve :: "round_transcript \<Rightarrow> replay_result replayed" where
  "replay_resolve t = (case tr_mode t of TUpDown \<Rightarrow> replay_updown t | TPrecision \<Rightarrow> replay_precision t)"

definition replay_round :: "round_transcript \<Rightarrow> replay_result replayed" where
  "replay_round t =
     and_then (lift_error Transcript (validate_schema t)) (\<lambda>_.
     if ot_round_id (tr_oracle t) \<noteq> tr_round_id t
     then Inl (Fail (OracleRoundMismatch (tr_round_id t) (ot_round_id (tr_oracle t))))
     else
       (case tr_terminal t of
          TCancel \<Rightarrow> replay_full_refund t RCancelled OVoid
        | TVoid \<Rightarrow> replay_full_refund t RVoided OVoid
        | TFallbackRefund \<Rightarrow> replay_full_refund t RFallbackRefund ORefund
        | TResolve \<Rightarrow>
            (case tr_min_participants t of
               Some least \<Rightarrow>
                 if tr_participant_count t < least then replay_full_refund t RFallbackRefund ORefund
                 else replay_resolve t
             | None \<Rightarrow> replay_resolve t)))"

definition replay_to_expected :: "replay_result \<Rightarrow> expected_outcome" where
  "replay_to_expected res =
     \<lparr>eo_archive_status = rr_archive_status res, eo_total_fee = rr_total_fee res,
      eo_payouts = map (\<lambda>p. \<lparr>ep_index = rp_index p, ep_payout = rp_payout p, ep_outcome = rp_outcome p\<rparr>) (rr_payouts res)\<rparr>"

section \<open>Diagnostics\<close>

text \<open>A diagnostic names a field and its two values; the strings they are formatted into are not modelled.\<close>

datatype mismatch =
    StatusMismatch replay_status replay_status
  | FeeMismatch int int
  | CountMismatch nat nat
  | IndexMismatch nat nat
  | PayoutMismatch nat int int
  | OutcomeMismatch nat outcome_kind outcome_kind

definition compare_payout :: "expected_payout \<times> replay_payout \<Rightarrow> mismatch list" where
  "compare_payout = (\<lambda>(x, r).
     (if ep_index x \<noteq> rp_index r then [IndexMismatch (ep_index x) (rp_index r)] else []) @
     (if ep_payout x \<noteq> rp_payout r then [PayoutMismatch (ep_index x) (ep_payout x) (rp_payout r)] else []) @
     (if ep_outcome x \<noteq> rp_outcome r then [OutcomeMismatch (ep_index x) (ep_outcome x) (rp_outcome r)] else []))"

definition compare_replay :: "round_transcript \<Rightarrow> replay_result \<Rightarrow> mismatch list" where
  "compare_replay t res =
     (let x = tr_expected t;
          status = (if eo_archive_status x \<noteq> rr_archive_status res
                    then [StatusMismatch (eo_archive_status x) (rr_archive_status res)] else []);
          fee = (if eo_total_fee x \<noteq> rr_total_fee res then [FeeMismatch (eo_total_fee x) (rr_total_fee res)] else [])
      in status @ fee @
         (if length (eo_payouts x) \<noteq> length (rr_payouts res)
          then [CountMismatch (length (eo_payouts x)) (length (rr_payouts res))]
          else concat (map compare_payout (zip (eo_payouts x) (rr_payouts res)))))"

definition assert_live_matches_replay :: "round_transcript \<Rightarrow> replay_result \<Rightarrow> mismatch list + unit" where
  "assert_live_matches_replay t res =
     (let mismatches = compare_replay t res in if mismatches = [] then Inr () else Inl mismatches)"

definition outcome_from_flags :: "bool \<Rightarrow> bool \<Rightarrow> bool \<Rightarrow> outcome_kind" where
  "outcome_from_flags is_winner is_refund void =
     (if void then OVoid else if is_refund then ORefund else if is_winner then OWin else OLoss)"

section \<open>Transcripts in canonical order\<close>

lemma check_order_Inr: "check_order i ps = Inr () \<longleftrightarrow> map tp_index ps = [i..<i + length ps]"
proof (induction ps arbitrary: i)
  case (Cons p ps)
  have "[i..<i + length (p # ps)] = i # [Suc i..<Suc i + length ps]" by (simp add: upt_conv_Cons del: upt_Suc)
  then show ?case using Cons by (auto simp del: upt_Suc)
qed simp

lemma validate_schema_Inr:
  "validate_schema t = Inr () \<longleftrightarrow>
     tr_schema_version t = TRANSCRIPT_SCHEMA_VERSION \<and> tr_participants t \<noteq> [] \<and>
     map tp_index (tr_participants t) = [0..<length (tr_participants t)] \<and>
     tr_participant_count t = length (tr_participants t)"
  using check_order_Inr[of 0 "tr_participants t"]
  by (auto simp: validate_schema_def and_then_def split: sum.splits if_splits)

lemma sorted_indices:
  assumes "distinct (map tp_index ps)" "set (map tp_index ps) = {0..<length ps}"
  shows "map tp_index (sort_key tp_index ps) = [0..<length ps]"
  by (rule sorted_distinct_set_unique) (use assms in \<open>simp_all add: distinct_map\<close>)

lemma canonical_valid:
  assumes "tr_schema_version t = TRANSCRIPT_SCHEMA_VERSION" "tr_participants t \<noteq> []" "length (tr_participants t) < 2 ^ 32"
    and "distinct (map tp_index (tr_participants t))" "set (map tp_index (tr_participants t)) = {0..<length (tr_participants t)}"
  shows "validate_schema (canonicalize_participants t) = Inr ()"
proof -
  have "sort_key tp_index (tr_participants t) \<noteq> []" using assms(2) by (metis length_0_conv length_sort)
  then show ?thesis using assms(1,3) sorted_indices[OF assms(4,5)]
    by (simp add: validate_schema_Inr canonicalize_participants_def)
qed

section \<open>The comparison is equality\<close>

definition payout_expected :: "replay_payout \<Rightarrow> expected_payout" where
  "payout_expected p = \<lparr>ep_index = rp_index p, ep_payout = rp_payout p, ep_outcome = rp_outcome p\<rparr>"

lemma compare_payout_Nil: "compare_payout (x, r) = [] \<longleftrightarrow> x = payout_expected r"
  by (cases x) (auto simp: compare_payout_def payout_expected_def)

lemma compare_payouts_Nil:
  "length xs = length rs \<Longrightarrow> concat (map compare_payout (zip xs rs)) = [] \<longleftrightarrow> xs = map payout_expected rs"
  by (induction xs rs rule: list_induct2) (simp_all add: compare_payout_Nil)

text \<open>The parity check of the replay is exact.  It reports no mismatch if and only if the recorded
  outcome is the one replayed, field by field and participant by participant; so recording
  what was replayed always passes, and whatever passes was recorded so.\<close>

theorem parity_check_exact:
  "(assert_live_matches_replay t res = Inr () \<longleftrightarrow> tr_expected t = replay_to_expected res) \<and>
   assert_live_matches_replay (t\<lparr>tr_expected := replay_to_expected res\<rparr>) res = Inr ()"
proof -
  have "replay_to_expected res = \<lparr>eo_archive_status = rr_archive_status res, eo_total_fee = rr_total_fee res,
      eo_payouts = map payout_expected (rr_payouts res)\<rparr>" for res
    by (simp add: replay_to_expected_def payout_expected_def[abs_def])
  then have iff: "compare_replay t res = [] \<longleftrightarrow> tr_expected t = replay_to_expected res" for t
    using compare_payouts_Nil[of "eo_payouts (tr_expected t)" "rr_payouts res"]
    by (cases "tr_expected t") (auto simp: compare_replay_def Let_def)
  then show ?thesis by (auto simp: assert_live_matches_replay_def Let_def)
qed

section \<open>The replay of a settled round\<close>

text \<open>The transcript of the active round at a price, as an indexer records it from the store: one row per
  participant in order of address.\<close>

definition recorded_row :: "store \<Rightarrow> nat \<Rightarrow> nat \<times> address \<Rightarrow> transcript_participant" where
  "recorded_row s rid = (\<lambda>(i, u).
     \<lparr>tp_index = i, tp_address = None, tp_amount = user_stake (s_book s) rid u,
      tp_side_up = map_option (\<lambda>p. pos_side p = Up) (b_positions (s_book s) (rid, u)),
      tp_commit_reveal =
        \<lparr>cr_commit_hash_hex = None, cr_revealed = (b_predictions (s_book s) (rid, u) \<noteq> None),
         cr_predicted_price = (case b_predictions (s_book s) (rid, u) of Some p \<Rightarrow> pp_price p | None \<Rightarrow> 0)\<rparr>\<rparr>)"

definition recorded :: "store \<Rightarrow> round \<Rightarrow> nat \<Rightarrow> expected_outcome \<Rightarrow> round_transcript" where
  "recorded s r final_price expected =
     (let us = sort_addresses (members (s_book s) (r_id r)) in
      \<lparr>tr_schema_version = TRANSCRIPT_SCHEMA_VERSION, tr_round_id = r_id r,
       tr_mode = (case r_mode r of UpDown \<Rightarrow> TUpDown | Precision \<Rightarrow> TPrecision), tr_terminal = TResolve,
       tr_price_start = r_price_start r, tr_final_price = final_price, tr_pool_up = r_pool_up r, tr_pool_down = r_pool_down r,
       tr_fee_bps = c_fee_bps (s_config s), tr_min_participants = c_min_participants (s_config s),
       tr_participant_count = length us,
       tr_oracle = \<lparr>ot_price = final_price, ot_timestamp = 0, ot_round_id = r_id r, ot_nonce = 0, ot_confidence = None\<rparr>,
       tr_participants = map (recorded_row s (r_id r)) (enumerate 0 us), tr_expected = expected\<rparr>)"

lemma length_sort_addresses [simp]: "length (sort_addresses xs) = length xs"
  by (simp add: sort_addresses_def)

lemma recorded_valid:
  assumes "members (s_book s) (r_id r) \<noteq> []"
  shows "validate_schema (recorded s r fp x) = Inr ()"
proof -
  have "map tp_index (map (recorded_row s (r_id r)) (enumerate 0 us)) = [0..<length us]" for us
    by (simp add: recorded_row_def case_prod_unfold comp_def)
  moreover have "enumerate 0 (sort_addresses (members (s_book s) (r_id r))) \<noteq> []"
    using assms by (metis length_0_conv length_enumerate length_sort_addresses)
  ultimately show ?thesis by (simp add: validate_schema_Inr recorded_def Let_def)
qed

lemma recorded_amounts:
  assumes "round_ok (s_book s) r" "r_mode r = UpDown" "stakes_ok (s_book s)"
  shows "pools_match (map updown_row (tr_participants (recorded s r fp x))) (r_pool_up r) (r_pool_down r)"
proof -
  let ?b = "s_book s" and ?rid = "r_id r"
  have side: "updown_row (recorded_row s ?rid (i, u)) = \<lparr>up_index = i, up_amount = pos_amount p, up_side_up = (pos_side p = Up)\<rparr>"
    if "b_positions ?b (?rid, u) = Some p" for i u p
    using that user_stake_mode(1)[OF assms(1,2), of u] by (simp add: updown_row_def recorded_row_def position_stake_def get_or_def)
  have pos: "\<exists>p. b_positions ?b (?rid, u) = Some p \<and> 0 < pos_amount p" if "u \<in> set (members ?b ?rid)" for u
    using that assms by (fastforce simp: round_ok_def stakes_ok_def)
  have sums: "set us \<subseteq> set (members ?b ?rid) \<Longrightarrow>
      (let rows = map updown_row (map (recorded_row s ?rid) (enumerate n us)) in
        (\<forall>p\<in>set rows. 0 \<le> up_amount p) \<and>
        sum_list (map up_amount (filter up_side_up rows)) = sum_list (map (side_stake ?b ?rid Up) us) \<and>
        sum_list (map up_amount (filter (\<lambda>p. \<not> up_side_up p) rows)) = sum_list (map (side_stake ?b ?rid Down) us))" for us n
  proof (induction us arbitrary: n)
    case (Cons u us)
    obtain p where p: "b_positions ?b (?rid, u) = Some p" "0 < pos_amount p" using pos[of u] Cons.prems by auto
    show ?case using Cons side[OF p(1)] p by (cases "pos_side p") (auto simp: Let_def side_stake_def)
  qed simp
  show ?thesis
    using sums[of "sort_addresses (members ?b ?rid)" 0] assms(1,2)
    by (simp add: pools_match_def recorded_def Let_def round_ok_def side_pool_def sum_sort_addresses)
qed

text \<open>The engine takes the fee of the two pools in a fixed order; the fee does not depend on it.\<close>

lemma updown_fee_swap:
  assumes "compute_updown_fee w l bps = Inr (dw, dl, f)" "0 \<le> w" "0 \<le> l" "pred_option (\<lambda>b. b \<le> 10000) bps"
  shows "\<exists>a b. compute_updown_fee l w bps = Inr (a, b, f)"
proof (cases bps)
  case None
  then show ?thesis using assms(1) by (simp add: compute_updown_fee_def)
next
  case (Some b)
  have sum: "payout_add l w = payout_add w l" by (simp add: payout_add_def checked_add_def add.commute)
  have r: "in_i128 (w + l)" "in_i128 ((w + l) * int b)" "f = (w + l) * int b sdiv 10000"
    using assms(1) Some by (auto simp: compute_updown_fee_def and_then_Inr ok_or_Inr payout_add_Inr checked_mul_Some BPS_DENOMINATOR_def Let_def split: if_splits)
  have "\<exists>x. compute_updown_fee l w (Some b) = Inr x"
    using compute_updown_fee_total[of l w b] assms(2-4) r(1,2) Some by (simp add: add.commute)
  then show ?thesis using r Some
    by (auto simp: compute_updown_fee_def and_then_Inr ok_or_Inr payout_add_Inr checked_mul_Some BPS_DENOMINATOR_def Let_def add.commute split: if_splits)
qed

lemma fee_on_pot: "calculate_protocol_fee_updown bps FeeOnPot w l = compute_updown_fee w l bps"
  by (simp add: calculate_protocol_fee_updown_def compute_updown_fee_def and_then_assoc Let_def split: option.split cong: if_cong)

lemma updown_competitive_runs:
  assumes "\<And>p. p \<in> set ps \<Longrightarrow> up_side_up p = side \<Longrightarrow> \<exists>x. compute_updown_winner_payout (up_amount p) w td = Inr x"
  shows "\<exists>xs. updown_competitive side w td ps = Inr xs"
  using assms
proof (induction ps)
  case (Cons p ps)
  then obtain xs where "updown_competitive side w td ps = Inr xs" by auto
  moreover have "\<exists>x. (if up_side_up p = side then compute_updown_winner_payout (up_amount p) w td else Inr 0) = Inr x"
    using Cons.prems[of p] by simp
  ultimately show ?case by (auto simp: Let_def)
qed simp

definition replay_rows :: "store \<Rightarrow> round \<Rightarrow> updown_position list" where
  "replay_rows s r = map updown_row (map (recorded_row s (r_id r)) (enumerate 0 (sort_addresses (members (s_book s) (r_id r)))))"

lemma replay_rows_nth:
  assumes "round_ok (s_book s) r" "r_mode r = UpDown" "i < length (members (s_book s) (r_id r))"
  shows "\<exists>p. b_positions (s_book s) (r_id r, sort_addresses (members (s_book s) (r_id r)) ! i) = Some p \<and>
     replay_rows s r ! i = \<lparr>up_index = i, up_amount = pos_amount p, up_side_up = (pos_side p = Up)\<rparr>"
proof -
  let ?us = "sort_addresses (members (s_book s) (r_id r))"
  have "?us ! i \<in> set (members (s_book s) (r_id r))" using assms(3) nth_mem[of i ?us] by simp
  then obtain p where p: "b_positions (s_book s) (r_id r, ?us ! i) = Some p" using assms(1,2) by (auto simp: round_ok_def)
  then show ?thesis using assms(3) user_stake_mode(1)[OF assms(1,2), of "?us ! i"]
    by (simp add: replay_rows_def nth_enumerate_eq updown_row_def recorded_row_def position_stake_def get_or_def)
qed

text \<open>On the recorded rows the pure engine computes what the settlement owes.\<close>

lemma replay_updown_pays:
  assumes run: "resolve_updown_mode e r fp s = Inr ((one_sided, fee), s')"
    and m: "money_ok (s_money s)" "fee_ok s" "stakes_ok (s_book s)" and ok: "round_ok (s_book s) r" "r_mode r = UpDown"
    and some: "members (s_book s) (r_id r) \<noteq> []" and model: "read_fee_model s = FeeOnPot"
  shows "\<exists>xs. compute_updown_payouts (replay_rows s r) (r_price_start r) fp (r_pool_up r) (r_pool_down r) (c_fee_bps (s_config s)) = Inr xs \<and>
     map ux_index xs = map up_index (replay_rows s r) \<and>
     (\<forall>i<length (members (s_book s) (r_id r)). ux_payout (xs ! i) =
        updown_due (s_book s) r fp (r_pool_up r + r_pool_down r - fee) (sort_addresses (members (s_book s) (r_id r)) ! i)) \<and>
     (if list_all ux_is_refund xs then fee = 0
      else \<exists>a b. compute_updown_fee (r_pool_up r) (r_pool_down r) (c_fee_bps (s_config s)) = Inr (a, b, fee))"
proof -
  let ?b = "s_book s" and ?rows = "replay_rows s r" and ?us = "sort_addresses (members (s_book s) (r_id r))"
  have len: "length ?rows = length (members ?b (r_id r))" by (simp add: replay_rows_def)
  note nth = replay_rows_nth[OF ok]
  show ?thesis
  proof (cases "updown_winner r fp")
    case None
    then have "compute_updown_payouts ?rows (r_price_start r) fp (r_pool_up r) (r_pool_down r) (c_fee_bps (s_config s)) = Inr (map updown_refund ?rows)"
      by (auto simp: compute_updown_payouts_def updown_winner_def split: if_splits price_direction.splits)
    moreover have "ux_payout (map updown_refund ?rows ! i) = updown_due ?b r fp x (?us ! i)" if "i < length (members ?b (r_id r))" for i x
      using nth[OF that] that len None by (auto simp: updown_refund_def updown_due_def position_stake_def get_or_def)
    ultimately show ?thesis using resolve_updown_Inr(10)[OF run m ok None] len
      by (auto simp: updown_refund_def list_all_iff)
  next
    case (Some side)
    let ?W = "pool_of r side" and ?L = "losing_pool_of r side" and ?bps = "c_fee_bps (s_config s)"
    note dir = winner_direction[OF Some] and pos = decided_pool_pos[OF m(3) ok Some some]
    obtain dw dl d where f: "compute_updown_fee ?W ?L ?bps = Inr (dw, dl, fee)" "payout_add dw dl = Inr d"
      "d = r_pool_up r + r_pool_down r - fee" "0 \<le> d"
      and pays: "\<And>u p. u \<in> set (members ?b (r_id r)) \<Longrightarrow> b_positions ?b (r_id r, u) = Some p \<Longrightarrow> pos_side p = side \<Longrightarrow>
          \<exists>x. compute_updown_winner_payout (pos_amount p) ?W d = Inr x"
      using updown_decided[OF run m ok Some some] model fee_on_pot by metis
    have row: "\<exists>u p. u \<in> set (members ?b (r_id r)) \<and> b_positions ?b (r_id r, u) = Some p \<and> 0 \<le> pos_amount p \<and>
        up_amount q = pos_amount p \<and> up_side_up q = (pos_side p = Up)" if q: "q \<in> set ?rows" for q
    proof -
      obtain i where i: "i < length (members ?b (r_id r))" "q = ?rows ! i" using q len by (metis in_set_conv_nth)
      obtain p where p: "b_positions ?b (r_id r, ?us ! i) = Some p" "q = \<lparr>up_index = i, up_amount = pos_amount p, up_side_up = (pos_side p = Up)\<rparr>"
        using nth[OF i(1)] i(2) by auto
      moreover have "?us ! i \<in> set (members ?b (r_id r))" using i(1) nth_mem[of i ?us] by simp
      moreover have "0 \<le> pos_amount p" using m(3) p(1) by (auto simp: stakes_ok_def less_imp_le)
      ultimately show ?thesis by auto
    qed
    have "\<exists>x. compute_updown_winner_payout (up_amount q) ?W d = Inr x" if q: "q \<in> set ?rows" "up_side_up q = (side = Up)" for q
    proof -
      obtain u p where p: "u \<in> set (members ?b (r_id r))" "b_positions ?b (r_id r, u) = Some p" "up_amount q = pos_amount p"
        "up_side_up q = (pos_side p = Up)"
        using row[OF q(1)] by blast
      then have "pos_side p = side" using q(2) by (cases side; cases "pos_side p") simp_all
      with pays[OF p(1,2)] p(3) show ?thesis by simp
    qed
    then obtain xs where xs: "updown_competitive (side = Up) ?W d ?rows = Inr xs"
      using updown_competitive_runs[of ?rows "side = Up" ?W d] by blast
    then have run': "compute_updown_payouts ?rows (r_price_start r) fp (r_pool_up r) (r_pool_down r) ?bps = Inr xs"
      using dir pos f(1,2) by (auto simp: compute_updown_payouts_def classify_price_direction_def is_one_sided_pool_def Let_def
          pool_of_def losing_pool_of_def split: if_splits)
    have shape: "xs = map (\<lambda>p. \<lparr>ux_index = up_index p, ux_stake = up_amount p,
            ux_payout = (if up_side_up p = (side = Up) then up_amount p * d div ?W else 0),
            ux_is_winner = (up_side_up p = (side = Up)), ux_is_refund = False\<rparr>) ?rows"
      by (rule updown_competitive_Inr[OF pos(1) f(4) _ xs]) (use row in force)
    have pay: "ux_payout (xs ! i) = updown_due ?b r fp d (?us ! i)" if i: "i < length (members ?b (r_id r))" for i
    proof -
      obtain p where "b_positions ?b (r_id r, ?us ! i) = Some p" "?rows ! i = \<lparr>up_index = i, up_amount = pos_amount p, up_side_up = (pos_side p = Up)\<rparr>"
        using nth[OF i] by blast
      then show ?thesis using i len by (cases side; cases "pos_side p") (simp_all add: shape updown_due_def Some side_stake_def)
    qed
    have "\<exists>a b. compute_updown_fee (r_pool_up r) (r_pool_down r) ?bps = Inr (a, b, fee)"
      using f(1) updown_fee_swap[OF f(1) less_imp_le[OF pos(1)] pos(2)] fee_ok_bps[OF m(2)]
      by (cases side) (auto simp: pool_of_def losing_pool_of_def)
    moreover have "\<not> list_all ux_is_refund xs" using some len by (cases ?rows) (auto simp: shape list_all_iff)
    ultimately show ?thesis using run' pay f(3) by (auto simp: shape)
  qed
qed

lemma replay_fallback:
  assumes f: "c_min_participants (s_config s) = Some least" "length (members (s_book s) (r_id r)) < least"
    "\<forall>v. pending_of s' v = pending_of s v + user_stake (s_book s) (r_id r) v"
    and some: "members (s_book s) (r_id r) \<noteq> []"
  shows "\<exists>res. replay_round (recorded s r fp x) = Inr res \<and>
     map rp_index (rr_payouts res) = [0..<length (members (s_book s) (r_id r))] \<and>
     (\<forall>i<length (members (s_book s) (r_id r)).
        pending_of s' (sort_addresses (members (s_book s) (r_id r)) ! i) =
        pending_of s (sort_addresses (members (s_book s) (r_id r)) ! i) + rp_payout (rr_payouts res ! i)) \<and>
     (if rr_archive_status res = RResolved then protocol_funds s' = protocol_funds s + rr_total_fee res
      else rr_archive_status res = RFallbackRefund \<and> rr_total_fee res = 0 \<and>
           (\<exists>least. c_min_participants (s_config s) = Some least \<and> length (members (s_book s) (r_id r)) < least))"
proof -
  let ?T = "recorded s r fp x" and ?us = "sort_addresses (members (s_book s) (r_id r))"
  have fields: "tr_terminal ?T = TResolve" "ot_round_id (tr_oracle ?T) = tr_round_id ?T"
    "tr_min_participants ?T = c_min_participants (s_config s)" "tr_participant_count ?T = length (members (s_book s) (r_id r))"
    "tr_participants ?T = map (recorded_row s (r_id r)) (enumerate 0 ?us)"
    by (simp_all add: recorded_def Let_def)
  have "replay_round ?T = replay_full_refund ?T RFallbackRefund ORefund"
    using recorded_valid[OF some] f(1,2) by (simp add: replay_round_def fields)
  then show ?thesis using f
    by (simp add: replay_full_refund_def fields recorded_row_def nth_enumerate_eq comp_def case_prod_unfold)
qed


definition no_outcome :: expected_outcome where
  "no_outcome = \<lparr>eo_archive_status = RResolved, eo_total_fee = 0, eo_payouts = []\<rparr>"


text \<open>Two bettors under the fee on the winnings, at 2 percent.\<close>

definition taxed_bets :: store where
  "taxed_bets = two_bets\<lparr>s_config := (s_config two_bets)\<lparr>c_fee_bps := Some 200, c_fee_model := Some FeeOnWinnings\<rparr>\<rparr>"

text \<open>A transcript does not record the fee model, so the engine replays every round with the fee on the pot.
  Under the fee on the winnings it announces the fee 10 and the payout 490 where the preview, and
  with it the settlement, has the fee 4 and the payout 496.\<close>

theorem replay_ignores_fee_model:
  "\<exists>sim res. simulate_payout 150 taxed_bets = Inr sim \<and> sm_fee sim = 4 \<and> previewed (sm_outcomes sim) 5 = 496 \<and>
     replay_round (recorded taxed_bets two_bets_round 150 x) = Inr res \<and> rr_total_fee res = 10 \<and>
     map rp_payout (rr_payouts res) = [490, 0]"
proof -
  have b: "s_book taxed_bets = s_book two_bets" "c_fee_bps (s_config taxed_bets) = Some 200" "read_fee_model taxed_bets = FeeOnWinnings"
    "c_min_participants (s_config taxed_bets) = None"
    by (simp_all add: taxed_bets_def read_fee_model_def two_bets_config)
  have us: "sort_addresses [5, 6 :: address] = [5, 6]" by (simp add: sort_addresses_def)
  note sums = payout_add_def payout_mul_def checked_add_def checked_mul_def checked_sub_def checked_div_def in_i128_def BPS_DENOMINATOR_def sdiv_nonneg
  have pay: "simulate_payout 150 taxed_bets = Inr sim \<Longrightarrow> sm_fee sim = 4 \<and> previewed (sm_outcomes sim) 5 = 496" for sim
    by (auto simp: simulate_payout_def b two_bets_book members_participants us preview_updown_def preview_sides_def
        calculate_protocol_fee_updown_def preview_position_def sums Let_def previewed_def simp del: One_nat_def)
  obtain sim where sim: "simulate_payout 150 taxed_bets = Inr sim"
    by (simp add: simulate_payout_def b two_bets_book members_participants us preview_updown_def preview_sides_def
        calculate_protocol_fee_updown_def preview_position_def sums Let_def del: One_nat_def)
  have "\<exists>res. replay_round (recorded taxed_bets two_bets_round 150 x) = Inr res \<and> rr_total_fee res = 10 \<and>
     map rp_payout (rr_payouts res) = [490, 0]"
    by (simp add: replay_round_def recorded_valid b two_bets_book recorded_def us replay_resolve_def replay_updown_def
        recorded_row_def updown_row_def user_stake_def position_stake_def precision_stake_def get_or_def
        compute_updown_payouts_def classify_price_direction_def is_one_sided_pool_def compute_updown_fee_def
        compute_updown_winner_payout_def sums Let_def validate_schema_def TRANSCRIPT_SCHEMA_VERSION_def del: One_nat_def)
  then obtain res where res: "replay_round (recorded taxed_bets two_bets_round 150 x) = Inr res" "rr_total_fee res = 10"
    "map rp_payout (rr_payouts res) = [490, 0]" by (elim exE conjE)
  show ?thesis by (intro exI conjI) (rule sim, rule pay[OF sim, THEN conjunct1], rule pay[OF sim, THEN conjunct2], rule res(1), rule res(2), rule res(3))
qed

end
