(* ===== verification/Legacy.thy ===== *)
theory Legacy
  imports Preview
begin

text \<open>
  The settlement over the legacy maps (\<open>_record_refunds_legacy\<close>, \<open>_record_winnings_legacy\<close> and
  \<open>_resolve_precision_legacy\<close> of \<open>contracts/src/settlement.rs\<close>).  It is compiled only with the
  feature \<open>legacy-map-settlement\<close>, for migration proofs; the theory is that proof: on the map
  that holds what the indexed storage holds, the legacy functions do exactly what the indexed
  ones do.  A map of the host is a list of entries in the order of its keys.
\<close>

section \<open>UpDown\<close>

definition legacy_refund :: "env \<Rightarrow> nat \<Rightarrow> (address \<times> user_position) list \<Rightarrow> address \<Rightarrow> store \<Rightarrow> store res" where
  "legacy_refund e rid positions user s =
     (case map_of positions user of
        None \<Rightarrow> Inr s
      | Some p \<Rightarrow>
          and_then (accumulate_pending e user (pos_amount p) s) (\<lambda>s1.
          Inr (persist_user_outcome rid 0 user (side_code (pos_side p)) 0 (pos_amount p) (pos_amount p) Refund s1)))"

definition record_refunds_legacy :: "env \<Rightarrow> nat \<Rightarrow> (address \<times> user_position) list \<Rightarrow> store \<Rightarrow> store res" where
  "record_refunds_legacy e rid positions = fold_res (legacy_refund e rid positions) (map fst positions)"

definition legacy_step ::
  "env \<Rightarrow> nat \<Rightarrow> (address \<times> user_position) list \<Rightarrow> bet_side \<Rightarrow> int \<Rightarrow> int \<Rightarrow> address \<Rightarrow> store \<Rightarrow> store res" where
  "legacy_step e rid positions winning_side original_winning_pool total_distributable user s =
     (case map_of positions user of
        None \<Rightarrow> Inr s
      | Some p \<Rightarrow>
          if pos_side p = winning_side then
            and_then (compute_updown_winner_payout (pos_amount p) original_winning_pool total_distributable) (\<lambda>payout.
            and_then (accumulate_pending e user payout s) (\<lambda>s1.
            and_then (update_stats_win user s1) (\<lambda>s2.
            Inr (persist_user_outcome rid 0 user (side_code (pos_side p)) 0 (pos_amount p) payout Win s2))))
          else
            and_then (update_stats_loss user
                        (emit (''outcome'', ''loss'')
                           [VAddr user, VNat rid, VNat 0, VInt (pos_amount p), VNat (side_code (pos_side p)), VNat 0] s)) (\<lambda>s2.
            Inr (persist_user_outcome rid 0 user (side_code (pos_side p)) 0 (pos_amount p) 0 Loss s2)))"

definition record_winnings_legacy ::
  "env \<Rightarrow> nat \<Rightarrow> (address \<times> user_position) list \<Rightarrow> bet_side \<Rightarrow> int \<Rightarrow> int \<Rightarrow> store \<Rightarrow> (int \<times> store) res" where
  "record_winnings_legacy e rid positions winning_side winning_pool losing_pool s =
     (if winning_pool = 0 then Inr (0, s)
      else
        and_then (apply_protocol_fee_updown rid winning_pool losing_pool s) (\<lambda>((dist_winning, dist_losing, fee_amount), s1).
        and_then (payout_add dist_winning dist_losing) (\<lambda>total_distributable.
        and_then (fold_res (legacy_step e rid positions winning_side winning_pool total_distributable) (map fst positions) s1) (\<lambda>s2.
        Inr (fee_amount, s2)))))"

section \<open>Precision\<close>

definition legacy_scan_step ::
  "nat \<Rightarrow> precision_prediction \<Rightarrow> nat option \<times> precision_prediction list \<Rightarrow> (nat option \<times> precision_prediction list) res" where
  "legacy_scan_step final_price p = (\<lambda>(min_diff, winners).
     and_then (ok_or (if pp_price p \<ge> final_price then uchecked_sub (pp_price p) final_price
                      else uchecked_sub final_price (pp_price p)) Overflow) (\<lambda>diff.
     case min_diff of
       None \<Rightarrow> Inr (Some diff, winners @ [p])
     | Some current_min \<Rightarrow>
         if diff < current_min then Inr (Some diff, [p])
         else if diff = current_min then Inr (min_diff, winners @ [p])
         else Inr (min_diff, winners)))"

definition legacy_loser :: "nat \<Rightarrow> precision_prediction list \<Rightarrow> precision_prediction \<Rightarrow> store \<Rightarrow> store res" where
  "legacy_loser rid winners p s =
     (if list_ex (\<lambda>w. pp_user w = pp_user p) winners then Inr s
      else
        and_then (update_stats_loss (pp_user p)
                    (emit (''outcome'', ''loss'')
                       [VAddr (pp_user p), VNat rid, VNat 1, VInt (pp_amount p), VNat 0, VNat (pp_price p)] s)) (\<lambda>s1.
        Inr (persist_user_outcome rid 1 (pp_user p) 2 (pp_price p) (pp_amount p) 0 Loss s1)))"

definition resolve_precision_legacy ::
  "env \<Rightarrow> nat \<Rightarrow> precision_prediction list \<Rightarrow> nat \<Rightarrow> store \<Rightarrow> ((int \<times> int) \<times> store) res" where
  "resolve_precision_legacy e rid predictions final_price s =
     (if predictions = [] then Inr ((0, 0), s)
      else
        and_then (fold_res (legacy_scan_step final_price) predictions (None, [])) (\<lambda>(min_diff, winners).
        and_then (sum_stakes (map pp_amount predictions) 0) (\<lambda>total_pot.
        if winners \<noteq> [] \<and> total_pot > 0 then
          and_then (sum_stakes (map pp_amount winners) 0) (\<lambda>winner_stakes.
          and_then (apply_protocol_fee_precision rid total_pot winner_stakes s) (\<lambda>((payout_pool, fee), s1).
          and_then (calculate_precision_payouts (read_precision_payout_policy s1) (map pp_amount winners) payout_pool) (\<lambda>payouts.
          and_then (fold_res (pay_winner e rid False)
                      (map (\<lambda>i. (winners ! i, if i < length payouts then payouts ! i else 0)) [0..<length winners]) s1) (\<lambda>s2.
          and_then (fold_res (legacy_loser rid winners) predictions s2) (\<lambda>s3.
          Inr ((fee, total_pot), s3))))))
        else Inr ((0, total_pot), s))))"

section \<open>The maps of a migration\<close>

definition legacy_positions :: "book \<Rightarrow> nat \<Rightarrow> (address \<times> user_position) list" where
  "legacy_positions b rid =
     List.map_filter (\<lambda>u. map_option (\<lambda>p. (u, p)) (b_positions b (rid, u))) (sort_addresses (members b rid))"

definition legacy_predictions :: "book \<Rightarrow> nat \<Rightarrow> precision_prediction list" where
  "legacy_predictions b rid = List.map_filter (\<lambda>u. b_predictions b (rid, u)) (sort_addresses (members b rid))"

lemma fold_res_cong_inv:
  assumes "\<And>x t. x \<in> set xs \<Longrightarrow> P t \<Longrightarrow> f x t = g x t" "\<And>x t t'. P t \<Longrightarrow> g x t = Inr t' \<Longrightarrow> P t'" "P s"
  shows "fold_res f xs s = fold_res g xs s"
  using assms(1,3)
proof (induction xs arbitrary: s)
  case (Cons x xs)
  show ?case
  proof (cases "g x s")
    case (Inr t)
    then show ?thesis using Cons assms(2)[OF Cons.prems(2) Inr] by simp
  qed (use Cons.prems in simp)
qed simp

lemma legacy_positions_fst:
  assumes "\<And>u. u \<in> set (members b rid) \<Longrightarrow> b_positions b (rid, u) \<noteq> None"
  shows "map fst (legacy_positions b rid) = sort_addresses (members b rid)"
proof -
  have "set us \<subseteq> set (members b rid) \<Longrightarrow>
     map fst (List.map_filter (\<lambda>u. map_option (\<lambda>p. (u, p)) (b_positions b (rid, u))) us) = us" for us
    using assms by (induction us) (fastforce simp: List.map_filter_simps split: option.splits)+
  then show ?thesis by (simp add: legacy_positions_def)
qed

lemma legacy_positions_lookup:
  assumes "u \<in> set (members b rid)"
  shows "map_of (legacy_positions b rid) u = b_positions b (rid, u)"
proof -
  have "u \<in> set us \<Longrightarrow> map_of (List.map_filter (\<lambda>u. map_option (\<lambda>p. (u, p)) (b_positions b (rid, u))) us) u = b_positions b (rid, u)" for us
  proof (induction us)
    case (Cons v us)
    have "map_of (List.map_filter (\<lambda>u. map_option (\<lambda>p. (u, p)) (b_positions b (rid, u))) us) u = None" if "b_positions b (rid, u) = None"
      using that by (auto simp: map_of_eq_None_iff List.map_filter_def)
    then show ?case using Cons by (auto simp: List.map_filter_simps split: option.splits)
  qed simp
  then show ?thesis using assms by (simp add: legacy_positions_def)
qed

lemma legacy_winnings_agree:
  assumes ok: "contract_ok s" "round_ok (s_book s) r" "r_mode r = UpDown" and pools: "0 \<le> W" "0 \<le> L"
  shows "record_winnings_legacy e (r_id r) (legacy_positions (s_book s) (r_id r)) side W L s =
     record_winnings_indexed e (r_id r) (sort_addresses (members (s_book s) (r_id r))) side W L s"
proof -
  let ?b = "s_book s" and ?rid = "r_id r"
  let ?us = "sort_addresses (members ?b ?rid)" and ?m = "legacy_positions ?b ?rid"
  have keys: "map fst ?m = ?us" using ok by (intro legacy_positions_fst) (auto simp: round_ok_def)
  have loop: "fold_res (legacy_step e ?rid ?m side W d) ?us t = fold_res (updown_step e ?rid side W d) ?us t"
    if "s_book t = ?b" for t d
  proof (rule fold_res_cong_inv[where P = "\<lambda>t. s_book t = ?b"])
    show "s_book t' = ?b" if "s_book t = ?b" "updown_step e ?rid side W d x t = Inr t'" for x t t'
      using winning.step_frame[OF that(2)] that(1) by simp
    show "legacy_step e ?rid ?m side W d x t = updown_step e ?rid side W d x t" if "x \<in> set ?us" "s_book t = ?b" for x t
      using that by (simp add: legacy_step_def updown_step_def legacy_positions_lookup)
  qed (rule that)
  have fee: "s_book s1 = ?b" if "apply_protocol_fee_updown ?rid W L s = Inr (x, s1)" for x s1
    using that apply_fee_updown_Inr[OF _ contract_okD(1,4)[OF ok(1)] pools] by (cases x) auto
  show ?thesis
    unfolding record_winnings_legacy_def record_winnings_indexed_def keys
    by (rule if_cong[OF refl refl], rule and_then_cong[OF refl]) (auto dest!: fee simp: loop)
qed

lemma legacy_refunds_agree:
  assumes "round_ok (s_book s) r" "r_mode r = UpDown"
  shows "record_refunds_legacy e (r_id r) (legacy_positions (s_book s) (r_id r)) s =
     record_refunds_indexed e (r_id r) 0 (sort_addresses (members (s_book s) (r_id r))) s"
proof -
  let ?b = "s_book s" and ?rid = "r_id r"
  have keys: "map fst (legacy_positions ?b ?rid) = sort_addresses (members ?b ?rid)"
    using assms by (intro legacy_positions_fst) (auto simp: round_ok_def)
  show ?thesis unfolding record_refunds_legacy_def record_refunds_indexed_def keys
  proof (rule fold_res_cong_inv[where P = "\<lambda>t. s_book t = ?b"])
    show "s_book t' = ?b" if "s_book t = ?b" "refund_position e ?rid 0 Refund x t = Inr t'" for x t t'
      using refunding.step_frame[OF that(2)] that(1) by simp
  qed (simp_all add: legacy_refund_def refund_position_def legacy_positions_lookup)
qed

text \<open>The two scans of a Precision round in which everybody has revealed.\<close>

lemma legacy_scan: "fold_res (legacy_scan_step fp) ps (None, []) = Inr (least_distance fp ps, nearest fp ps)"
proof (induction ps rule: rev_induct)
  case (snoc p ps)
  have diff: "ok_or (if pp_price p \<ge> fp then uchecked_sub (pp_price p) fp else uchecked_sub fp (pp_price p)) Overflow = Inr (distance fp p)"
    by (simp add: uchecked_sub_def distance_def abs_diff_def)
  have "legacy_scan_step fp p (least_distance fp ps, nearest fp ps) = Inr (least_distance fp (ps @ [p]), nearest fp (ps @ [p]))"
  proof (cases "least_distance fp ps")
    case None
    then have "ps = []" by (simp add: least_distance_def split: if_splits)
    then show ?thesis using diff by (simp add: legacy_scan_step_def)
  next
    case (Some m)
    then show ?thesis unfolding legacy_scan_step_def prod.case diff
      by (simp add: least_distance_snoc nearest_snoc min_def)
  qed
  then show ?case using snoc by (simp add: fold_res_append)
qed simp

lemma scan_step_revealed:
  assumes "b_predictions (s_book s) (rid, u) = Some p"
  shows "checked_add (sc_pot sc) (pp_amount p) = None \<Longrightarrow> scan_step s rid fp u sc = Inl (Fail PayoutOverflow)"
    "checked_add (sc_pot sc) (pp_amount p) = Some pot \<Longrightarrow> \<exists>sc'. scan_step s rid fp u sc = Inr sc' \<and> sc_pot sc' = pot \<and>
       sc_prices sc' = sc_prices sc @ [pp_price p] \<and> sc_revealed sc' = sc_revealed sc @ [True]"
proof -
  have diff: "ok_or (if pp_price p \<ge> fp then uchecked_sub (pp_price p) fp else uchecked_sub fp (pp_price p)) Overflow = Inr (distance fp p)"
    by (simp add: uchecked_sub_def distance_def abs_diff_def)
  have amount: "precision_amount s rid u = pp_amount p" using assms by (simp add: precision_amount_def)
  show "checked_add (sc_pot sc) (pp_amount p) = None \<Longrightarrow> scan_step s rid fp u sc = Inl (Fail PayoutOverflow)"
    by (simp add: scan_step_def amount payout_add_def)
  show "checked_add (sc_pot sc) (pp_amount p) = Some pot \<Longrightarrow> \<exists>sc'. scan_step s rid fp u sc = Inr sc' \<and> sc_pot sc' = pot \<and>
       sc_prices sc' = sc_prices sc @ [pp_price p] \<and> sc_revealed sc' = sc_revealed sc @ [True]"
    unfolding scan_step_def Let_def assms option.case amount payout_add_def diff
    by (cases "sc_min_diff sc") simp_all
qed

lemma scan_revealed:
  assumes "\<forall>u\<in>set us. b_predictions (s_book s) (rid, u) = Some (pred u)"
  shows "case sum_stakes (map (pp_amount \<circ> pred) us) (sc_pot sc) of
     Inl er \<Rightarrow> fold_res (scan_step s rid fp) us sc = Inl er
   | Inr pot \<Rightarrow> \<exists>sc'. fold_res (scan_step s rid fp) us sc = Inr sc' \<and> sc_pot sc' = pot \<and>
       sc_prices sc' = sc_prices sc @ map (pp_price \<circ> pred) us \<and> sc_revealed sc' = sc_revealed sc @ map (\<lambda>_. True) us"
  using assms
proof (induction us arbitrary: sc)
  case (Cons u us)
  have p: "b_predictions (s_book s) (rid, u) = Some (pred u)" and us: "\<forall>u\<in>set us. b_predictions (s_book s) (rid, u) = Some (pred u)"
    using Cons.prems by simp_all
  show ?case
  proof (cases "checked_add (sc_pot sc) (pp_amount (pred u))")
    case None
    then show ?thesis using scan_step_revealed(1)[OF p] by simp
  next
    case (Some pot)
    obtain t where t: "scan_step s rid fp u sc = Inr t" "sc_pot t = pot" "sc_prices t = sc_prices sc @ [pp_price (pred u)]"
      "sc_revealed t = sc_revealed sc @ [True]"
      using scan_step_revealed(2)[OF p Some] by blast
    show ?thesis using Cons.IH[OF us, of t] t Some by (auto split: sum.splits)
  qed
qed simp

lemma fold_res_map: "fold_res f (map g xs) s = fold_res (\<lambda>x. f (g x)) xs s"
  by (induction xs arbitrary: s) (simp_all add: and_then_def split: sum.split)

lemma list_ex_image: "list_ex (\<lambda>w. f w = v) ws \<longleftrightarrow> v \<in> set (map f ws)"
  by (induction ws) auto

lemma legacy_precision_agrees:
  assumes ok: "contract_ok s" "round_ok (s_book s) r" "r_mode r = Precision"
    and all: "\<forall>u\<in>set (members (s_book s) (r_id r)). b_predictions (s_book s) (r_id r, u) \<noteq> None"
  shows "resolve_precision_legacy e (r_id r) (legacy_predictions (s_book s) (r_id r)) fp s =
     resolve_precision_mode e (r_id r) fp False s"
proof -
  let ?b = "s_book s" and ?rid = "r_id r"
  let ?us = "sort_addresses (members ?b ?rid)"
  define pred where "pred = (\<lambda>u. the (b_predictions ?b (?rid, u)))"
  define preds where "preds = map pred ?us"
  have some: "\<forall>u\<in>set ?us. b_predictions ?b (?rid, u) = Some (pred u)" using all by (auto simp: pred_def)
  have rev: "revealed_in ?b ?rid us = map pred us" if "set us \<subseteq> set ?us" for us
    using that some by (induction us) (auto simp: revealed_in_def List.map_filter_simps)
  have legacy: "legacy_predictions ?b ?rid = preds" "revealed_in ?b ?rid ?us = preds"
    using rev[of ?us] by (simp_all add: legacy_predictions_def revealed_in_def preds_def)
  let ?ws = "nearest fp preds" and ?near = "is_nearest ?b ?rid fp (least_distance fp preds)"
  have users: "\<forall>u p. b_predictions ?b (?rid, u) = Some p \<longrightarrow> pp_user p = u"
    using contract_okD(5)[OF ok(1)] by (auto simp: stakes_ok_def)
  have near: "set (map pp_user ?ws) = {u \<in> set ?us. ?near u}"
    using nearest_users[OF users, of fp ?us] unfolding legacy(2) by simp
  show ?thesis
  proof (cases "?us = []")
    case True
    then show ?thesis by (simp add: resolve_precision_legacy_def resolve_precision_mode_def members_participants legacy preds_def)
  next
    case False
    then have ne: "preds \<noteq> []" by (simp add: preds_def)
    then have ws: "?ws \<noteq> []"
    proof -
      have "Min (distance fp ` set preds) \<in> distance fp ` set preds" using ne by simp
      then obtain q where "q \<in> set preds" "Min (distance fp ` set preds) = distance fp q" by (rule imageE) simp
      then have "q \<in> set preds" "least_distance fp preds = Some (distance fp q)" using ne by (simp_all add: least_distance_def)
      then show ?thesis by (auto simp: nearest_def filter_empty_conv)
    qed
    have amounts: "map (pp_amount \<circ> pred) ?us = map pp_amount preds" by (simp add: preds_def)
    note scan = scan_revealed[OF some, where sc = empty_scan and fp = fp, unfolded amounts]
    show ?thesis
    proof (cases "sum_stakes (map pp_amount preds) 0")
      case (Inl er)
      then show ?thesis using scan ne False
        by (simp add: resolve_precision_legacy_def resolve_precision_mode_def members_participants legacy legacy_scan Let_def empty_scan_def)
    next
      case (Inr pot)
      then obtain sc where sc: "fold_res (scan_step s ?rid fp) ?us empty_scan = Inr sc" "sc_pot sc = pot"
        "sc_prices sc = map (pp_price \<circ> pred) ?us" "sc_revealed sc = map (\<lambda>_. True) ?us"
        using scan by (auto simp: empty_scan_def)
      note res = scan_result[OF sc(1), unfolded legacy(2)]
      have loser: "note_loser ?rid sc x t = legacy_loser ?rid ?ws (pred (snd x)) t" if x: "x \<in> set (enumerate 0 ?us)" for x t
      proof -
        obtain i where i: "x = (i, ?us ! i)" "i < length ?us" using x by (intro that[of "fst x"]) (auto simp: in_set_enumerate_eq intro: prod_eqI)
        have mem: "?us ! i \<in> set ?us" by (rule nth_mem[OF i(2)])
        have p: "pp_user (pred (?us ! i)) = ?us ! i" "precision_amount s ?rid (?us ! i) = pp_amount (pred (?us ! i))"
          using some mem users by (auto simp: precision_amount_def)
        have win: "list_ex (\<lambda>w. pp_user w = ?us ! i) ?ws = ?near (?us ! i)"
        proof -
          have "list_ex (\<lambda>w. pp_user w = ?us ! i) ?ws \<longleftrightarrow> ?us ! i \<in> set (map pp_user ?ws)" by (rule list_ex_image)
          then show ?thesis using mem unfolding near by blast
        qed
        show ?thesis using i res sc(3,4) p win
          by (simp add: note_loser_def legacy_loser_def index_or_trap_def)
      qed
      have "fold_res (note_loser ?rid sc) (enumerate 0 ?us) t = fold_res (legacy_loser ?rid ?ws) preds t" for t
      proof -
        have "map pred (map snd (enumerate 0 ?us)) = preds" by (simp only: preds_def map_snd_enumerate)
        then have "preds = map (\<lambda>x. pred (snd x)) (enumerate 0 ?us)" by (simp only: map_map comp_def)
        then have "fold_res (legacy_loser ?rid ?ws) preds t = fold_res (\<lambda>x. legacy_loser ?rid ?ws (pred (snd x))) (enumerate 0 ?us) t"
          by (simp only: fold_res_map)
        then show ?thesis using fold_res_cong_inv[where P = "\<lambda>_. True", OF loser] by simp
      qed
      then show ?thesis using Inr sc res ne ws False
        by (simp add: resolve_precision_legacy_def resolve_precision_mode_def members_participants legacy legacy_scan Let_def)
    qed
  qed
qed

section \<open>Properties\<close>

text \<open>The legacy settlement of an UpDown round is the indexed one.  For the active round of a contract
  whose invariant holds, the legacy refunds and the legacy winnings of either side, on the map
  that a migration builds from the indexed positions, return the same result: the same store with
  the same credits, statistics, outcomes and events, the same fee, or the same error.\<close>

theorem legacy_updown_agrees:
  assumes "contract_ok s" "b_active (s_book s) = Some r" "r_mode r = UpDown"
  shows "record_refunds_legacy e (r_id r) (legacy_positions (s_book s) (r_id r)) s =
           record_refunds_indexed e (r_id r) 0 (sort_addresses (members (s_book s) (r_id r))) s \<and>
         record_winnings_legacy e (r_id r) (legacy_positions (s_book s) (r_id r)) side (pool_of r side) (losing_pool_of r side) s =
           record_winnings_indexed e (r_id r) (sort_addresses (members (s_book s) (r_id r))) side (pool_of r side) (losing_pool_of r side) s"
proof -
  note ok = active_okD(1)[OF contract_okD(2)[OF assms(1)] assms(2)]
  have "0 \<le> pool_of r side" "0 \<le> losing_pool_of r side"
    using ok assms(3) side_pool_nonneg[OF contract_okD(5)[OF assms(1)]]
    by (auto simp: round_ok_def pool_of_def losing_pool_of_def split: bet_side.split)
  then show ?thesis using legacy_refunds_agree[OF ok assms(3)] legacy_winnings_agree[OF assms(1) ok assms(3)] by simp
qed

theorem legacy_updown_agrees_witness:
  "legacy_positions (s_book two_bets) 1 = [(5, \<lparr>pos_amount = 300, pos_side = Up\<rparr>), (6, \<lparr>pos_amount = 200, pos_side = Down\<rparr>)] \<and>
   record_winnings_legacy (sample_env 30 60 []) 1 (legacy_positions (s_book two_bets) 1) Up 300 200 two_bets =
     record_winnings_indexed (sample_env 30 60 []) 1 [5, 6] Up 300 200 two_bets"
proof -
  have us: "sort_addresses (members (s_book two_bets) 1) = [5, 6]"
    by (simp add: two_bets_book sort_addresses_def del: One_nat_def)
  have "legacy_positions (s_book two_bets) 1 = [(5, \<lparr>pos_amount = 300, pos_side = Up\<rparr>), (6, \<lparr>pos_amount = 200, pos_side = Down\<rparr>)]"
    unfolding legacy_positions_def us by (simp add: two_bets_book List.map_filter_simps del: One_nat_def)
  moreover have "record_winnings_legacy (sample_env 30 60 []) 1 (legacy_positions (s_book two_bets) 1) Up 300 200 two_bets =
     record_winnings_indexed (sample_env 30 60 []) 1 [5, 6] Up 300 200 two_bets"
    using legacy_updown_agrees[OF two_bets_ok two_bets_book(1,11), of "sample_env 30 60 []" Up]
    by (simp only: two_bets_book us pool_of_def losing_pool_of_def bet_side.case us[unfolded two_bets_book(2)])
  ultimately show ?thesis by blast
qed

text \<open>The legacy settlement of a Precision round is the indexed one when everybody has revealed.  Legacy
  maps hold predictions only, no commitments; on a round without a closed commitment the two
  functions, which scan and pay in different loops, return the same result at every price.\<close>

theorem legacy_precision_agrees_fully:
  assumes "contract_ok s" "b_active (s_book s) = Some r" "r_mode r = Precision"
    and "\<forall>u\<in>set (members (s_book s) (r_id r)). b_predictions (s_book s) (r_id r, u) \<noteq> None"
  shows "resolve_precision_legacy e (r_id r) (legacy_predictions (s_book s) (r_id r)) fp s =
     resolve_precision_mode e (r_id r) fp False s"
  by (rule legacy_precision_agrees[OF assms(1) active_okD(1)[OF contract_okD(2)[OF assms(1)] assms(2)] assms(3,4)])

definition revealed_bets :: store where
  "revealed_bets = (sample_store Precision)\<lparr>s_book := (s_book (sample_store Precision))\<lparr>
     b_predictions := [(1, 5) \<mapsto> \<lparr>pp_user = 5, pp_price = 120, pp_amount = 300\<rparr>, (1, 6) \<mapsto> \<lparr>pp_user = 6, pp_price = 160, pp_amount = 200\<rparr>],
     b_participants := [1 \<mapsto> [5, 6]]\<rparr>\<rparr>"

lemma revealed_bets_book:
  "b_active (s_book revealed_bets) = Some (sample_round Precision)" "members (s_book revealed_bets) 1 = [5, 6]"
  "b_positions (s_book revealed_bets) = Map.empty" "b_commitments (s_book revealed_bets) = Map.empty"
  "b_predictions (s_book revealed_bets) = [(1, 5) \<mapsto> \<lparr>pp_user = 5, pp_price = 120, pp_amount = 300\<rparr>, (1, 6) \<mapsto> \<lparr>pp_user = 6, pp_price = 160, pp_amount = 200\<rparr>]"
  "b_disputes (s_book revealed_bets) = Map.empty" "b_last_id (s_book revealed_bets) = Some 1"
  "b_start_ledgers (s_book revealed_bets) = [10 \<mapsto> 1]" "b_participants (s_book revealed_bets) = [1 \<mapsto> [5, 6]]"
  "r_id (sample_round Precision) = 1" "r_mode (sample_round Precision) = Precision" "r_pool_up (sample_round Precision) = 0"
  "r_pool_down (sample_round Precision) = 0" "r_start_ledger (sample_round Precision) = 10"
  by (simp_all add: revealed_bets_def sample_store_def sample_round_def empty_store_def members_def get_or_def)

lemma revealed_bets_ok: "contract_ok revealed_bets"
proof -
  have "money_ok (s_money revealed_bets)" using sample_store_ok(1)[of Precision] by (simp add: revealed_bets_def)
  moreover have "config_ok revealed_bets"
    by (simp add: revealed_bets_def sample_store_def empty_store_def config_ok_def in_range_def Let_def protocol_constants config_bounds)
  moreover have "stakes_ok (s_book revealed_bets)"
    by (auto simp: stakes_ok_def revealed_bets_book book_finite_def split: if_splits)
  moreover have "fresh_ids (s_book revealed_bets)" by (simp add: fresh_ids_def revealed_bets_book)
  moreover have "disputes_ok (s_book revealed_bets)" by (simp add: disputes_ok_def revealed_bets_book)
  moreover have "active_ok (s_book revealed_bets)"
    by (auto simp: active_ok_def round_ok_def revealed_bets_book precision_stake_def split: if_splits simp del: One_nat_def)
  ultimately show ?thesis by (simp add: contract_ok_def book_ok_def)
qed

theorem legacy_precision_agrees_fully_witness:
  "map pp_user (legacy_predictions (s_book revealed_bets) 1) = [5, 6] \<and>
   resolve_precision_legacy (sample_env 30 60 []) 1 (legacy_predictions (s_book revealed_bets) 1) 130 revealed_bets =
     resolve_precision_mode (sample_env 30 60 []) 1 130 False revealed_bets"
proof -
  have "map pp_user (legacy_predictions (s_book revealed_bets) 1) = [5, 6]"
    by (simp add: legacy_predictions_def revealed_bets_book List.map_filter_simps sort_addresses_def del: One_nat_def)
  moreover have "\<forall>u\<in>set (members (s_book revealed_bets) (r_id (sample_round Precision))).
      b_predictions (s_book revealed_bets) (r_id (sample_round Precision), u) \<noteq> None"
    by (simp add: revealed_bets_book del: One_nat_def)
  from legacy_precision_agrees_fully[OF revealed_bets_ok revealed_bets_book(1,11) this]
  have "resolve_precision_legacy (sample_env 30 60 []) 1 (legacy_predictions (s_book revealed_bets) 1) 130 revealed_bets =
     resolve_precision_mode (sample_env 30 60 []) 1 130 False revealed_bets"
    by (simp only: revealed_bets_book)
  ultimately show ?thesis by blast
qed

end
