(* ===== verification/Replay_Precision.thy ===== *)
theory Replay_Precision
  imports Replay Legacy
begin

text \<open>
  The replay of Precision rounds: the engine (\<open>replay-engine/src/engine.rs\<close>) works on the entries of a
  transcript, by index, with the pure functions of \<open>settlement_math.rs\<close>; the settlement
  (\<open>contracts/src/settlement.rs\<close>) scans the stored predictions, by address, with a split of its own.
  The lemmas relate the two data representations, then the two computations.
\<close>

section \<open>The two equal splits\<close>

lemma equal_splits_agree:
  assumes calc: "calculate_precision_payouts Equal stakes d = Inr ps" and d: "0 < d" "in_i128 d" "stakes \<noteq> []"
  shows "split_pot_among_winners d (length stakes) = Inr ps"
proof -
  let ?n = "length stakes"
  have n: "0 < ?n" using d(3) by simp
  obtain qs where qs: "split_pot_among_winners d ?n = Inr qs" using split_equal_total[OF d(1,2) n] by blast
  obtain rs fin where base: "precision_base Equal stakes d = Inr (rs, fin)"
    and ps: "ps = (if rs \<noteq> [] then rs[0 := rs ! 0 + (d - fin)] else rs)"
    by (rule calculate_shape[OF calc d(3)])
  have rs: "equal_payouts (d div int ?n) ?n 0 = Inr (rs, fin)"
    using base d(1,3) by (auto simp: precision_base_def and_then_Inr or_trap_Inr checked_div_Some sdiv_nonneg)
  have "rs = replicate ?n (d div int ?n)" "fin = int ?n * (d div int ?n)" using equal_payouts_Inr[OF rs] by simp_all
  moreover have "d div int ?n + (d - int ?n * (d div int ?n)) = d div int ?n + d mod int ?n"
    by (simp add: minus_mult_div_eq_mod)
  ultimately have "ps = (d div int ?n + d mod int ?n) # replicate (?n - 1) (d div int ?n)"
    using n ps by (cases stakes) simp_all
  then show ?thesis using qs split_equal_Inr[OF d(1) n qs] by simp
qed

lemma precision_fees_agree:
  assumes "calculate_protocol_fee_precision bps FeeOnPot pot ws = Inr (d, f)" "in_i128 pot"
  shows "compute_precision_fee pot bps = Inr (d, f)"
  using assms
  by (auto simp: calculate_protocol_fee_precision_def compute_precision_fee_def and_then_Inr ok_or_Inr checked_sub_Some
      checked_mul_Some Let_def split: option.splits if_splits)

section \<open>The two scans\<close>

lemma map_filter_upt: "List.map_filter f xs = map (\<lambda>i. the (f (xs ! i))) (filter (\<lambda>i. f (xs ! i) \<noteq> None) [0..<length xs])"
proof -
  have "List.map_filter f (map ((!) xs) is) = map (\<lambda>i. the (f (xs ! i))) (filter (\<lambda>i. f (xs ! i) \<noteq> None) is)" for "is"
    by (induction "is") (auto simp: List.map_filter_simps split: option.splits)
  from this[of "[0..<length xs]"] show ?thesis by (simp add: map_nth)
qed

lemma nearest_map:
  "nearest fp (map g is) = map g (filter (\<lambda>i. Some (distance fp (g i)) = least_distance fp (map g is)) is)"
  by (simp add: nearest_def filter_map comp_def)

text \<open>The share of one index: the pairs of winners and payouts hold it at most once.\<close>

lemma zip_share:
  assumes "distinct is" "length ps = length is"
  shows "sum_list (map snd (filter (\<lambda>(j, x). j = i) (zip is ps))) = (case position_of i is of Some k \<Rightarrow> ps ! k | None \<Rightarrow> (0 :: int))"
  using assms
proof (induction "is" arbitrary: ps)
  case (Cons j js)
  then obtain x xs where ps: "ps = x # xs" "length xs = length js" by (cases ps) auto
  have none: "filter (\<lambda>(k, x). k = j) (zip js xs) = []"
    using Cons.prems(1) by (auto simp: filter_empty_conv dest: set_zip_leftD)
  show ?case
  proof (cases "j = i")
    case True
    then show ?thesis using none ps by simp
  next
    case False
    then show ?thesis using Cons.IH[OF _ ps(2)] Cons.prems(1) ps by (simp split: option.split)
  qed
qed simp

definition precision_rows :: "store \<Rightarrow> round \<Rightarrow> precision_entry list" where
  "precision_rows s r = map precision_row (map (recorded_row s (r_id r)) (enumerate 0 (sort_addresses (members (s_book s) (r_id r)))))"

lemma precision_rows_nth:
  assumes "round_ok (s_book s) r" "r_mode r = Precision" "i < length (members (s_book s) (r_id r))"
  shows "precision_rows s r ! i =
     (let u = sort_addresses (members (s_book s) (r_id r)) ! i; p = b_predictions (s_book s) (r_id r, u)
      in \<lparr>pe_index = i, pe_price = (case p of Some q \<Rightarrow> pp_price q | None \<Rightarrow> 0),
          pe_amount = get_or (precision_stake (s_book s)) 0 (r_id r, u), pe_revealed = (p \<noteq> None)\<rparr>)"
  using assms user_stake_mode(2)[OF assms(1,2)]
  by (simp add: precision_rows_def nth_enumerate_eq precision_row_def recorded_row_def Let_def)

lemma precision_rows_index: "map pe_index (precision_rows s r) = [0..<length (members (s_book s) (r_id r))]"
  by (simp add: precision_rows_def precision_row_def recorded_row_def comp_def case_prod_unfold)

text \<open>The winning indices of the engine are those of the participants whose predictions the settlement
  finds nearest, in the same order.\<close>

lemma engine_winners:
  fixes fp :: nat
  assumes ok: "round_ok (s_book s) r" "r_mode r = Precision"
  defines "us \<equiv> sort_addresses (members (s_book s) (r_id r))"
    and "winning \<equiv> pw_winners (find_precision_winners_with_policy (precision_rows s r) fp default_scoring)"
  shows "nearest fp (round_entries (s_book s) (r_id r)) = map (\<lambda>i. the (b_predictions (s_book s) (r_id r, us ! i))) winning"
    "distinct winning" "\<forall>i\<in>set winning. i < length us \<and> b_predictions (s_book s) (r_id r, us ! i) \<noteq> None"
proof -
  let ?es = "precision_rows s r" and ?n = "length us"
  let ?g = "\<lambda>i. b_predictions (s_book s) (r_id r, us ! i)"
  let ?rev = "filter (\<lambda>i. ?g i \<noteq> None) [0..<?n]"
  have len: "length ?es = ?n" by (simp add: precision_rows_def us_def)
  have es: "?es = map ((!) ?es) [0..<?n]" by (metis len map_nth)
  have row: "pe_index (?es ! i) = i" "pe_revealed (?es ! i) \<longleftrightarrow> ?g i \<noteq> None"
    "?g i \<noteq> None \<Longrightarrow> entry_score AbsoluteDistance fp (?es ! i) = distance fp (the (?g i))" if "i < ?n" for i
    using precision_rows_nth[OF ok, of i] that
    by (auto simp: us_def Let_def entry_score_def distance_def split: option.splits)
  have revealed: "filter pe_revealed ?es = map ((!) ?es) ?rev"
  proof -
    have "filter pe_revealed (map ((!) ?es) [0..<?n]) = map ((!) ?es) (filter (pe_revealed \<circ> (!) ?es) [0..<?n])"
      by (simp add: filter_map)
    also have "filter (pe_revealed \<circ> (!) ?es) [0..<?n] = ?rev" by (rule filter_cong) (auto simp: row(2))
    finally show ?thesis using es by simp
  qed
  have entries: "round_entries (s_book s) (r_id r) = map (\<lambda>i. the (?g i)) ?rev"
    unfolding round_entries_def revealed_in_def us_def by (rule map_filter_upt)
  have scores: "entry_score AbsoluteDistance fp ` {e \<in> set ?es. pe_revealed e} = distance fp ` set (map (\<lambda>i. the (?g i)) ?rev)"
  proof -
    have "{e \<in> set ?es. pe_revealed e} = (!) ?es ` set ?rev"
      using arg_cong[OF revealed, of set] by (simp only: set_filter set_map)
    then have "entry_score AbsoluteDistance fp ` {e \<in> set ?es. pe_revealed e} = (\<lambda>i. entry_score AbsoluteDistance fp (?es ! i)) ` set ?rev"
      by (simp add: image_comp comp_def)
    also have "\<dots> = (\<lambda>i. distance fp (the (?g i))) ` set ?rev" by (rule image_cong) (auto simp: row(3))
    finally show ?thesis by (simp add: image_comp comp_def)
  qed
  have winning: "winning = filter (\<lambda>i. Some (distance fp (the (?g i))) = least_distance fp (map (\<lambda>i. the (?g i)) ?rev)) ?rev"
  proof -
    let ?m = "Min (entry_score AbsoluteDistance fp ` {e \<in> set ?es. pe_revealed e})"
    have "winning = map pe_index (filter (\<lambda>e. entry_score AbsoluteDistance fp e = ?m) (filter pe_revealed ?es))"
      by (simp add: winning_def pw_winners_eq default_scoring_def wins_with_def)
    also have "\<dots> = map (\<lambda>i. pe_index (?es ! i)) (filter (\<lambda>i. entry_score AbsoluteDistance fp (?es ! i) = ?m) ?rev)"
      unfolding revealed by (simp add: filter_map comp_def)
    also have "\<dots> = map (\<lambda>i. i) (filter (\<lambda>i. distance fp (the (?g i)) = ?m) ?rev)"
    proof (rule map_cong)
      show "filter (\<lambda>i. entry_score AbsoluteDistance fp (?es ! i) = ?m) ?rev = filter (\<lambda>i. distance fp (the (?g i)) = ?m) ?rev"
        by (rule filter_cong) (auto simp: row(3))
    qed (auto simp: row(1))
    also have "\<dots> = filter (\<lambda>i. Some (distance fp (the (?g i))) = least_distance fp (map (\<lambda>i. the (?g i)) ?rev)) ?rev"
      by (cases "?rev = []") (simp_all add: least_distance_def scores)
    finally show ?thesis .
  qed
  show "nearest fp (round_entries (s_book s) (r_id r)) = map (\<lambda>i. the (?g i)) winning"
    unfolding entries nearest_map winning ..
  show "distinct winning" "\<forall>i\<in>set winning. i < length us \<and> b_predictions (s_book s) (r_id r, us ! i) \<noteq> None"
    by (auto simp: winning)
qed

section \<open>The pot and the fee\<close>

lemma scan_pot_in_range:
  assumes "fold_res (scan_step s rid fp) us empty_scan = Inr sc"
  shows "in_i128 (sc_pot sc)"
proof (cases us rule: rev_cases)
  case Nil
  then show ?thesis using assms by (auto simp: empty_scan_def in_i128_def)
next
  case (snoc vs v)
  then obtain t where "scan_step s rid fp v t = Inr sc" using assms by (auto simp: fold_res_append and_then_Inr)
  then show ?thesis by (auto simp: scan_step_def and_then_Inr payout_add_Inr Let_def split: option.splits if_splits)
qed

lemma precision_fee_taken:
  assumes run: "resolve_precision_mode e rid fp False s = Inr ((fee, pot), s')"
    and m: "money_ok (s_money s)" "fee_ok s" "stakes_ok (s_book s)"
    and won: "nearest fp (round_entries (s_book s) rid) \<noteq> []" and pos: "0 < precision_pot (s_book s) rid"
  shows "\<exists>d w. calculate_protocol_fee_precision (c_fee_bps (s_config s)) (read_fee_model s) (precision_pot (s_book s) rid) w = Inr (d, fee) \<and>
       d = precision_pot (s_book s) rid - fee \<and> 0 < d"
proof -
  let ?b = "s_book s" and ?us = "sort_addresses (members (s_book s) rid)"
  let ?ws = "nearest fp (round_entries ?b rid)" and ?pot = "precision_pot (s_book s) rid"
  have ne: "?us \<noteq> []"
    using won by (auto simp: round_entries_def revealed_in_def List.map_filter_def sort_addresses_def)
  obtain sc where scan: "fold_res (scan_step s rid fp) ?us empty_scan = Inr sc"
    using run ne by (auto simp: resolve_precision_mode_def members_participants Let_def and_then_Inr)
  have potsum: "sum_list (map (precision_amount s rid) ?us) = ?pot"
    by (simp add: precision_pot_def sum_sort_addresses precision_amount_stake[abs_def])
  then have sc: "sc_winners sc = ?ws" "sc_pot sc = ?pot" using scan_result[OF scan] by (simp_all add: round_entries_def)
  obtain w pool s1 where w: "sum_stakes (map pp_amount ?ws) 0 = Inr w"
    and fee: "apply_protocol_fee_precision rid ?pot w s = Inr ((pool, fee), s1)"
    using run ne scan sc won pos by (auto simp: resolve_precision_mode_def members_participants Let_def and_then_Inr split: prod.splits)
  have "\<forall>x\<in>set (map pp_amount ?ws). 0 \<le> x"
    using m(3) set_revealed_in[of ?b rid ?us] by (auto simp: nearest_def round_entries_def stakes_ok_def less_imp_le)
  then have w0: "0 \<le> w" using sum_stakes_Inr[OF w] sum_list_nonneg[of "map pp_amount ?ws"] by (simp only: add_0)
  have "calculate_protocol_fee_precision (c_fee_bps (s_config s)) (read_fee_model s) ?pot w = Inr (pool, fee)"
    using fee by (auto simp: apply_protocol_fee_precision_def and_then_Inr Let_def)
  moreover have "pool = ?pot - fee" using apply_fee_precision_Inr(1)[OF fee m(1,2) less_imp_le[OF pos] w0] by simp
  moreover have "0 < pool" by (rule apply_fee_precision_funds(4)[OF fee m(1,2) pos w0])
  ultimately show "\<exists>d w. calculate_protocol_fee_precision (c_fee_bps (s_config s)) (read_fee_model s) ?pot w = Inr (d, fee) \<and>
      d = ?pot - fee \<and> 0 < d" by blast
qed

lemma precision_pot_pos:
  assumes "stakes_ok (s_book s)" "round_ok (s_book s) r" "r_mode r = Precision" "members (s_book s) (r_id r) \<noteq> []"
  shows "0 < precision_pot (s_book s) (r_id r)"
proof -
  let ?stake = "\<lambda>u. get_or (precision_stake (s_book s)) 0 (r_id r, u)"
  obtain u where u: "u \<in> set (members (s_book s) (r_id r))" using assms(4) by (meson list.set_sel(1))
  then obtain x where x: "precision_stake (s_book s) (r_id r, u) = Some x" using assms(2,3) by (auto simp: round_ok_def)
  have "0 < x" using assms(1) x by (auto simp: precision_stake_def stakes_ok_def split: option.splits)
  then have "0 < ?stake u" using x by (simp add: get_or_def)
  also have "?stake u \<le> precision_pot (s_book s) (r_id r)"
    unfolding precision_pot_def using u precision_stake_nonneg[OF assms(1)] by (intro member_le_sum_list) auto
  finally show ?thesis .
qed

lemma precision_pot_range:
  assumes "resolve_precision_mode e rid fp False s = Inr ((fee, pot), s')" "members (s_book s) rid \<noteq> []"
  shows "in_i128 (precision_pot (s_book s) rid)"
proof -
  let ?us = "sort_addresses (members (s_book s) rid)"
  have "?us \<noteq> []" using assms(2) by (metis length_0_conv length_sort_addresses)
  then obtain sc where scan: "fold_res (scan_step s rid fp) ?us empty_scan = Inr sc"
    using assms(1) by (auto simp: resolve_precision_mode_def members_participants Let_def and_then_Inr)
  have "sc_pot sc = precision_pot (s_book s) rid"
    using scan_result[OF scan] by (simp add: precision_pot_def sum_sort_addresses precision_amount_stake[abs_def])
  then show ?thesis using scan_pot_in_range[OF scan] by simp
qed

lemma checked_sum:
  assumes "0 \<le> a" "\<forall>e\<in>set es. 0 \<le> pe_amount e" "in_i128 (a + sum_list (map pe_amount es))"
  shows "fold_res (\<lambda>e pot. or_trap (checked_add pot (pe_amount e))) es a = Inr (a + sum_list (map pe_amount es))"
  using assms
proof (induction es arbitrary: a)
  case (Cons e es)
  have "0 \<le> sum_list (map pe_amount es)" using Cons.prems(2) by (intro sum_list_nonneg) auto
  then have "in_i128 (a + pe_amount e)"
    using Cons.prems in_i128_between[OF in_i128_0 Cons.prems(3), of "a + pe_amount e"] by simp
  then show ?case using Cons by (simp add: checked_add_def add.assoc)
qed simp

lemma precision_rows_pot:
  assumes "round_ok (s_book s) r" "r_mode r = Precision" "stakes_ok (s_book s)"
  shows "sum_list (map pe_amount (precision_rows s r)) = precision_pot (s_book s) (r_id r)" "\<forall>e\<in>set (precision_rows s r). 0 \<le> pe_amount e"
proof -
  let ?us = "sort_addresses (members (s_book s) (r_id r))"
  have amounts: "map pe_amount (precision_rows s r) = map (\<lambda>u. get_or (precision_stake (s_book s)) 0 (r_id r, u)) ?us"
    by (rule nth_equalityI) (simp add: precision_rows_def, simp add: precision_rows_def precision_row_def recorded_row_def
        nth_enumerate_eq user_stake_mode(2)[OF assms(1,2)])
  show "sum_list (map pe_amount (precision_rows s r)) = precision_pot (s_book s) (r_id r)"
    unfolding amounts by (simp add: precision_pot_def sum_sort_addresses)
  have "\<forall>x\<in>set (map pe_amount (precision_rows s r)). 0 \<le> x"
    unfolding amounts using precision_stake_nonneg[OF assms(3)] by auto
  then show "\<forall>e\<in>set (precision_rows s r). 0 \<le> pe_amount e" by auto
qed

section \<open>The two computations\<close>

lemma map_res_runs: "(\<And>x. x \<in> set xs \<Longrightarrow> f x = Inr (g x)) \<Longrightarrow> map_res f xs = Inr (map g xs)"
  by (simp add: map_res_Inr)

lemma won_share:
  assumes users: "\<And>i. i \<in> set is \<Longrightarrow> pp_user (g i) = us ! i" and us: "distinct us" "\<forall>j\<in>set is. j < length us" "i < length us"
    and ps: "distinct is" "length ps = length is"
  shows "sum_list (map snd (filter (\<lambda>(w, x). pp_user w = us ! i) (zip (map g is) ps))) =
     (case position_of i is of Some k \<Rightarrow> ps ! k | None \<Rightarrow> (0 :: int))"
proof -
  have "map snd (filter (\<lambda>(w, x). pp_user w = us ! i) (zip (map g is) ps)) =
      map snd (filter (\<lambda>(j, x). pp_user (g j) = us ! i) (zip is ps))"
    by (simp add: zip_map1 filter_map comp_def case_prod_unfold)
  also have "filter (\<lambda>(j, x). pp_user (g j) = us ! i) (zip is ps) = filter (\<lambda>(j, x). j = i) (zip is ps)"
    using us by (intro filter_cong) (auto dest!: set_zip_leftD simp: users nth_eq_iff_index_eq)
  finally show ?thesis using zip_share[OF ps] by simp
qed

lemma replay_precision_pays:
  assumes run: "resolve_precision_mode e (r_id r) fp False s = Inr ((fee, pot), s')"
    and m: "money_ok (s_money s)" "fee_ok s" "stakes_ok (s_book s)" and ok: "round_ok (s_book s) r" "r_mode r = Precision"
    and some: "members (s_book s) (r_id r) \<noteq> []"
    and model: "read_fee_model s = FeeOnPot" and due: "precision_due Equal (s_book s) (r_id r) fp fee due"
  shows "\<exists>xs. compute_precision_payouts (precision_rows s r) fp (c_fee_bps (s_config s)) = Inr xs \<and>
     map px_index xs = [0..<length (members (s_book s) (r_id r))] \<and>
     (\<forall>i<length (members (s_book s) (r_id r)). px_payout (xs ! i) = due (sort_addresses (members (s_book s) (r_id r)) ! i)) \<and>
     (if list_all px_is_refund xs then fee = 0
      else \<exists>d. compute_precision_fee (precision_pot (s_book s) (r_id r)) (c_fee_bps (s_config s)) = Inr (d, fee)) \<and>
     in_i128 (precision_pot (s_book s) (r_id r))"
proof -
  let ?b = "s_book s" and ?rid = "r_id r" and ?bps = "c_fee_bps (s_config s)" and ?es = "precision_rows s r"
  let ?us = "sort_addresses (members ?b ?rid)" and ?pot = "precision_pot (s_book s) (r_id r)"
  let ?found = "find_precision_winners_with_policy ?es fp default_scoring" and ?ws = "nearest fp (round_entries ?b ?rid)"
  let ?won = "pw_winners ?found"
  note eng = engine_winners[OF ok, of fp] and rows = precision_rows_pot[OF ok m(3)]
  have len: "length ?es = length (members ?b ?rid)" by (simp add: precision_rows_def)
  have pot: "0 < ?pot" "in_i128 ?pot"
    using precision_pot_pos[OF m(3) ok some] precision_pot_range[OF run some] by simp_all
  have tot: "pw_total_pot ?found = ?pot" using winners_pot total_pot_precision_exact[of "map pe_amount ?es"] rows pot(2) by simp
  have none_iff: "?ws = [] \<longleftrightarrow> ?won = []" using eng(1) by simp
  show ?thesis
  proof (cases "?ws = []")
    case True
    then have "due = (\<lambda>u. get_or (precision_stake ?b) 0 (?rid, u))" "fee = 0" using due by (simp_all add: precision_due_def)
    moreover have "compute_precision_payouts ?es fp ?bps = Inr (map (\<lambda>e. precision_entry_payout e (pe_amount e) False True) ?es)"
      using True none_iff tot pot(1) by (simp add: compute_precision_payouts_def compute_precision_payouts_with_policy_def)
    moreover have "map px_index (map (\<lambda>e. precision_entry_payout e (pe_amount e) False True) ?es) = map pe_index ?es"
      by (simp add: precision_entry_payout_def)
    ultimately show ?thesis using precision_rows_nth[OF ok] precision_rows_index len pot(2)
      by (auto simp: precision_entry_payout_def list_all_iff Let_def)
  next
    case False
    then have won: "?won \<noteq> []" using none_iff by simp
    obtain d w where fee: "calculate_protocol_fee_precision ?bps (read_fee_model s) ?pot w = Inr (d, fee)" "d = ?pot - fee" "0 < d"
      using precision_fee_taken[OF run m False pot(1)] by blast
    have cfee: "compute_precision_fee ?pot ?bps = Inr (d, fee)" using precision_fees_agree fee(1) model pot(2) by simp
    obtain ps where ps: "calculate_precision_payouts Equal (map pp_amount ?ws) d = Inr ps" "length ps = length ?ws"
      and share: "due = (\<lambda>u. sum_list (map snd (filter (\<lambda>(w, x). pp_user w = u) (zip ?ws ps))))"
      using due False fee(2) by (auto simp: precision_due_def Let_def)
    have plen: "length ps = length ?won" using ps(2) arg_cong[OF eng(1), of length] by simp
    have "0 \<le> fee" by (rule resolve_precision_Inr(5)[OF run m ok refl])
    then have d: "in_i128 d" using in_i128_between[OF in_i128_0 pot(2), of d] fee(2,3) by simp
    have split: "split_pot_among_winners d (length ?won) = Inr ps"
      using equal_splits_agree[OF ps(1) fee(3) d] False arg_cong[OF eng(1), of length] by simp
    let ?row = "\<lambda>e. case position_of (pe_index e) ?won of
        Some p \<Rightarrow> precision_entry_payout e (ps ! p) True False | None \<Rightarrow> precision_entry_payout e 0 False False"
    have "map_res (\<lambda>e. case position_of (pe_index e) ?won of
            Some p \<Rightarrow> and_then (index_or_trap ps p) (\<lambda>payout. Inr (precision_entry_payout e payout True False))
          | None \<Rightarrow> Inr (precision_entry_payout e 0 False False)) ?es = Inr (map ?row ?es)"
      by (rule map_res_runs) (auto simp: index_or_trap_def plen dest: position_of_Some split: option.split)
    then have comp: "compute_precision_payouts ?es fp ?bps = Inr (map ?row ?es)"
      using won tot pot(1) cfee split by (simp add: compute_precision_payouts_def compute_precision_payouts_with_policy_def)
    have pay: "px_payout (map ?row ?es ! i) = due (?us ! i)" if i: "i < length (members ?b ?rid)" for i
    proof -
      have "px_payout (map ?row ?es ! i) = (case position_of i ?won of Some k \<Rightarrow> ps ! k | None \<Rightarrow> 0)"
        using i len precision_rows_nth[OF ok i] by (simp add: precision_entry_payout_def Let_def split: option.split)
      also have "\<dots> = due (?us ! i)"
        unfolding share eng(1)
      proof (rule won_share[symmetric])
        show "pp_user (the (b_predictions ?b (?rid, ?us ! j))) = ?us ! j" if "j \<in> set ?won" for j
          using eng(3) that m(3) by (auto simp: stakes_ok_def)
      qed (use eng(2,3) plen i ok in \<open>auto simp: round_ok_def\<close>)
      finally show ?thesis .
    qed
    have "\<not> list_all px_is_refund (map ?row ?es)"
      using some len by (cases ?es) (auto simp: precision_entry_payout_def split: option.split)
    moreover have "map px_index (map ?row ?es) = map pe_index ?es"
      by (auto simp: precision_entry_payout_def split: option.split)
    ultimately show ?thesis using comp pay cfee precision_rows_index pot(2) by auto
  qed
qed

lemma revealed_bets_run: "\<exists>s'. resolve_precision_mode (sample_env 30 60 []) 1 130 False revealed_bets = Inr ((0, 500), s')"
proof -
  let ?e = "sample_env 30 60 []"
  let ?w = "\<lparr>pp_user = 5, pp_price = 120, pp_amount = 300\<rparr>"
  let ?sc = "\<lparr>sc_min_diff = Some 10, sc_winners = [?w], sc_pot = 500, sc_amounts = [300, 200], sc_prices = [120, 160],
               sc_revealed = [True, True], sc_mask = [True, False]\<rparr>"
  have fresh: "lifetime_user_stats revealed_bets v = no_stats" "season_user_stats revealed_bets n v = no_stats" for v n
    by (simp_all add: revealed_bets_def sample_store_def empty_store_def lifetime_user_stats_def season_user_stats_def get_or_def)
  have config: "c_fee_bps (s_config revealed_bets) = None" "c_payout_policy (s_config revealed_bets) = None"
    by (simp_all add: revealed_bets_def sample_store_def empty_store_def)
  obtain s1 where s1: "accumulate_pending ?e 5 500 revealed_bets = Inr s1"
    by (simp add: accumulate_pending_def revealed_bets_def sample_store_def empty_store_def pending_of_def get_or_def payout_add_def
        checked_add_def in_i128_def)
  have b1: "s_board s1 = s_board revealed_bets" using s1 by (auto simp: accumulate_pending_Inr)
  obtain s2 where s2: "record_result True 5 s1 = Inr s2"
    using record_result_runs[of s1 5 True] fresh b1 by (auto simp: lifetime_user_stats_def season_user_stats_def current_season_id_def)
  let ?p = "persist_user_outcome 1 1 5 2 120 300 500 Win s2"
  let ?s3 = "emit (''outcome'', ''loss'') [VAddr 6, VNat 1, VNat 1, VInt 200, VNat 0, VNat 160] ?p"
  have "s_board ?s3 = s_board s2" by simp
  then have "lifetime_user_stats ?s3 6 = no_stats" "season_user_stats ?s3 n 6 = no_stats" for n
    using record_result_scores(1,2)[OF s2, of 6] fresh b1 by (simp_all add: lifetime_user_stats_def season_user_stats_def)
  then obtain s4 where s4: "record_result False 6 ?s3 = Inr s4" using record_result_runs[of ?s3 6 False] by blast
  have scan: "fold_res (scan_step revealed_bets 1 130) [5, 6] empty_scan = Inr ?sc"
    by (simp add: scan_step_def empty_scan_def revealed_bets_book precision_amount_def payout_add_def checked_add_def in_i128_def
        uchecked_sub_def Let_def del: One_nat_def)
  have "pay_winner ?e 1 False (?w, 500) revealed_bets = Inr ?p"
    using s1 s2 by (simp add: pay_winner_def record_result_def del: One_nat_def)
  moreover have "note_loser 1 ?sc (0, 5) ?p = Inr ?p" by (simp add: note_loser_def)
  moreover have "note_loser 1 ?sc (Suc 0, 6) ?p = Inr (persist_user_outcome 1 1 6 2 160 200 0 Loss s4)"
    using s4 by (simp add: note_loser_def index_or_trap_def record_result_def Let_def)
  moreover have "sort_addresses [5, 6 :: address] = [5, 6]" by (simp add: sort_addresses_def)
  moreover have "calculate_precision_payouts Equal [300] 500 = Inr [500]" by code_simp
  ultimately show ?thesis
    using scan by (simp add: resolve_precision_mode_def members_participants revealed_bets_book apply_protocol_fee_precision_def
        calculate_protocol_fee_precision_def read_precision_payout_policy_def config payout_add_def checked_add_def in_i128_def Let_def
        enumerate_eq_zip del: One_nat_def)
qed

lemma settlement_runs_revealed_bets:
  obtains s' where "complete_settlement (sample_env 30 60 []) (sample_round Precision) 130 None revealed_bets = Inr ((0, 2), s')"
proof -
  note ok = active_okD(1)[OF contract_okD(2)[OF revealed_bets_ok] revealed_bets_book(1)]
  obtain u where u: "resolve_precision_mode (sample_env 30 60 []) 1 130 False revealed_bets = Inr ((0, 500), u)"
    using revealed_bets_run by blast
  have "s_book u = s_book revealed_bets"
    using resolve_precision_Inr(1)[OF u contract_okD(1,4,5)[OF revealed_bets_ok] ok revealed_bets_book(11)] revealed_bets_book(10) by simp
  then show thesis
    using u by (auto intro!: that simp: complete_settlement_def revealed_bets_book members_participants Let_def simp del: One_nat_def)
qed



end
