(* ===== verification/Legacy_Maps.thy ===== *)
theory Legacy_Maps
  imports Legacy
begin

text \<open>
  The reads of the oldest storage layout: \<open>Positions\<close>, \<open>UpDownPositions\<close> and \<open>PrecisionPositions\<close>, maps
  that nothing writes any more but that a deployment migrated from that layout may still hold.
  Queries (\<open>contracts/src/queries.rs\<close>) fall back to them when the indexed entry is absent, settlement
  (\<open>contracts/src/settlement.rs\<close>, under the feature \<open>legacy-map-settlement\<close>) when the round has no indexed
  participants.  The functions are written out with the maps as an argument; with empty maps they
  are the functions of the model.  A map of the host is a list of entries in the order of its keys.
\<close>

record legacy_maps =
  lm_positions :: "(address \<times> user_position) list"
  lm_updown :: "(address \<times> user_position) list"
  lm_precision :: "(address \<times> precision_prediction) list"

definition no_maps :: legacy_maps where
  "no_maps = \<lparr>lm_positions = [], lm_updown = [], lm_precision = []\<rparr>"

section \<open>Settlement\<close>

definition one_sided_with_maps ::
  "env \<Rightarrow> round \<Rightarrow> one_sided_policy \<Rightarrow> address list \<Rightarrow> (address \<times> user_position) list option \<Rightarrow> store \<Rightarrow> (int \<times> store) res" where
  "one_sided_with_maps e r policy participants positions s =
     (let affected_side = (if r_pool_up r > 0 then 0 else if r_pool_down r > 0 then 1 else 2);
          refunds = (if participants \<noteq> [] then record_refunds_indexed e (r_id r) 0 participants s
                     else (case positions of Some pos_map \<Rightarrow> record_refunds_legacy e (r_id r) pos_map s | None \<Rightarrow> Inr s));
          both = saturating_add (r_pool_up r) (r_pool_down r)
      in and_then refunds (\<lambda>s1.
         let (refund_amount, carry_amount) = (case policy of CarryForward \<Rightarrow> (0, both) | _ \<Rightarrow> (both, 0))
         in Inr (0, emit (''pool'', ''onesided'')
                      [VNat (r_id r), VNat (one_sided_code policy), VNat affected_side, VInt refund_amount,
                       VInt carry_amount, VInt (r_pool_up r), VInt (r_pool_down r)] s1)))"

definition resolve_updown_with_maps :: "legacy_maps \<Rightarrow> env \<Rightarrow> round \<Rightarrow> nat \<Rightarrow> store \<Rightarrow> ((bool \<times> int) \<times> store) res" where
  "resolve_updown_with_maps lm e r final_price s =
     (let participants = sort_addresses (participants_of s (r_id r));
          direction = classify_price_direction (r_price_start r) final_price;
          one_sided = is_one_sided_pool (r_pool_up r) (r_pool_down r)
      in and_then
           (if one_sided then
              one_sided_with_maps e r (select_one_sided_policy r) participants
                (if participants = [] then Some (lm_updown lm) else None) s
            else if participants \<noteq> [] then
              (case direction of
                 Unchanged \<Rightarrow> and_then (record_refunds_indexed e (r_id r) 0 participants s) (\<lambda>s1. Inr (0, s1))
               | PriceUp \<Rightarrow> record_winnings_indexed e (r_id r) participants Up (r_pool_up r) (r_pool_down r) s
               | PriceDown \<Rightarrow> record_winnings_indexed e (r_id r) participants Down (r_pool_down r) (r_pool_up r) s)
            else if lm_updown lm \<noteq> [] then
              (case direction of
                 Unchanged \<Rightarrow> and_then (record_refunds_legacy e (r_id r) (lm_updown lm) s) (\<lambda>s1. Inr (0, s1))
               | PriceUp \<Rightarrow> record_winnings_legacy e (r_id r) (lm_updown lm) Up (r_pool_up r) (r_pool_down r) s
               | PriceDown \<Rightarrow> record_winnings_legacy e (r_id r) (lm_updown lm) Down (r_pool_down r) (r_pool_up r) s)
            else Inr (0, s)) (\<lambda>(fee_amount, s1).
         Inr ((one_sided, fee_amount), s1)))"

definition resolve_precision_with_maps ::
  "legacy_maps \<Rightarrow> env \<Rightarrow> nat \<Rightarrow> nat \<Rightarrow> bool \<Rightarrow> store \<Rightarrow> ((int \<times> int) \<times> store) res" where
  "resolve_precision_with_maps lm e rid final_price skip_payout s =
     (if participants_of s rid = [] then
        (if lm_precision lm = [] then Inr ((0, 0), s)
         else resolve_precision_legacy e rid (map snd (lm_precision lm)) final_price s)
      else resolve_precision_mode e rid final_price skip_payout s)"

definition archived_pot_with_maps :: "legacy_maps \<Rightarrow> store \<Rightarrow> round \<Rightarrow> int" where
  "archived_pot_with_maps lm s r =
     (case r_mode r of
        UpDown \<Rightarrow> total_pot_updown (r_pool_up r) (r_pool_down r)
      | Precision \<Rightarrow>
          if participants_of s (r_id r) = [] then
            fold (\<lambda>p pot. unwrap_or (checked_add pot (pp_amount p)) pot) (map snd (lm_precision lm)) 0
          else
            fold (\<lambda>user pot. unwrap_or (checked_add pot (precision_amount s (r_id r) user)) pot)
              (participants_of s (r_id r)) 0)"

section \<open>Queries\<close>

definition user_position_with_maps :: "legacy_maps \<Rightarrow> address \<Rightarrow> store \<Rightarrow> user_position option" where
  "user_position_with_maps lm user s =
     (case (case b_active (s_book s) of None \<Rightarrow> None | Some r \<Rightarrow> b_positions (s_book s) (r_id r, user)) of
        Some pos \<Rightarrow> Some pos
      | None \<Rightarrow>
          (case map_of (lm_updown lm) user of
             Some p \<Rightarrow> Some p
           | None \<Rightarrow> map_of (lm_positions lm) user))"

definition user_prediction_with_maps :: "legacy_maps \<Rightarrow> address \<Rightarrow> store \<Rightarrow> precision_prediction option" where
  "user_prediction_with_maps lm user s =
     (case (case b_active (s_book s) of None \<Rightarrow> None | Some r \<Rightarrow> b_predictions (s_book s) (r_id r, user)) of
        Some p \<Rightarrow> Some p
      | None \<Rightarrow> map_of (lm_precision lm) user)"

definition predictions_with_maps :: "legacy_maps \<Rightarrow> store \<Rightarrow> precision_prediction list" where
  "predictions_with_maps lm s =
     (case b_active (s_book s) of
        None \<Rightarrow> []
      | Some r \<Rightarrow>
          let found = fold (push_found (\<lambda>u. b_predictions (s_book s) (r_id r, u))) (participants_of s (r_id r)) []
          in if found = [] then map snd (lm_precision lm) else found)"

definition positions_with_maps :: "legacy_maps \<Rightarrow> store \<Rightarrow> address \<rightharpoonup> user_position" where
  "positions_with_maps lm s =
     (case b_active (s_book s) of
        None \<Rightarrow> Map.empty
      | Some r \<Rightarrow>
          if list_all (\<lambda>u. b_positions (s_book s) (r_id r, u) = None) (participants_of s (r_id r)) then map_of (lm_updown lm)
          else fold (set_found (\<lambda>u. b_positions (s_book s) (r_id r, u))) (participants_of s (r_id r)) Map.empty)"

section \<open>Without such a map\<close>

lemma one_sided_no_maps:
  "participants \<noteq> [] \<or> positions = Some [] \<or> positions = None \<Longrightarrow>
   one_sided_with_maps e r policy participants positions s = apply_one_sided_policy e r policy participants s"
  by (cases policy)
     (auto simp: one_sided_with_maps_def apply_one_sided_policy_def record_refunds_legacy_def Let_def split: option.split)

lemma settlement_no_maps:
  "resolve_updown_with_maps no_maps = resolve_updown_mode"
  "resolve_precision_with_maps no_maps = resolve_precision_mode"
  "archived_pot_with_maps no_maps = archived_pot"
proof -
  show "resolve_updown_with_maps no_maps = resolve_updown_mode"
    by (intro ext) (simp add: resolve_updown_with_maps_def resolve_updown_mode_def one_sided_no_maps no_maps_def Let_def)
  show "resolve_precision_with_maps no_maps = resolve_precision_mode"
    by (intro ext) (simp add: resolve_precision_with_maps_def resolve_precision_mode_def no_maps_def Let_def)
  show "archived_pot_with_maps no_maps = archived_pot"
    by (intro ext) (simp add: archived_pot_with_maps_def archived_pot_def no_maps_def split: round_mode.split)
qed

lemma set_found_none: "list_all (\<lambda>u. m u = None) us \<Longrightarrow> fold (set_found m) us found = found"
  by (induction us) (simp_all add: set_found_def)

lemma queries_no_maps:
  "user_position_with_maps no_maps = get_user_position" "user_prediction_with_maps no_maps = get_user_precision_prediction"
  "predictions_with_maps no_maps = get_precision_predictions" "positions_with_maps no_maps = get_updown_positions"
  by (auto simp: fun_eq_iff user_position_with_maps_def get_user_position_def user_prediction_with_maps_def
      get_user_precision_prediction_def predictions_with_maps_def get_precision_predictions_def positions_with_maps_def
      get_updown_positions_def no_maps_def set_found_none Let_def split: option.split)

section \<open>What a settlement loop does not look at\<close>

text \<open>The legacy loops take stakes from their argument: another book does not change what they do.\<close>

definition in_book :: "book \<Rightarrow> store \<Rightarrow> store" where
  "in_book b s = s\<lparr>s_book := b\<rparr>"

definition blind :: "(store \<Rightarrow> store res) \<Rightarrow> bool" where
  "blind f \<longleftrightarrow> (\<forall>b s. f (in_book b s) = map_sum id (in_book b) (f s))"

definition blind_result :: "(store \<Rightarrow> ('a \<times> store) res) \<Rightarrow> bool" where
  "blind_result f \<longleftrightarrow> (\<forall>b s. f (in_book b s) = map_sum id (map_prod id (in_book b)) (f s))"

lemma and_then_map_sum:
  "and_then (map_sum id h x) g = and_then x (\<lambda>y. g (h y))" "map_sum id h2 (and_then x2 k) = and_then x2 (\<lambda>y. map_sum id h2 (k y))"
  "map_sum id h3 (if c then x3 else y3) = (if c then map_sum id h3 x3 else map_sum id h3 y3)"
  "and_then (if c then x4 else y4) k4 = (if c then and_then x4 k4 else and_then y4 k4)"
  by (simp_all add: and_then_def split: sum.split)

lemma in_book_fields [simp]:
  "s_board (in_book b s) = s_board s" "s_money (in_book b s) = s_money s" "s_config (in_book b s) = s_config s"
  "s_ins (in_book b s) = s_ins s" "s_history (in_book b s) = s_history s" "s_book (in_book b s) = b"
  "emit topic vs (in_book b s) = in_book b (emit topic vs s)"
  "persist_user_outcome rid m u sd pr st pay oc (in_book b s) = in_book b (persist_user_outcome rid m u sd pr st pay oc s)"
  "upd_board f (in_book b s) = in_book b (upd_board f s)" "set_fund x (in_book b s) = in_book b (set_fund x s)"
  "set_treasury v (in_book b s) = in_book b (set_treasury v s)" "in_book b (in_book c s) = in_book b s"
  "(in_book b s)\<lparr>s_money := k\<rparr> = in_book b (s\<lparr>s_money := k\<rparr>)"
  by (simp_all add: in_book_def emit_def persist_user_outcome_def upd_board_def set_fund_def set_treasury_def)

lemma blind_accumulate: "blind (accumulate_pending e u x)"
  by (simp add: blind_def accumulate_pending_def and_then_map_sum pending_of_def)

lemma blind_stats: "blind (update_stats_win u)" "blind (update_stats_loss u)"
  by (auto simp: blind_def update_stats_win_def update_stats_loss_def update_season_stats_win_def update_season_stats_loss_def
      update_season_stats_def update_leaderboards_def update_season_leaderboards_def and_then_map_sum current_season_id_def
      season_user_stats_def[abs_def] lifetime_user_stats_def[abs_def] Let_def)

lemma blind_insurance_fee: "blind_result (collect_insurance_fee rid fee)"
  by (auto simp: blind_result_def collect_insurance_fee_def get_insurance_split_bps_def get_insurance_fund_balance_def and_then_map_sum Let_def
      cong: if_cong)

lemma blind_fee: "blind (collect_protocol_fee rid fee bps model)"
  using blind_insurance_fee[of rid fee]
  by (auto simp: blind_def blind_result_def collect_protocol_fee_def and_then_map_sum read_treasury_def case_prod_unfold
      cong: if_cong)

lemma blind_apply_fee: "blind_result (apply_protocol_fee_updown rid w l)" "blind_result (apply_protocol_fee_precision rid pot ws)"
  using blind_fee
  by (auto simp: blind_def blind_result_def apply_protocol_fee_updown_def apply_protocol_fee_precision_def and_then_map_sum
      read_fee_model_def case_prod_unfold Let_def cong: if_cong)

lemma blind_fold:
  assumes "\<And>x. x \<in> set xs \<Longrightarrow> blind (f x)"
  shows "blind (fold_res f xs)"
proof -
  have "fold_res f xs (in_book b s) = map_sum id (in_book b) (fold_res f xs s)" for b s
    using assms by (induction xs arbitrary: s) (auto simp: blind_def and_then_map_sum)
  then show ?thesis by (simp add: blind_def)
qed

lemma blind_loops:
  "blind (legacy_refund e rid m u)" "blind (legacy_step e rid m side W d u)" "blind (legacy_loser rid ws p)"
  "blind (pay_winner e rid False c)"
  using blind_accumulate blind_stats
  by (auto simp: blind_def legacy_refund_def legacy_step_def legacy_loser_def pay_winner_def and_then_map_sum and_then_assoc case_prod_unfold
      cong: if_cong split: option.split)

lemma blind_legacy:
  "blind (record_refunds_legacy e rid m)" "blind_result (record_winnings_legacy e rid m side W L)"
  "blind_result (resolve_precision_legacy e rid ps fp)"
proof -
  note loops = blind_fold[where f = "legacy_refund e rid m", OF blind_loops(1)]
    blind_fold[where f = "legacy_step e rid m side W d" for d, OF blind_loops(2)]
    blind_fold[where f = "legacy_loser rid ws" for ws, OF blind_loops(3)] blind_fold[where f = "pay_winner e rid False", OF blind_loops(4)]
  show "blind (record_refunds_legacy e rid m)" using loops(1) by (simp add: record_refunds_legacy_def[abs_def])
  show "blind_result (record_winnings_legacy e rid m side W L)"
    using loops(2) blind_apply_fee(1)
    by (auto simp: blind_def blind_result_def record_winnings_legacy_def and_then_map_sum case_prod_unfold cong: if_cong)
  show "blind_result (resolve_precision_legacy e rid ps fp)"
    using loops(3,4) blind_apply_fee(2)
    by (auto simp: blind_def blind_result_def resolve_precision_legacy_def and_then_map_sum case_prod_unfold
        read_precision_payout_policy_def Let_def cong: if_cong)
qed

section \<open>A migrated round\<close>

text \<open>C27 A round that lives in the legacy maps settles as the indexed one.  Take the active round of a store
  whose invariant holds, and the same store in which the book is any other one without participants
  of that round, the positions, or the predictions of a fully revealed Precision round, being kept in
  the legacy maps instead.  With the feature \<open>legacy-map-settlement\<close> the settlement functions, whose
  legacy branches use loops of their own, return the same fee, pot and store up to the book, or the
  same error, in every case: one-sided pools, an unchanged price, either direction.\<close>

theorem migrated_round_settles_alike:
  assumes "contract_ok s" "b_active (s_book s) = Some r" "members b (r_id r) = []"
  shows "(r_mode r = UpDown \<longrightarrow> lm_updown lm = legacy_positions (s_book s) (r_id r) \<longrightarrow>
            resolve_updown_with_maps lm e r fp (in_book b s) =
              map_sum id (map_prod id (in_book b)) (resolve_updown_mode e r fp s)) \<and>
         (r_mode r = Precision \<longrightarrow> (\<forall>u\<in>set (members (s_book s) (r_id r)). b_predictions (s_book s) (r_id r, u) \<noteq> None) \<longrightarrow>
            map snd (lm_precision lm) = legacy_predictions (s_book s) (r_id r) \<longrightarrow>
            resolve_precision_with_maps lm e (r_id r) fp skip (in_book b s) =
              map_sum id (map_prod id (in_book b)) (resolve_precision_mode e (r_id r) fp False s))"
proof (intro conjI impI)
  let ?us = "sort_addresses (members (s_book s) (r_id r))" and ?m = "legacy_positions (s_book s) (r_id r)"
  note ok = active_okD(1)[OF contract_okD(2)[OF assms(1)] assms(2)]
  have none: "participants_of (in_book b s) (r_id r) = []" using assms(3) by (simp add: members_participants)
  {
    assume mode: "r_mode r = UpDown" and lm: "lm_updown lm = ?m"
    have pools: "0 \<le> r_pool_up r" "0 \<le> r_pool_down r"
      using ok mode side_pool_nonneg[OF contract_okD(5)[OF assms(1)]] by (auto simp: round_ok_def)
    have keys: "map fst ?m = ?us" using ok mode by (intro legacy_positions_fst) (auto simp: round_ok_def)
    then have empty: "?m = [] \<longleftrightarrow> ?us = []" by (metis map_is_Nil_conv)
    note refunds = legacy_refunds_agree[OF ok mode] and wins = legacy_winnings_agree[OF assms(1) ok mode]
    note blinds = blind_legacy(1)[unfolded blind_def, rule_format] blind_legacy(2)[unfolded blind_result_def, rule_format]
    have refund: "(if ?us \<noteq> [] then record_refunds_indexed e (r_id r) 0 ?us s else Inr s) = record_refunds_indexed e (r_id r) 0 ?us s"
      by (auto simp: record_refunds_indexed_def sort_addresses_def)
    have here: "sort_addresses (participants_of (in_book b s) (r_id r)) = []" using assms(3) by (simp add: members_participants)
    have there: "participants_of s (r_id r) = members (s_book s) (r_id r)" by (rule members_participants)
    have policy: "one_sided_with_maps e r p [] (Some ?m) (in_book b s) =
        map_sum id (map_prod id (in_book b)) (apply_one_sided_policy e r p ?us s)" for p
      unfolding apply_one_sided_policy_def refund
      by (cases p) (simp_all add: one_sided_with_maps_def refunds blinds and_then_map_sum Let_def)
    show "resolve_updown_with_maps lm e r fp (in_book b s) = map_sum id (map_prod id (in_book b)) (resolve_updown_mode e r fp s)"
      unfolding resolve_updown_with_maps_def resolve_updown_mode_def here lm there Let_def
      by (cases "classify_price_direction (r_price_start r) fp")
         (simp_all add: policy empty refunds wins pools blinds and_then_map_sum and_then_assoc case_prod_unfold Let_def cong: if_cong)
  next
    assume mode: "r_mode r = Precision" and all: "\<forall>u\<in>set (members (s_book s) (r_id r)). b_predictions (s_book s) (r_id r, u) \<noteq> None"
      and lm: "map snd (lm_precision lm) = legacy_predictions (s_book s) (r_id r)"
    have empty: "lm_precision lm = [] \<longleftrightarrow> legacy_predictions (s_book s) (r_id r) = []" using lm by (metis map_is_Nil_conv)
    have "resolve_precision_with_maps lm e (r_id r) fp skip (in_book b s) =
          resolve_precision_legacy e (r_id r) (legacy_predictions (s_book s) (r_id r)) fp (in_book b s)"
      by (simp add: resolve_precision_with_maps_def none lm empty) (simp add: resolve_precision_legacy_def)
    also have "\<dots> = map_sum id (map_prod id (in_book b)) (resolve_precision_mode e (r_id r) fp False s)"
      using blind_legacy(3)[of e "r_id r" "legacy_predictions (s_book s) (r_id r)" fp] legacy_precision_agrees[OF assms(1) ok mode all]
      by (simp add: blind_result_def)
    finally show "resolve_precision_with_maps lm e (r_id r) fp skip (in_book b s) =
        map_sum id (map_prod id (in_book b)) (resolve_precision_mode e (r_id r) fp False s)" .
  }
qed

theorem migrated_round_settles_alike_witness:
  "let b = (s_book two_bets)\<lparr>b_positions := Map.empty, b_participants := Map.empty\<rparr>;
       lm = \<lparr>lm_positions = [], lm_updown = legacy_positions (s_book two_bets) 1, lm_precision = []\<rparr>
   in \<exists>t. resolve_updown_with_maps lm (sample_env 30 60 []) two_bets_round 150 (in_book b two_bets) = Inr ((False, 0), t)"
proof -
  let ?b = "(s_book two_bets)\<lparr>b_positions := Map.empty, b_participants := Map.empty\<rparr>"
  let ?lm = "\<lparr>lm_positions = [], lm_updown = legacy_positions (s_book two_bets) 1, lm_precision = []\<rparr>"
  have none: "members ?b (r_id two_bets_round) = []" by (simp add: members_def get_or_def)
  obtain s' where "resolve_updown_mode (sample_env 30 60 []) two_bets_round 150 two_bets = Inr ((False, 0), s')"
    using two_bets_run by blast
  then show ?thesis
    using migrated_round_settles_alike[OF two_bets_ok two_bets_book(1) none, of ?lm "sample_env 30 60 []" 150]
    by (simp add: two_bets_book del: One_nat_def)
qed

end
