(* ===== verification/Contract_Copies.thy ===== *)
theory Contract_Copies
  imports Settlement
begin

text \<open>
  The private helpers at the end of \<open>contracts/src/contract.rs\<close>.  They are copies of functions that
  have since moved to the modules; some still serve the oracle rotation, most serve nobody.  The
  lemmas show which copies still are the module's function and where the fee and payout copies have
  fallen behind.
\<close>

section \<open>The copies\<close>

definition vtc_set_balance :: "address \<Rightarrow> int \<Rightarrow> store \<Rightarrow> store" where
  "vtc_set_balance user amount s = s\<lparr>s_money := (s_money s)\<lparr>k_balance := (k_balance (s_money s))(user \<mapsto> amount)\<rparr>\<rparr>"

definition vtc_ensure_not_paused :: "store \<Rightarrow> unit res" where
  "vtc_ensure_not_paused s = policy_gate s AdminConfig"

definition vtc_ensure_normal_mode :: "store \<Rightarrow> unit res" where
  "vtc_ensure_normal_mode s = policy_gate s RoundMutation"

definition vtc_set_mode :: "runtime_mode \<Rightarrow> store \<Rightarrow> store" where
  "vtc_set_mode new_mode s =
     (let old_mode = unwrap_or (s_mode s) Normal in
      if old_mode \<noteq> new_mode
      then emit (''mode'', ''transition'') [VNat (runtime_mode_code old_mode), VNat (runtime_mode_code new_mode)]
             (s\<lparr>s_mode := Some new_mode\<rparr>)
      else s)"

definition vtc_derive_round_phase :: "nat \<Rightarrow> round \<Rightarrow> round_phase" where
  "vtc_derive_round_phase ledger_sequence r =
     (if ledger_sequence < r_bet_end_ledger r then Betting
      else if ledger_sequence < r_end_ledger r then Running
      else Resolvable)"

definition vtc_require_supported_schema :: "store \<Rightarrow> nat res" where
  "vtc_require_supported_schema s =
     (let v = unwrap_or (s_schema s) 1 in
      if v = 0 \<or> v > CURRENT_SCHEMA_VERSION then Inl (Fail UnsupportedSchemaVersion) else Inr v)"

definition vtc_assert_no_active_round :: "store \<Rightarrow> unit res" where
  "vtc_assert_no_active_round s = (if b_active (s_book s) \<noteq> None then Inl (Fail RoundAlreadyActive) else Inr ())"

definition vtc_payout_add :: "int \<Rightarrow> int \<Rightarrow> int res" where
  "vtc_payout_add a b = ok_or (checked_add a b) PayoutOverflow"

definition vtc_payout_mul :: "int \<Rightarrow> int \<Rightarrow> int res" where
  "vtc_payout_mul a b = ok_or (checked_mul a b) PayoutOverflow"

definition vtc_emit_payout_outcome :: "nat \<Rightarrow> nat \<Rightarrow> address \<Rightarrow> int \<Rightarrow> nat \<Rightarrow> store \<Rightarrow> store" where
  "vtc_emit_payout_outcome rid mode user gross_payout outcome_type =
     emit (''payout'', ''outcome'') [VNat rid, VNat mode, VAddr user, VInt gross_payout, VNat outcome_type]"

definition vtc_accumulate_pending :: "address \<Rightarrow> int \<Rightarrow> store \<Rightarrow> store res" where
  "vtc_accumulate_pending user amount s =
     and_then (vtc_payout_add (get_or (k_pending (s_money s)) 0 user) amount) (\<lambda>new_pending.
     and_then (case c_max_pending (s_config s) of
                 Some cap \<Rightarrow> if new_pending > cap then Inl (Fail PendingWinningsCapExceeded) else Inr ()
               | None \<Rightarrow> Inr ()) (\<lambda>_.
     Inr (s\<lparr>s_money := (s_money s)\<lparr>k_pending := (k_pending (s_money s))(user \<mapsto> new_pending)\<rparr>\<rparr>)))"

definition vtc_validate_windows :: "nat \<Rightarrow> nat \<Rightarrow> unit res" where
  "vtc_validate_windows bet_ledgers run_ledgers =
     (if bet_ledgers = 0 \<or> run_ledgers = 0 then Inl (Fail InvalidDuration)
      else if bet_ledgers > MAX_BET_WINDOW_LEDGERS \<or> run_ledgers > MAX_RUN_WINDOW_LEDGERS then Inl (Fail WindowOutOfRange)
      else if bet_ledgers \<ge> run_ledgers then Inl (Fail InvalidDuration)
      else Inr ())"

definition vtc_validate_max_stake :: "int option \<Rightarrow> unit res" where
  "vtc_validate_max_stake max_amount =
     (case max_amount of
        Some v \<Rightarrow> if v < MIN_CAP_VALUE then Inl (Fail InvalidBetAmount) else Inr ()
      | None \<Rightarrow> Inr ())"

definition vtc_validate_oracle_stale_threshold :: "nat \<Rightarrow> unit res" where
  "vtc_validate_oracle_stale_threshold seconds =
     (if \<not> (MIN_ORACLE_STALE_THRESHOLD \<le> seconds \<and> seconds \<le> MAX_ORACLE_STALE_THRESHOLD)
      then Inl (Fail InvalidDuration) else Inr ())"

definition vtc_validate_oracle_max_deviation_bps :: "nat option \<Rightarrow> unit res" where
  "vtc_validate_oracle_max_deviation_bps bps =
     (case bps of
        Some v \<Rightarrow> if v = 0 \<or> v > MAX_ORACLE_DEVIATION_BPS then Inl (Fail WindowOutOfRange) else Inr ()
      | None \<Rightarrow> Inr ())"

definition vtc_validate_protocol_fee_bps :: "nat option \<Rightarrow> unit res" where
  "vtc_validate_protocol_fee_bps bps =
     (case bps of
        Some v \<Rightarrow> if v = 0 \<or> v > MAX_PROTOCOL_FEE_BPS then Inl (Fail InvalidProtocolFeeBps) else Inr ()
      | None \<Rightarrow> Inr ())"

definition vtc_read_protocol_fee_bps :: "store \<Rightarrow> nat option" where
  "vtc_read_protocol_fee_bps s = c_fee_bps (s_config s)"

definition vtc_collect_protocol_fee :: "nat \<Rightarrow> int \<Rightarrow> nat option \<Rightarrow> store \<Rightarrow> store res" where
  "vtc_collect_protocol_fee rid fee_amount bps_active s =
     (if fee_amount \<le> 0 then Inr s
      else
        and_then (read_treasury s) (\<lambda>current.
        and_then (ok_or (checked_add current fee_amount) Overflow) (\<lambda>new_treasury.
        Inr (emit (''protocol'', ''collected'')
               [VNat rid, VInt fee_amount, VInt new_treasury, VNat (unwrap_or bps_active 0)]
               (set_treasury (TAmount new_treasury) s)))))"

definition vtc_apply_protocol_fee_updown :: "nat \<Rightarrow> int \<Rightarrow> int \<Rightarrow> store \<Rightarrow> ((int \<times> int \<times> int) \<times> store) res" where
  "vtc_apply_protocol_fee_updown rid winning_pool losing_pool s =
     (case vtc_read_protocol_fee_bps s of
        None \<Rightarrow> Inr ((winning_pool, losing_pool, 0), s)
      | Some bps_value \<Rightarrow>
          and_then (vtc_payout_add winning_pool losing_pool) (\<lambda>total_pot.
          and_then (ok_or (checked_mul total_pot (int bps_value)) Overflow) (\<lambda>m.
          let fee_amount = m sdiv BPS_DENOMINATOR in
          if fee_amount = 0 then Inr ((winning_pool, losing_pool, 0), s)
          else
            let fee_from_losing = min fee_amount losing_pool in
            and_then (ok_or (checked_sub fee_amount fee_from_losing) Overflow) (\<lambda>fee_from_winning.
            and_then (ok_or (checked_sub winning_pool fee_from_winning) Overflow) (\<lambda>dist_winning.
            and_then (ok_or (checked_sub losing_pool fee_from_losing) Overflow) (\<lambda>dist_losing.
            and_then (vtc_collect_protocol_fee rid fee_amount (Some bps_value) s) (\<lambda>s1.
            Inr ((dist_winning, dist_losing, fee_amount), s1))))))))"

definition vtc_apply_protocol_fee_precision :: "nat \<Rightarrow> int \<Rightarrow> store \<Rightarrow> ((int \<times> int) \<times> store) res" where
  "vtc_apply_protocol_fee_precision rid total_pot s =
     (case vtc_read_protocol_fee_bps s of
        None \<Rightarrow> Inr ((total_pot, 0), s)
      | Some bps_value \<Rightarrow>
          if total_pot \<le> 0 then Inr ((total_pot, 0), s)
          else
            and_then (ok_or (checked_mul total_pot (int bps_value)) Overflow) (\<lambda>m.
            let fee_amount = m sdiv BPS_DENOMINATOR in
            and_then (ok_or (checked_sub total_pot fee_amount) Overflow) (\<lambda>distributable.
            and_then (if fee_amount > 0 then vtc_collect_protocol_fee rid fee_amount (Some bps_value) s else Inr s) (\<lambda>s1.
            Inr ((distributable, fee_amount), s1)))))"

section \<open>Copies that still are the function\<close>

lemma faithful_copies:
  "vtc_set_balance = set_balance" "vtc_ensure_not_paused = ensure_not_paused" "vtc_ensure_normal_mode = ensure_normal_mode"
  "vtc_set_mode = set_mode" "vtc_require_supported_schema = require_supported_schema"
  "vtc_derive_round_phase = derive_round_phase" "vtc_assert_no_active_round = assert_no_active_round" "vtc_payout_add = payout_add" "vtc_payout_mul = payout_mul"
  "vtc_validate_windows = validate_windows" "vtc_validate_max_stake = validate_max_stake"
  "vtc_validate_oracle_stale_threshold = validate_oracle_stale_threshold"
  "vtc_validate_oracle_max_deviation_bps = validate_oracle_max_deviation_bps"
  "vtc_validate_protocol_fee_bps = validate_protocol_fee_bps"
  by (simp_all add: fun_eq_iff vtc_set_balance_def set_balance_def vtc_ensure_not_paused_def ensure_not_paused_def
      vtc_ensure_normal_mode_def ensure_normal_mode_def vtc_set_mode_def set_mode_def current_mode_def
      vtc_require_supported_schema_def require_supported_schema_def schema_version_def vtc_assert_no_active_round_def
      assert_no_active_round_def ensure_def vtc_payout_add_def payout_add_def vtc_payout_mul_def payout_mul_def
      vtc_validate_windows_def validate_windows_def vtc_validate_max_stake_def validate_max_stake_def
      vtc_validate_oracle_stale_threshold_def validate_oracle_stale_threshold_def
      vtc_validate_oracle_max_deviation_bps_def validate_oracle_max_deviation_bps_def
      vtc_validate_protocol_fee_bps_def validate_protocol_fee_bps_def
      vtc_derive_round_phase_def derive_round_phase_def split: option.split)

section \<open>Copies that have fallen behind\<close>

text \<open>Two results are compared up to the events they publish.\<close>

definition muted :: "store \<Rightarrow> store" where
  "muted s = s\<lparr>s_events := []\<rparr>"

lemma muted_emit [simp]: "muted (emit topic vs s) = muted s"
  by (simp add: muted_def emit_def)

text \<open>The copy that credits a payout forgets when it did, which is what the expiry of unclaimed
  winnings is counted from.\<close>

lemma pending_copy:
  "vtc_accumulate_pending u x s =
     map_sum id (\<lambda>t. t\<lparr>s_money := (s_money t)\<lparr>k_pending_at := k_pending_at (s_money s)\<rparr>\<rparr>) (accumulate_pending e u x s)"
  by (cases "payout_add (pending_of s u) x"; cases "c_max_pending (s_config s)")
     (simp_all add: vtc_accumulate_pending_def accumulate_pending_def faithful_copies flip: pending_of_def)

lemma collect_copy:
  assumes "get_insurance_split_bps s = 0" "in_i128 fee"
  shows "map_sum id muted (vtc_collect_protocol_fee rid fee bps s) = map_sum id muted (collect_protocol_fee rid fee bps model s)"
  using assms
  by (auto simp: vtc_collect_protocol_fee_def collect_protocol_fee_def collect_insurance_fee_def checked_sub_def and_then_def
      split: sum.split)

lemma scaled_fee_range: "checked_mul a b = Some m \<Longrightarrow> in_i128 (m sdiv BPS_DENOMINATOR)"
  by (simp add: checked_mul_Some in_i128_sdiv BPS_DENOMINATOR_def)

lemma updown_copy:
  assumes "read_fee_model s = FeeOnPot" "get_insurance_split_bps s = 0"
  shows "map_sum id (map_prod id muted) (vtc_apply_protocol_fee_updown rid w l s) =
         map_sum id (map_prod id muted) (apply_protocol_fee_updown rid w l s)"
proof (cases "c_fee_bps (s_config s)")
  case (Some bps)
  show ?thesis
  proof (cases "payout_add w l")
    case (Inr pot)
    show ?thesis
    proof (cases "checked_mul pot (int bps)")
      case (Some m)
      let ?f = "m sdiv BPS_DENOMINATOR"
      have "map_sum id muted (vtc_collect_protocol_fee rid ?f (Some bps) s) =
            map_sum id muted (if ?f > 0 then collect_protocol_fee rid ?f (Some bps) FeeOnPot s else Inr s)"
        using collect_copy[OF assms(2) scaled_fee_range[OF Some]] by (simp add: vtc_collect_protocol_fee_def)
      then show ?thesis using Some Inr \<open>c_fee_bps (s_config s) = Some bps\<close> assms(1)
        by (auto simp: vtc_apply_protocol_fee_updown_def apply_protocol_fee_updown_def calculate_protocol_fee_updown_def
            vtc_read_protocol_fee_bps_def faithful_copies and_then_def Let_def ok_or_def split: sum.splits option.splits)
    qed (use Inr \<open>c_fee_bps (s_config s) = Some bps\<close> assms(1) in
      \<open>simp add: vtc_apply_protocol_fee_updown_def apply_protocol_fee_updown_def calculate_protocol_fee_updown_def
        vtc_read_protocol_fee_bps_def faithful_copies\<close>)
  qed (use Some assms(1) in \<open>simp add: vtc_apply_protocol_fee_updown_def apply_protocol_fee_updown_def
      calculate_protocol_fee_updown_def vtc_read_protocol_fee_bps_def faithful_copies\<close>)
qed (simp add: vtc_apply_protocol_fee_updown_def apply_protocol_fee_updown_def calculate_protocol_fee_updown_def
    vtc_read_protocol_fee_bps_def)

lemma precision_copy:
  assumes "read_fee_model s = FeeOnPot" "get_insurance_split_bps s = 0" "in_i128 pot"
  shows "map_sum id (map_prod id muted) (vtc_apply_protocol_fee_precision rid pot s) =
         map_sum id (map_prod id muted) (apply_protocol_fee_precision rid pot winner_stakes s)"
proof (cases "c_fee_bps (s_config s)")
  case (Some bps)
  show ?thesis
  proof (cases "checked_mul pot (int bps)")
    case (Some m)
    let ?f = "m sdiv BPS_DENOMINATOR"
    have "map_sum id muted (if ?f > 0 then vtc_collect_protocol_fee rid ?f (Some bps) s else Inr s) =
          map_sum id muted (if ?f > 0 then collect_protocol_fee rid ?f (Some bps) FeeOnPot s else Inr s)"
      using collect_copy[OF assms(2) scaled_fee_range[OF Some]] by simp
    then show ?thesis using Some \<open>c_fee_bps (s_config s) = Some bps\<close> assms(1,3)
      by (auto simp: vtc_apply_protocol_fee_precision_def apply_protocol_fee_precision_def calculate_protocol_fee_precision_def
          vtc_read_protocol_fee_bps_def checked_sub_def and_then_def Let_def ok_or_def split: sum.splits option.splits)
  qed (use \<open>c_fee_bps (s_config s) = Some bps\<close> assms(1) in
    \<open>simp add: vtc_apply_protocol_fee_precision_def apply_protocol_fee_precision_def calculate_protocol_fee_precision_def
      vtc_read_protocol_fee_bps_def\<close>)
qed (simp add: vtc_apply_protocol_fee_precision_def apply_protocol_fee_precision_def calculate_protocol_fee_precision_def
    vtc_read_protocol_fee_bps_def)

text \<open>The fee copies at the end of the contract are the deployed fee functions as long as the fee is
  charged on the pot and none of it is set aside for the insurance fund: for all pools they then
  fail with the same error or return the same distribution and the same state, up to the name of
  the event.  The copy of the payout credit differs from the deployed one in nothing but the ledger
  it does not record.\<close>

theorem fee_copies_agree:
  assumes "read_fee_model s = FeeOnPot" "get_insurance_split_bps s = 0" "in_i128 pot"
  shows "map_sum id (map_prod id muted) (vtc_apply_protocol_fee_updown rid w l s) =
           map_sum id (map_prod id muted) (apply_protocol_fee_updown rid w l s) \<and>
         map_sum id (map_prod id muted) (vtc_apply_protocol_fee_precision rid pot s) =
           map_sum id (map_prod id muted) (apply_protocol_fee_precision rid pot winner_stakes s) \<and>
         vtc_accumulate_pending u x s =
           map_sum id (\<lambda>t. t\<lparr>s_money := (s_money t)\<lparr>k_pending_at := k_pending_at (s_money s)\<rparr>\<rparr>) (accumulate_pending e u x s)"
  using updown_copy[OF assms(1,2)] precision_copy[OF assms] pending_copy by blast

theorem fee_copies_agree_witness:
  "map_sum id (map_prod id muted) (vtc_apply_protocol_fee_updown 1 300 200 (empty_store\<lparr>s_config := (s_config empty_store)\<lparr>c_fee_bps := Some 100\<rparr>\<rparr>)) =
   map_sum id (map_prod id muted) (apply_protocol_fee_updown 1 300 200 (empty_store\<lparr>s_config := (s_config empty_store)\<lparr>c_fee_bps := Some 100\<rparr>\<rparr>))"
  by (rule conjunct1, rule fee_copies_agree[where pot = 500])
     (simp_all add: read_fee_model_def get_insurance_split_bps_def empty_store_def in_i128_def)

text \<open>Charged on the winnings the deployed fee is smaller: of pools 300 and 200 at one per cent the copy
  takes 5 and the deployed function 2.\<close>

lemma fee_copy_drift:
  fixes s
  assumes "c_fee_bps (s_config s) = Some 100" "read_fee_model s = FeeOnWinnings"
  shows "vtc_apply_protocol_fee_updown rid 300 200 s = Inr (a, s1) \<Longrightarrow> a = (300, 195, 5)"
    "apply_protocol_fee_updown rid 300 200 s = Inr (b, s2) \<Longrightarrow> b = (300, 198, 2)"
  using assms
  by (auto simp: vtc_apply_protocol_fee_updown_def vtc_read_protocol_fee_bps_def faithful_copies apply_protocol_fee_updown_def
      calculate_protocol_fee_updown_def and_then_Inr ok_or_Inr payout_add_Inr checked_mul_Some checked_sub_Some Let_def
      BPS_DENOMINATOR_def sdiv_nonneg split: if_splits)

end
