(* ===== verification/Oracle_Committee.thy ===== *)
theory Oracle_Committee
  imports Contract_Types
begin

text \<open>
  \<open>contracts/src/oracle_committee.rs\<close>: aggregation of the reports of staked feeders, and slashing.
  The module is public but no entry point calls it.
\<close>

record committee_member =
  cm_feeder :: address
  cm_stake :: int
  cm_active :: bool
  cm_registered_at :: nat

record feeder_report =
  fr_feeder :: address
  fr_price :: int
  fr_timestamp :: nat

record aggregated_price =
  ag_price :: int
  ag_total_stake_weight :: int
  ag_quorum_reached :: bool

definition active_stake :: "committee_member list \<Rightarrow> int" where
  "active_stake members = fold (\<lambda>m acc. if cm_active m then saturating_add acc (cm_stake m) else acc) members 0"

text \<open>One member against one report: an active member of that name adds its stake, and the first such
  report sets the price.\<close>

definition count_member :: "feeder_report \<Rightarrow> committee_member \<Rightarrow> int \<times> int option \<Rightarrow> int \<times> int option" where
  "count_member report m = (\<lambda>(participating, price).
     if cm_feeder m = fr_feeder report \<and> cm_active m
     then (saturating_add participating (cm_stake m), if price = None then Some (fr_price report) else price)
     else (participating, price))"

definition count_reports :: "feeder_report list \<Rightarrow> committee_member list \<Rightarrow> int \<times> int option" where
  "count_reports reports members = fold (\<lambda>report. fold (count_member report) members) reports (0, None)"

definition aggregate_reports :: "feeder_report list \<Rightarrow> committee_member list \<Rightarrow> nat \<Rightarrow> aggregated_price res" where
  "aggregate_reports reports members required_quorum_bps =
     (if reports = [] then Inl (Fail InvalidAmount)
      else if active_stake members = 0 then Inl (Fail InvalidAmount)
      else
        let (participating_stake, valid_prices) = count_reports reports members in
        and_then (or_trap (checked_mul (active_stake members) (int required_quorum_bps))) (\<lambda>m.
        let required_stake = m sdiv 10000
        in Inr \<lparr>ag_price = unwrap_or valid_prices 0, ag_total_stake_weight = participating_stake,
                ag_quorum_reached = (participating_stake \<ge> required_stake)\<rparr>))"

definition slash_feeder :: "committee_member \<Rightarrow> int \<Rightarrow> (int \<times> committee_member) res" where
  "slash_feeder member slash_amount =
     (let actual_slash = min (cm_stake member) slash_amount;
          stake = saturating_sub (cm_stake member) actual_slash
      in Inr (actual_slash, member\<lparr>cm_stake := stake, cm_active := (if stake = 0 then False else cm_active member)\<rparr>))"

section \<open>What is aggregated\<close>

definition counts :: "committee_member list \<Rightarrow> feeder_report \<Rightarrow> bool" where
  "counts members r \<longleftrightarrow> list_ex (\<lambda>m. cm_feeder m = fr_feeder r \<and> cm_active m) members"

lemma count_member_price:
  "snd (fold (count_member r) ms (x, p)) = (if p = None \<and> counts ms r then Some (fr_price r) else p)"
  by (induction ms arbitrary: x p) (auto simp: count_member_def counts_def)

lemma count_reports_price:
  "snd (fold (\<lambda>r. fold (count_member r) ms) rs acc) =
     (case snd acc of Some p \<Rightarrow> Some p | None \<Rightarrow> map_option fr_price (List.find (counts ms) rs))"
proof (induction rs arbitrary: acc)
  case (Cons r rs)
  have "snd (fold (count_member r) ms acc) = (if snd acc = None \<and> counts ms r then Some (fr_price r) else snd acc)"
    using count_member_price[of r ms "fst acc" "snd acc"] by simp
  then show ?case using Cons.IH[of "fold (count_member r) ms acc"] by (auto split: option.splits)
qed (simp split: option.split)

definition equivocating :: "feeder_report list" where
  "equivocating = [\<lparr>fr_feeder = 1, fr_price = 999, fr_timestamp = 0\<rparr>, \<lparr>fr_feeder = 1, fr_price = 5, fr_timestamp = 0\<rparr>]"

definition small_and_large :: "committee_member list" where
  "small_and_large = [\<lparr>cm_feeder = 1, cm_stake = 40, cm_active = True, cm_registered_at = 0\<rparr>,
                      \<lparr>cm_feeder = 2, cm_stake = 60, cm_active = True, cm_registered_at = 0\<rparr>]"

text \<open>C39 The committee price is that of the first report, not a stake-weighted median.  Whenever the
  aggregation returns, its price is the price of the first report by an active member, whatever
  the stakes and the other reports, and 0 when there is none.  The example also shows a feeder
  that is counted twice: with 40 of 100 staked, two contradicting reports of one feeder reach a
  quorum of 80 percent.\<close>

theorem committee_price_is_first_report:
  assumes "aggregate_reports reports members bps = Inr a"
  shows "ag_price a = (case List.find (counts members) reports of Some r \<Rightarrow> fr_price r | None \<Rightarrow> 0)"
proof -
  have "snd (count_reports reports members) = map_option fr_price (List.find (counts members) reports)"
    using count_reports_price[of members reports "(0, None)"] by (simp add: count_reports_def)
  then show ?thesis using assms
    by (auto simp: aggregate_reports_def and_then_Inr Let_def split: if_splits prod.splits option.splits)
qed

theorem committee_price_is_first_report_witness:
  "\<exists>a. aggregate_reports equivocating small_and_large 8000 = Inr a \<and> ag_price a = 999 \<and>
     ag_total_stake_weight a = 80 \<and> ag_quorum_reached a"
proof -
  have run: "aggregate_reports equivocating small_and_large 8000 =
     Inr \<lparr>ag_price = 999, ag_total_stake_weight = 80, ag_quorum_reached = True\<rparr>"
    by (simp add: aggregate_reports_def equivocating_def small_and_large_def active_stake_def count_reports_def count_member_def
        saturating_add_exact in_i128_def checked_mul_def sdiv_nonneg)
  from committee_price_is_first_report[OF run] run show ?thesis
    by (simp add: equivocating_def small_and_large_def counts_def)
qed

lemma slash_bounds:
  assumes "slash_feeder m x = Inr (y, m')" "0 \<le> x" "0 \<le> cm_stake m" "in_i128 (cm_stake m)"
  shows "y = min (cm_stake m) x" "cm_stake m' = cm_stake m - y" "0 \<le> cm_stake m'" "cm_stake m' = 0 \<Longrightarrow> \<not> cm_active m'"
  using assms by (auto simp: slash_feeder_def Let_def saturating_sub_def in_i128_def min_def split: if_splits)

text \<open>A negative amount is not refused and raises the stake.\<close>

lemma negative_slash: "slash_feeder \<lparr>cm_feeder = 1, cm_stake = 40, cm_active = True, cm_registered_at = 0\<rparr> (-10) =
    Inr (-10, \<lparr>cm_feeder = 1, cm_stake = 50, cm_active = True, cm_registered_at = 0\<rparr>)"
  by (simp add: slash_feeder_def Let_def saturating_sub_def in_i128_def)

end
