(* ===== verification/Collateral.thy ===== *)
theory Collateral
  imports Contract_Types
begin

text \<open>
  \<open>contracts/src/collateral.rs\<close>: the trait \<open>CollateralAdapter\<close> as a locale over a world of token
  balances, and \<open>StandardCollateralAdapter\<close> with its two modes as its interpretation.  The token
  contract is not part of the repository: its function \<open>transfer\<close> is a parameter, which takes the
  token, the two parties and the amount, and traps by returning \<open>None\<close>.  No entry point uses the
  module.
\<close>

datatype collateral_mode = VirtualMode | RealToken

record collateral_adapter =
  ca_mode :: collateral_mode
  ca_token_address :: "address option"

definition virtual_mode :: collateral_adapter where
  "virtual_mode = \<lparr>ca_mode = VirtualMode, ca_token_address = None\<rparr>"

definition real_mode :: "address \<Rightarrow> collateral_adapter" where
  "real_mode token_address = \<lparr>ca_mode = RealToken, ca_token_address = Some token_address\<rparr>"

type_synonym 'w token_transfer = "address \<Rightarrow> address \<Rightarrow> address \<Rightarrow> int \<Rightarrow> 'w \<Rightarrow> 'w option"

definition lock_collateral :: "'w token_transfer \<Rightarrow> address \<Rightarrow> collateral_adapter \<Rightarrow> address \<Rightarrow> int \<Rightarrow> 'w \<Rightarrow> 'w res" where
  "lock_collateral transfer contract adapter from amount w =
     (if amount \<le> 0 then Inl (Fail InvalidAmount)
      else
        (case ca_mode adapter of
           VirtualMode \<Rightarrow> Inr w
         | RealToken \<Rightarrow>
             and_then (ok_or (ca_token_address adapter) InvalidAmount) (\<lambda>token_addr.
             or_trap (transfer token_addr from contract amount w))))"

definition release_collateral :: "'w token_transfer \<Rightarrow> address \<Rightarrow> collateral_adapter \<Rightarrow> address \<Rightarrow> int \<Rightarrow> 'w \<Rightarrow> 'w res" where
  "release_collateral transfer contract adapter to_addr amount w =
     (if amount \<le> 0 then Inl (Fail InvalidAmount)
      else
        (case ca_mode adapter of
           VirtualMode \<Rightarrow> Inr w
         | RealToken \<Rightarrow>
             and_then (ok_or (ca_token_address adapter) InvalidAmount) (\<lambda>token_addr.
             or_trap (transfer token_addr contract to_addr amount w))))"

definition payout_collateral :: "'w token_transfer \<Rightarrow> address \<Rightarrow> collateral_adapter \<Rightarrow> address \<Rightarrow> int \<Rightarrow> 'w \<Rightarrow> 'w res" where
  "payout_collateral = release_collateral"

definition collect_fee_collateral :: "'w token_transfer \<Rightarrow> address \<Rightarrow> collateral_adapter \<Rightarrow> address \<Rightarrow> int \<Rightarrow> 'w \<Rightarrow> 'w res" where
  "collect_fee_collateral = release_collateral"

section \<open>The contract of the trait\<close>

text \<open>What a client may rely on, in a world without negative balances: a lock or release that succeeds had
  a positive amount and keeps the world so, and releasing the amount to the same party gives back
  the world before the lock.\<close>

locale collateral_escrow =
  fixes world_ok :: "'w \<Rightarrow> bool"
    and lock :: "address \<Rightarrow> int \<Rightarrow> 'w \<Rightarrow> 'w res"
    and release :: "address \<Rightarrow> int \<Rightarrow> 'w \<Rightarrow> 'w res"
  assumes lock_ok: "lock u x w = Inr w' \<Longrightarrow> world_ok w \<Longrightarrow> world_ok w' \<and> 0 < x"
    and release_ok: "release u x w = Inr w' \<Longrightarrow> world_ok w \<Longrightarrow> world_ok w' \<and> 0 < x"
    and lock_release: "lock u x w = Inr w' \<Longrightarrow> world_ok w \<Longrightarrow> release u x w' = Inr w"
begin

lemma locks_undone:
  "fold_res (\<lambda>(u, x). lock u x) xs w = Inr w' \<Longrightarrow> world_ok w \<Longrightarrow> fold_res (\<lambda>(u, x). release u x) (rev xs) w' = Inr w"
proof (induction xs arbitrary: w)
  case (Cons p xs)
  obtain u x where p: "p = (u, x)" by (cases p)
  obtain t where t: "lock u x w = Inr t" "fold_res (\<lambda>(u, x). lock u x) xs t = Inr w'"
    using Cons.prems(1) p by (auto simp: and_then_Inr)
  have "world_ok t" using lock_ok[OF t(1) Cons.prems(2)] by simp
  then show ?case using Cons.IH[OF t(2)] lock_release[OF t(1) Cons.prems(2)] p by (simp add: fold_res_append)
qed simp

end

text \<open>The virtual mode moves nothing, so it satisfies the contract in every world.\<close>

interpretation virtual_collateral: collateral_escrow "\<lambda>_. True"
  "lock_collateral transfer contract virtual_mode" "release_collateral transfer contract virtual_mode" for transfer contract
  by unfold_locales (auto simp: lock_collateral_def release_collateral_def virtual_mode_def split: if_splits)

lemma real_mode_moves:
  "lock_collateral transfer contract (real_mode token) u x w = Inr w' \<longleftrightarrow> 0 < x \<and> transfer token u contract x w = Some w'"
  "release_collateral transfer contract (real_mode token) u x w = Inr w' \<longleftrightarrow> 0 < x \<and> transfer token contract u x w = Some w'"
  by (simp_all add: lock_collateral_def release_collateral_def real_mode_def or_trap_Inr not_le)

text \<open>The real mode satisfies it over every token contract whose transfers keep the balances valid and
  can be undone by the transfer back.\<close>

locale token_contract =
  fixes world_ok :: "'w \<Rightarrow> bool" and transfer :: "'w token_transfer"
  assumes keeps: "transfer token a b x w = Some w' \<Longrightarrow> world_ok w \<Longrightarrow> 0 < x \<Longrightarrow> world_ok w'"
    and undo: "transfer token a b x w = Some w' \<Longrightarrow> world_ok w \<Longrightarrow> 0 < x \<Longrightarrow> transfer token b a x w' = Some w"

sublocale token_contract < collateral_escrow world_ok
  "lock_collateral transfer contract (real_mode token)" "release_collateral transfer contract (real_mode token)"
  for contract token
  by unfold_locales (auto simp: real_mode_moves intro: keeps undo)

text \<open>Such a token contract: a ledger of balances per token and holder, which refuses a transfer without
  funds or to the sender.\<close>

definition ledger_transfer :: "(address \<times> address \<Rightarrow> int) token_transfer" where
  "ledger_transfer token from to_addr amount w =
     (if w (token, from) < amount \<or> from = to_addr then None
      else Some (w((token, from) := w (token, from) - amount, (token, to_addr) := w (token, to_addr) + amount)))"

lemma ledger_back:
  assumes "ledger_transfer t a b x w = Some w'" "\<forall>k. 0 \<le> w k"
  shows "ledger_transfer t b a x w' = Some w"
proof -
  have w': "w' = w((t, a) := w (t, a) - x, (t, b) := w (t, b) + x)" "a \<noteq> b" using assms(1) by (auto simp: ledger_transfer_def split: if_splits)
  have "0 \<le> w (t, b)" using assms(2) by blast
  then show ?thesis using w' by (simp add: ledger_transfer_def fun_eq_iff)
qed

interpretation ledger_token: token_contract "\<lambda>w. \<forall>k. 0 \<le> w k" ledger_transfer
proof
  show "\<forall>k. 0 \<le> w' k" if "ledger_transfer token a b x w = Some w'" "\<forall>k. 0 \<le> w k" "0 < x" for token a b x w w'
    using that by (auto simp: ledger_transfer_def split: if_splits)
qed (rule ledger_back)

text \<open>Escrow is a round trip in both modes, and only the real mode checks that the party has the amount.\<close>

lemma escrow_round_trip:
  "fold_res (\<lambda>(u, x). lock_collateral ledger_transfer contract (real_mode token) u x) xs w = Inr w' \<Longrightarrow> \<forall>k. 0 \<le> w k \<Longrightarrow>
   fold_res (\<lambda>(u, x). release_collateral ledger_transfer contract (real_mode token) u x) (rev xs) w' = Inr w"
  by (rule ledger_token.locks_undone)

lemma virtual_lock_unchecked: "0 < x \<Longrightarrow> lock_collateral transfer contract virtual_mode u x w = Inr w"
  by (simp add: lock_collateral_def virtual_mode_def)

end
