(* ===== verification/Views.thy ===== *)
theory Views
  imports Queries Governance Storage_Keys
begin

text \<open>
  The queries that return one stored value or its default: the getters of \<open>config.rs\<close>, \<open>admin.rs\<close>,
  \<open>access_control.rs\<close>, \<open>governance.rs\<close>, \<open>leaderboard.rs\<close>, \<open>queries.rs\<close> and \<open>contract.rs\<close>, and what
  a client may conclude from them: the locale \<open>setting\<close> is a configuration value with its getter,
  its kind and the payload that changes it, interpreted on every getter of a configuration value.
\<close>

section \<open>Configuration\<close>

definition get_max_stake :: "store \<Rightarrow> int option" where
  "get_max_stake s = c_max_stake (s_config s)"

definition get_min_bet :: "store \<Rightarrow> int option" where
  "get_min_bet s = c_min_bet (s_config s)"

definition get_max_user_exposure :: "store \<Rightarrow> int option" where
  "get_max_user_exposure s = c_max_exposure (s_config s)"

definition get_max_pending_winnings :: "store \<Rightarrow> int option" where
  "get_max_pending_winnings s = c_max_pending (s_config s)"

definition get_oracle_timestamp_skew :: "store \<Rightarrow> nat" where
  "get_oracle_timestamp_skew s = unwrap_or (o_timestamp_skew (s_orc s)) DEFAULT_ORACLE_TIMESTAMP_SKEW"

definition get_protocol_fee_bps :: "store \<Rightarrow> nat option" where
  "get_protocol_fee_bps s = c_fee_bps (s_config s)"

definition get_fee_model :: "store \<Rightarrow> fee_model" where
  "get_fee_model s = read_fee_model s"

definition get_pending_config_change :: "config_kind \<Rightarrow> store \<Rightarrow> pending_config_change option" where
  "get_pending_config_change kind s = c_scheduled (s_config s) kind"

definition get_min_participants :: "store \<Rightarrow> nat option" where
  "get_min_participants s = c_min_participants (s_config s)"

definition get_precision_payout_policy :: "store \<Rightarrow> nat" where
  "get_precision_payout_policy s = unwrap_or (c_payout_policy (s_config s)) 0"

definition get_mint_limit :: "store \<Rightarrow> nat" where
  "get_mint_limit s = unwrap_or (c_mint_limit (s_config s)) 0"

definition get_epoch_mint_budget :: "store \<Rightarrow> int" where
  "get_epoch_mint_budget s = unwrap_or (c_epoch_budget (s_config s)) 0"

definition get_archive_retention :: "store \<Rightarrow> nat" where
  "get_archive_retention s = unwrap_or (c_archive_retention (s_config s)) DEFAULT_ARCHIVE_RETENTION"

definition get_round_template :: "store \<Rightarrow> round_template option" where
  "get_round_template s = c_template (s_config s)"

definition get_early_cashout_bps :: "store \<Rightarrow> nat option" where
  "get_early_cashout_bps s = c_early_cashout_bps (s_config s)"

definition DEFAULT_PENDING_WINNINGS_EXPIRY :: nat where "DEFAULT_PENDING_WINNINGS_EXPIRY = 0"

definition get_pending_winnings_expiry :: "store \<Rightarrow> nat" where
  "get_pending_winnings_expiry s = unwrap_or (c_pending_expiry (s_config s)) DEFAULT_PENDING_WINNINGS_EXPIRY"

section \<open>Administration and oracle\<close>

definition get_schema_version :: "store \<Rightarrow> nat" where
  "get_schema_version s = unwrap_or (s_schema s) 1"

definition get_next_schema :: "store \<Rightarrow> nat option" where
  "get_next_schema s = s_next_schema s"

definition get_runtime_mode :: "store \<Rightarrow> nat" where
  "get_runtime_mode s = runtime_mode_code (unwrap_or (s_mode s) Normal)"

definition is_action_allowed :: "policy_action \<Rightarrow> store \<Rightarrow> bool" where
  "is_action_allowed action s = (case policy_gate s action of Inr _ \<Rightarrow> True | Inl _ \<Rightarrow> False)"

definition get_admin :: "store \<Rightarrow> address option" where
  "get_admin s = s_admin s"

definition get_oracle :: "store \<Rightarrow> address option" where
  "get_oracle s = s_oracle s"

definition get_oracle_max_deviation_bps :: "store \<Rightarrow> nat option" where
  "get_oracle_max_deviation_bps s = o_max_deviation_bps (s_orc s)"

definition get_deviation_ref_mode :: "store \<Rightarrow> deviation_reference" where
  "get_deviation_ref_mode s = dv_reference_mode (load_deviation_config s)"

definition get_deviation_window_samples :: "store \<Rightarrow> nat" where
  "get_deviation_window_samples s = dv_window_samples (load_deviation_config s)"

definition get_attestation_key :: "store \<Rightarrow> bytes option" where
  "get_attestation_key s = load_attestation_key s"

definition get_oracle_min_confidence_bps :: "store \<Rightarrow> nat option" where
  "get_oracle_min_confidence_bps s = o_min_confidence_bps (s_orc s)"

definition get_oracle_strict_mode :: "store \<Rightarrow> bool" where
  "get_oracle_strict_mode s = unwrap_or (o_strict_mode (s_orc s)) False"

definition get_hb_strict_mode :: "store \<Rightarrow> bool" where
  "get_hb_strict_mode s = hg_strict_mode (load_hb_config s)"

definition get_hb_override_armed :: "store \<Rightarrow> bool" where
  "get_hb_override_armed s = hg_override_armed (load_hb_config s)"

definition get_hb_grace_seconds :: "store \<Rightarrow> nat" where
  "get_hb_grace_seconds s = hg_grace_seconds (load_hb_config s)"

definition get_oracle_heartbeat :: "store \<Rightarrow> heartbeat option" where
  "get_oracle_heartbeat s = o_heartbeat (s_orc s)"

definition get_oracle_quorum_config :: "store \<Rightarrow> quorum_config option" where
  "get_oracle_quorum_config s = o_quorum (s_orc s)"

section \<open>Access, governance, seasons, users\<close>

definition is_allowlisted :: "address \<Rightarrow> store \<Rightarrow> bool" where
  "is_allowlisted user s \<longleftrightarrow> a_allowed (s_access s) user \<noteq> None"

definition is_denylisted :: "address \<Rightarrow> store \<Rightarrow> bool" where
  "is_denylisted user s \<longleftrightarrow> a_denied (s_access s) user \<noteq> None"

definition get_access_policy :: "address \<Rightarrow> store \<Rightarrow> bool \<times> access_state" where
  "get_access_policy user s = (is_access_control_enabled s, get_access_state s user)"

definition get_gov_approver :: "store \<Rightarrow> address option" where
  "get_gov_approver s = g_approver (s_gov s)"

definition get_constitution :: "store \<Rightarrow> constitution option" where
  "get_constitution s = g_constitution (s_gov s)"

definition get_current_season_id :: "store \<Rightarrow> nat" where
  "get_current_season_id s = current_season_id s"

definition get_season_user_stats :: "nat \<Rightarrow> address \<Rightarrow> store \<Rightarrow> user_stats" where
  "get_season_user_stats season user s =
     (case l_season_stats (s_board s) (season, user) of
        Some st \<Rightarrow> st
      | None \<Rightarrow> \<lparr>st_total_wins = 0, st_total_losses = 0, st_current_streak = 0, st_best_streak = 0\<rparr>)"

definition get_season_archive :: "nat \<Rightarrow> store \<Rightarrow> season_archive option" where
  "get_season_archive season s = l_season_archive (s_board s) season"

definition get_user_stats :: "address \<Rightarrow> store \<Rightarrow> user_stats" where
  "get_user_stats user s =
     (case l_stats (s_board s) user of
        Some st \<Rightarrow> st
      | None \<Rightarrow> \<lparr>st_total_wins = 0, st_total_losses = 0, st_current_streak = 0, st_best_streak = 0\<rparr>)"

definition get_pending_winnings :: "address \<Rightarrow> store \<Rightarrow> int" where
  "get_pending_winnings user s = unwrap_or (k_pending (s_money s) user) 0"

definition get_active_round :: "store \<Rightarrow> round option" where
  "get_active_round s = b_active (s_book s)"

definition get_one_sided_policy :: "store \<Rightarrow> one_sided_policy" where
  "get_one_sided_policy s =
     (case b_active (s_book s) of Some r \<Rightarrow> select_one_sided_policy r | None \<Rightarrow> RefundPolicy)"

section \<open>Settings\<close>

text \<open>A change of one kind leaves the value of every other kind as it is.\<close>

lemma apply_config_value_other:
  assumes "apply_config_value kind payload s = Inr t" "k \<noteq> kind"
  shows "current_config_payload t k = current_config_payload s k"
  using assms
  by (cases payload)
     (auto simp: apply_config_value_def and_then_Inr if_Inl_Inr current_config_payload_def Let_def upd_config_def upd_orc_def
        stale_threshold_def get_max_precision_participants_def get_dispute_ledgers_def read_fee_model_def split: config_kind.split)

definition applies_only :: "config_kind \<Rightarrow> store \<Rightarrow> store \<Rightarrow> bool" where
  "applies_only kind s t \<longleftrightarrow> (\<forall>k. k \<noteq> kind \<longrightarrow> current_config_payload t k = current_config_payload s k)"

lemma apply_scheduled_only:
  assumes "apply_scheduled_changes e kind s = Inr t"
  shows "applies_only kind s t"
  using assms
proof (rule apply_scheduled_Inr)
  fix p u
  assume u: "apply_config_value kind (pcc_payload p) s = Inr u"
    and t: "s_config t = (s_config u)\<lparr>c_scheduled := (c_scheduled (s_config u))(kind := None)\<rparr>" "s_orc t = s_orc u"
  show ?thesis using apply_config_value_other[OF u] current_config_payload_cong[OF t] by (simp add: applies_only_def)
qed

lemma apply_scheduled_value:
  assumes "apply_scheduled_changes e kind s = Inr t" "c_scheduled (s_config s) kind = Some p"
  shows "current_config_payload t kind = pcc_payload p"
  using assms(1)
proof (rule apply_scheduled_Inr)
  fix q u
  assume q: "c_scheduled (s_config s) kind = Some q" and u: "apply_config_value kind (pcc_payload q) s = Inr u"
    and t: "s_config t = (s_config u)\<lparr>c_scheduled := (c_scheduled (s_config u))(kind := None)\<rparr>" "s_orc t = s_orc u"
  show ?thesis using apply_config_value_effect[OF u] current_config_payload_cong[OF t] q assms(2) by simp
qed

text \<open>The contract of a getter: it shows the value in force, and the payload determines the value.  What
  a client concludes: scheduling a value changes nothing the getter shows, applying it makes the
  getter show exactly that value, and applying any other kind leaves it.\<close>

locale setting =
  fixes kind :: config_kind and get :: "store \<Rightarrow> 'v" and payload :: "'v \<Rightarrow> config_payload"
  assumes shows_value: "current_config_payload s kind = payload (get s)"
    and determined: "payload x = payload y \<Longrightarrow> x = y"
begin

lemma scheduling_hides:
  assumes "schedule_config_change e k p s = Inr t"
  shows "get t = get s"
  using current_config_payload_cong[OF schedule_Inr(3,4)[OF assms], of kind] shows_value determined by metis

lemma applying_shows:
  assumes "schedule_config_change e kind (payload v) s = Inr t" "c_scheduled (s_config u) kind = c_scheduled (s_config t) kind"
    and "apply_scheduled_changes e' kind u = Inr w"
  shows "get w = v"
proof -
  have "current_config_payload w kind = payload v"
    using apply_scheduled_value[OF assms(3)] schedule_Inr(2)[OF assms(1)] assms(2) by simp
  then show ?thesis using shows_value determined by metis
qed

lemma applying_other:
  assumes "apply_scheduled_changes e k s = Inr t" "k \<noteq> kind"
  shows "get t = get s"
proof -
  have "current_config_payload t kind = current_config_payload s kind"
    using apply_scheduled_only[OF assms(1)] assms(2) by (simp add: applies_only_def)
  then show ?thesis using shows_value determined by metis
qed

end

named_theorems getter_defs

lemmas [getter_defs] = get_max_stake_def get_min_bet_def get_max_user_exposure_def get_max_pending_winnings_def
  get_oracle_timestamp_skew_def get_protocol_fee_bps_def get_fee_model_def get_min_participants_def
  get_precision_payout_policy_def get_mint_limit_def get_epoch_mint_budget_def get_archive_retention_def
  get_early_cashout_bps_def get_pending_winnings_expiry_def DEFAULT_PENDING_WINNINGS_EXPIRY_def
  get_oracle_max_deviation_bps_def get_bet_window_ledgers_def get_run_window_ledgers_def get_close_buffer_ledgers_def
  current_config_payload_def Let_def

interpretation windows: setting KWindows "\<lambda>s. (get_bet_window_ledgers s, get_run_window_ledgers s)" "\<lambda>(b, r). PWindows b r"
  by unfold_locales (auto simp: getter_defs)
interpretation max_stake: setting KMaxStake get_max_stake PMaxStake by unfold_locales (auto simp: getter_defs)
interpretation min_bet: setting KMinBet get_min_bet PMinBet by unfold_locales (auto simp: getter_defs)
interpretation max_exposure: setting KMaxUserRoundExposure get_max_user_exposure PMaxUserRoundExposure
  by unfold_locales (auto simp: getter_defs)
interpretation max_pending: setting KMaxPendingWinnings get_max_pending_winnings PMaxPendingWinnings
  by unfold_locales (auto simp: getter_defs)
interpretation stale: setting KOracleStaleThreshold stale_threshold POracleStaleThreshold
  by unfold_locales (auto simp: getter_defs)
interpretation max_deviation: setting KOracleMaxDeviationBps get_oracle_max_deviation_bps POracleMaxDeviationBps
  by unfold_locales (auto simp: getter_defs)
interpretation skew: setting KOracleTimestampSkew get_oracle_timestamp_skew POracleTimestampSkew
  by unfold_locales (auto simp: getter_defs)
interpretation fee_bps: setting KProtocolFeeBps get_protocol_fee_bps PProtocolFeeBps by unfold_locales (auto simp: getter_defs)
interpretation expiry: setting KPendingWinningsExpiry get_pending_winnings_expiry PPendingWinningsExpiry
  by unfold_locales (auto simp: getter_defs)
interpretation fee_model: setting KFeeModel get_fee_model PFeeModel by unfold_locales (auto simp: getter_defs)
interpretation close_buffer: setting KCloseBufferLedgers get_close_buffer_ledgers PCloseBufferLedgers
  by unfold_locales (auto simp: getter_defs)
interpretation min_participants: setting KMinParticipants get_min_participants PMinParticipants
  by unfold_locales (auto simp: getter_defs)
interpretation precision_cap: setting KMaxPrecisionParticipants get_max_precision_participants PMaxPrecisionParticipants
  by unfold_locales (auto simp: getter_defs)
interpretation payout_policy: setting KPrecisionPayoutPolicy get_precision_payout_policy PPrecisionPayoutPolicy
  by unfold_locales (auto simp: getter_defs)
interpretation mint_limit: setting KMintLimit get_mint_limit PMintLimit by unfold_locales (auto simp: getter_defs)
interpretation epoch_budget: setting KEpochMintBudget get_epoch_mint_budget PEpochMintBudget
  by unfold_locales (auto simp: getter_defs)
interpretation retention: setting KArchiveRetention get_archive_retention PArchiveRetention
  by unfold_locales (auto simp: getter_defs)
interpretation dispute_ledgers: setting KDisputeLedgers get_dispute_ledgers PDisputeLedgers
  by unfold_locales (auto simp: getter_defs)
interpretation early_cashout: setting KEarlyCashoutBps get_early_cashout_bps PEarlyCashoutBps
  by unfold_locales (auto simp: getter_defs)

section \<open>Reading back what was set\<close>

text \<open>A timelocked setter: scheduling does not show, applying the change shows the value, and applying
  another kind leaves it.  A direct setter: the value shows at once, and no other kind changes.\<close>

definition reads_back :: "(env \<Rightarrow> 'v \<Rightarrow> store \<Rightarrow> store res) \<Rightarrow> config_kind \<Rightarrow> (store \<Rightarrow> 'v) \<Rightarrow> bool" where
  "reads_back setter kind get \<longleftrightarrow>
     (\<forall>e v s t u e' k w. setter e v s = Inr t \<and> c_scheduled (s_config u) kind = c_scheduled (s_config t) kind \<and>
        apply_scheduled_changes e' k u = Inr w \<longrightarrow> get t = get s \<and> get w = (if k = kind then v else get u))"

definition shows_now :: "(env \<Rightarrow> 'v \<Rightarrow> store \<Rightarrow> store res) \<Rightarrow> config_kind \<Rightarrow> (store \<Rightarrow> 'v) \<Rightarrow> bool" where
  "shows_now setter kind get \<longleftrightarrow> (\<forall>e v s t. setter e v s = Inr t \<longrightarrow> get t = v \<and> applies_only kind s t)"

context setting
begin

lemma reads_backI:
  assumes "\<And>e v s t. setter e v s = Inr t \<Longrightarrow> schedule_config_change e kind (payload v) s = Inr t"
  shows "reads_back setter kind get"
  unfolding reads_back_def
proof (intro allI impI; elim conjE)
  fix e v s t u e' k w
  assume a: "setter e v s = Inr t" "c_scheduled (s_config u) kind = c_scheduled (s_config t) kind" "apply_scheduled_changes e' k u = Inr w"
  show "get t = get s \<and> get w = (if k = kind then v else get u)"
    using scheduling_hides[OF assms[OF a(1)]] applying_shows[OF assms[OF a(1)] a(2)] applying_other[OF a(3)] a(3) by auto
qed

lemma shows_nowI:
  assumes "\<And>e v s t. setter e v s = Inr t \<Longrightarrow>
      \<exists>u. apply_config_value kind (payload v) s = Inr u \<and> s_config t = s_config u \<and> s_orc t = s_orc u"
  shows "shows_now setter kind get"
  unfolding shows_now_def
proof (intro allI impI)
  fix e v s t
  assume "setter e v s = Inr t"
  from assms[OF this] obtain u where u: "apply_config_value kind (payload v) s = Inr u" "s_config t = s_config u" "s_orc t = s_orc u" by blast
  have eff: "current_config_payload t k = current_config_payload u k" for k
    by (rule current_config_payload_cong[where x = "c_scheduled (s_config u)"]) (use u in simp_all)
  have "payload (get t) = payload v" using eff[of kind] apply_config_value_effect[OF u(1)] shows_value by metis
  then show "get t = v \<and> applies_only kind s t"
    using determined apply_config_value_other[OF u(1)] eff by (simp add: applies_only_def)
qed

end

lemmas scheduling_setters = schedule_windows_def schedule_max_stake_def schedule_min_bet_def schedule_max_user_exposure_def
  schedule_max_pending_winnings_def schedule_oracle_stale_threshold_def schedule_oracle_deviation_bps_def
  schedule_oracle_timestamp_skew_def schedule_protocol_fee_bps_def schedule_pending_winnings_expiry_def

lemmas direct_setters = set_fee_model_def set_close_buffer_ledgers_def set_min_participants_def set_max_precision_participants_def
  set_precision_payout_policy_def set_mint_limit_def set_epoch_mint_budget_def set_archive_retention_def
  set_dispute_ledgers_def set_early_cashout_bps_def emit_config_updated_def

lemma timelocked_settings:
  "reads_back (\<lambda>e (b, r). schedule_windows e b r) KWindows (\<lambda>s. (get_bet_window_ledgers s, get_run_window_ledgers s))"
  "reads_back schedule_max_stake KMaxStake get_max_stake"
  "reads_back schedule_min_bet KMinBet get_min_bet"
  "reads_back schedule_max_user_exposure KMaxUserRoundExposure get_max_user_exposure"
  "reads_back schedule_max_pending_winnings KMaxPendingWinnings get_max_pending_winnings"
  "reads_back schedule_oracle_stale_threshold KOracleStaleThreshold stale_threshold"
  "reads_back schedule_oracle_deviation_bps KOracleMaxDeviationBps get_oracle_max_deviation_bps"
  "reads_back schedule_oracle_timestamp_skew KOracleTimestampSkew get_oracle_timestamp_skew"
  "reads_back schedule_protocol_fee_bps KProtocolFeeBps get_protocol_fee_bps"
  "reads_back schedule_pending_winnings_expiry KPendingWinningsExpiry get_pending_winnings_expiry"
  by (rule windows.reads_backI max_stake.reads_backI min_bet.reads_backI max_exposure.reads_backI max_pending.reads_backI
        stale.reads_backI max_deviation.reads_backI skew.reads_backI fee_bps.reads_backI expiry.reads_backI;
      auto simp: scheduling_setters and_then_Inr)+

lemma direct_settings:
  "shows_now set_fee_model KFeeModel get_fee_model"
  "shows_now set_close_buffer_ledgers KCloseBufferLedgers get_close_buffer_ledgers"
  "shows_now set_min_participants KMinParticipants get_min_participants"
  "shows_now set_max_precision_participants KMaxPrecisionParticipants get_max_precision_participants"
  "shows_now set_precision_payout_policy KPrecisionPayoutPolicy get_precision_payout_policy"
  "shows_now set_mint_limit KMintLimit get_mint_limit"
  "shows_now set_epoch_mint_budget KEpochMintBudget get_epoch_mint_budget"
  "shows_now set_archive_retention KArchiveRetention get_archive_retention"
  "shows_now set_dispute_ledgers KDisputeLedgers get_dispute_ledgers"
  "shows_now set_early_cashout_bps KEarlyCashoutBps get_early_cashout_bps"
  by (rule fee_model.shows_nowI close_buffer.shows_nowI min_participants.shows_nowI precision_cap.shows_nowI
        payout_policy.shows_nowI mint_limit.shows_nowI epoch_budget.shows_nowI retention.shows_nowI dispute_ledgers.shows_nowI
        early_cashout.shows_nowI;
      auto simp: direct_setters and_then_Inr if_Inl_Inr apply_config_value_def)+

text \<open>C37 Every configuration value reads back.  For each of the ten values behind the timelock: after the
  admin schedules a value its getter still shows the old one; when the change is applied the getter
  shows exactly the scheduled value, whatever else happened to the store in between; applying a
  change of another kind leaves it.  For each of the ten values set directly: the getter shows the
  value at once and no other configuration value changes.\<close>

theorem settings_read_back:
  "reads_back (\<lambda>e (b, r). schedule_windows e b r) KWindows (\<lambda>s. (get_bet_window_ledgers s, get_run_window_ledgers s)) \<and>
   reads_back schedule_max_stake KMaxStake get_max_stake \<and>
   reads_back schedule_min_bet KMinBet get_min_bet \<and>
   reads_back schedule_max_user_exposure KMaxUserRoundExposure get_max_user_exposure \<and>
   reads_back schedule_max_pending_winnings KMaxPendingWinnings get_max_pending_winnings \<and>
   reads_back schedule_oracle_stale_threshold KOracleStaleThreshold stale_threshold \<and>
   reads_back schedule_oracle_deviation_bps KOracleMaxDeviationBps get_oracle_max_deviation_bps \<and>
   reads_back schedule_oracle_timestamp_skew KOracleTimestampSkew get_oracle_timestamp_skew \<and>
   reads_back schedule_protocol_fee_bps KProtocolFeeBps get_protocol_fee_bps \<and>
   reads_back schedule_pending_winnings_expiry KPendingWinningsExpiry get_pending_winnings_expiry \<and>
   shows_now set_fee_model KFeeModel get_fee_model \<and>
   shows_now set_close_buffer_ledgers KCloseBufferLedgers get_close_buffer_ledgers \<and>
   shows_now set_min_participants KMinParticipants get_min_participants \<and>
   shows_now set_max_precision_participants KMaxPrecisionParticipants get_max_precision_participants \<and>
   shows_now set_precision_payout_policy KPrecisionPayoutPolicy get_precision_payout_policy \<and>
   shows_now set_mint_limit KMintLimit get_mint_limit \<and>
   shows_now set_epoch_mint_budget KEpochMintBudget get_epoch_mint_budget \<and>
   shows_now set_archive_retention KArchiveRetention get_archive_retention \<and>
   shows_now set_dispute_ledgers KDisputeLedgers get_dispute_ledgers \<and>
   shows_now set_early_cashout_bps KEarlyCashoutBps get_early_cashout_bps"
  by (intro conjI timelocked_settings direct_settings)

theorem settings_read_back_witness:
  "\<exists>t u. schedule_min_bet (sample_env 100 0 [1]) (Some 25) (empty_store\<lparr>s_admin := Some 1, s_schema := Some 3\<rparr>) = Inr t \<and>
     apply_scheduled_changes (sample_env 1540 0 []) KMinBet t = Inr u \<and> get_min_bet t = None \<and> get_min_bet u = Some 25"
proof -
  let ?s = "empty_store\<lparr>s_admin := Some 1, s_schema := Some 3\<rparr>"
  let ?t = "emit (''config'', ''sched'') [VNat 16, VNat 1540] (upd_config (\<lambda>c. c\<lparr>c_scheduled := (c_scheduled c)(KMinBet \<mapsto>
      \<lparr>pcc_payload = PMinBet (Some 25), pcc_activation_ledger = 1540, pcc_scheduled_at_ledger = 100\<rparr>)\<rparr>) ?s)"
  have t: "schedule_min_bet (sample_env 100 0 [1]) (Some 25) ?s = Inr ?t"
    by (simp add: schedule_min_bet_def validate_min_bet_def require_supported_schema_def schema_version_def
        schedule_config_change_def admin_unpaused_def admin_auth_def require_auth_def ensure_not_paused_def policy_gate_def
        current_mode_def empty_store_def sample_env_def uchecked_add_def config_bounds protocol_constants)
  obtain u where u: "apply_scheduled_changes (sample_env 1540 0 []) KMinBet ?t = Inr u"
    by (simp add: apply_scheduled_changes_def require_supported_schema_def schema_version_def
        ensure_normal_mode_def policy_gate_def current_mode_def empty_store_def sample_env_def
        apply_config_payload_def apply_config_value_def validate_min_bet_def protocol_constants config_bounds upd_config_def emit_def)
  have "reads_back schedule_min_bet KMinBet get_min_bet" using settings_read_back by blast
  from this[unfolded reads_back_def, rule_format, OF conjI[OF t conjI[OF refl u]]]
  have "get_min_bet ?t = get_min_bet ?s" "get_min_bet u = Some 25" by simp_all
  moreover have "get_min_bet ?s = None" by (simp add: get_min_bet_def empty_store_def)
  ultimately have "get_min_bet ?t = None" "get_min_bet u = Some 25" by (simp_all only:)
  then show ?thesis by (intro exI conjI) (rule t, rule u)
qed

end
